(* ===== verification/Pop_Prelude.thy ===== *)
theory Pop_Prelude
  imports Main "HOL-Library.Word"
begin

unbundle bit_operations_syntax

text \<open>
  Shared vocabulary of the development: the widths of the C types the sources use, the ways a
  C statement can go wrong, the page arithmetic that \<^verbatim>\<open>lib/libpop.c\<close> and
  \<^verbatim>\<open>kmod/boogiepop.c\<close> share (\<^verbatim>\<open>PAGE_SHIFT\<close>), and generic facts on words, intervals and lists.

  The collection \<open>word_nat\<close> holds the rules that move a goal on fixed-width words to natural
  numbers; \<open>nowrap\<close> holds their conditional forms, for the places where the code's arithmetic does
  not wrap.
\<close>

named_theorems word_nat "transfer of word comparisons and operations to natural numbers"
named_theorems nowrap "word operations that do not wrap around"

section \<open>C types and failures\<close>

type_synonym u8 = "8 word"
type_synonym u16 = "16 word"
type_synonym u32 = "32 word"
type_synonym u64 = "64 word"
type_synonym addr = u64

text \<open>
  Failures of a C statement that are neither an error return nor a value: the model returns one of
  these in place of a result, so that a path which dereferences \<^verbatim>\<open>NULL\<close> or reads a freed
  structure is visible in the type.
\<close>

datatype fault = NullDeref | UseAfterFree | OutOfBounds | DivByZero | SignedOverflow

type_synonym 'a outcome = "fault + 'a"

text \<open>Sequencing: a fault ends the function.\<close>

definition obind :: "'a outcome \<Rightarrow> ('a \<Rightarrow> 'b outcome) \<Rightarrow> 'b outcome" where
  "obind x f = (case x of Inl e \<Rightarrow> Inl e | Inr a \<Rightarrow> f a)"

lemma obind_simps [simp]: "obind (Inl e) f = Inl e" "obind (Inr a) f = f a"
  by (simp_all add: obind_def)

lemma obind_Inr_iff: "obind x f = Inr b \<longleftrightarrow> (\<exists>a. x = Inr a \<and> f a = Inr b)"
  by (cases x) auto

text \<open>The \<^verbatim>\<open>errno\<close> values that the sources set or return (negated, in the kernel).\<close>

datatype errno = EINVAL | ENOMEM | ENODEV | EFAULT | ENOTSUPP | ENOBUFS

section \<open>Words and natural numbers\<close>

declare word_less_nat_alt [word_nat] and word_le_nat_alt [word_nat]

lemma word_eq_nat [word_nat]: "a = b \<longleftrightarrow> unat a = unat (b :: 'a::len word)"
  by (rule word_unat_eq_iff)

lemma unat_add_nowrap [nowrap]:
  "unat a + unat b < 2 ^ LENGTH('a) \<Longrightarrow> unat (a + b :: 'a::len word) = unat a + unat b"
  using unat_add_lem [of a b] by simp

lemma unat_sub_nowrap [nowrap]:
  "unat b \<le> unat a \<Longrightarrow> unat (a - b :: 'a::len word) = unat a - unat b"
  by (simp add: unat_sub word_le_nat_alt)

lemma unat_mult_nowrap [nowrap]:
  "unat a * unat b < 2 ^ LENGTH('a) \<Longrightarrow> unat (a * b :: 'a::len word) = unat a * unat b"
  using unat_mult_lem [of a b] by simp

lemma unat_u64_less: "unat (a :: u64) < 2 ^ 64"
  using unsigned_less [of a, where ?'a = nat] by simp

lemma unat_u8_less: "unat (a :: u8) < 256"
  using unsigned_less [of a, where ?'a = nat] by simp

lemma unat_u32_less: "unat (a :: u32) < 2 ^ 32"
  using unsigned_less [of a, where ?'a = nat] by simp

lemma unat_of_nat_nowrap [nowrap]:
  "n < 2 ^ LENGTH('a) \<Longrightarrow> unat (of_nat n :: 'a::len word) = n"
  by (simp add: unat_of_nat)

lemma unat_word_of_int_nowrap:
  "0 \<le> k \<Longrightarrow> k < 2 ^ LENGTH('a) \<Longrightarrow> unat (word_of_int k :: 'a::len word) = nat k"
  using unat_of_nat_nowrap [of "nat k", where ?'a = 'a]
  by (simp add: nat_less_iff)

lemma uint_of_int_u64: "uint (word_of_int k :: u64) = k mod 2 ^ 64"
  by (simp add: uint_word_of_int)

lemma sint_of_int_u32: "- 2147483648 \<le> k \<Longrightarrow> k < 2147483648 \<Longrightarrow> sint (word_of_int k :: u32) = k"
  unfolding int_word_sint by simp

lemma unat_pow2: "n < LENGTH('a) \<Longrightarrow> unat (2 ^ n :: 'a::len word) = 2 ^ n"
  using unat_of_nat_nowrap [of "2 ^ n", where ?'a = 'a] by simp

lemma unat_ucast_u32: "unat (ucast (w :: u32) :: u64) = unat w"
  using unat_u32_less [of w] by (simp add: unsigned_ucast_eq take_bit_nat_eq_self)

lemma unat_and_mask: "unat (w AND mask n :: 'a::len word) = unat w mod 2 ^ n"
  by (metis take_bit_eq_mask take_bit_eq_mod unsigned_take_bit_eq)

section \<open>Pages\<close>

text \<open>
  \<^verbatim>\<open>PAGE_SHIFT\<close> is 12 on x86-64, both in \<^verbatim>\<open>sys/user.h\<close> (user space) and in the kernel.
  The C expression \<^verbatim>\<open>n << PAGE_SHIFT\<close> on a 64-bit unsigned operand drops the bits that leave
  the word.
\<close>

abbreviation PAGE_SHIFT :: nat where "PAGE_SHIFT \<equiv> 12"

definition pages_to_bytes :: "u64 \<Rightarrow> u64" where
  "pages_to_bytes n = push_bit PAGE_SHIFT n"

definition bytes_to_pages :: "u64 \<Rightarrow> u64" where
  "bytes_to_pages n = drop_bit PAGE_SHIFT n"

lemma unat_pages_to_bytes: "unat (pages_to_bytes n) = (unat n * 4096) mod 2 ^ 64"
  by (simp add: pages_to_bytes_def push_bit_eq_mult unat_word_ariths)

lemma unat_pages_to_bytes_nowrap [nowrap]:
  "unat n * 4096 < 2 ^ 64 \<Longrightarrow> unat (pages_to_bytes n) = unat n * 4096"
  by (simp add: unat_pages_to_bytes)

lemma unat_bytes_to_pages: "unat (bytes_to_pages n) = unat n div 4096"
  by (simp add: bytes_to_pages_def drop_bit_eq_div unat_div)

text \<open>
  Rounding a byte count up to whole pages, as \<^verbatim>\<open>(size + (1 << PAGE_SHIFT) - 1) >> PAGE_SHIFT\<close>
  does in \<^verbatim>\<open>pop_mem_init\<close> and \<^verbatim>\<open>pop_register_p2pmem\<close>; the addition wraps.
\<close>

definition page_round_up :: "u64 \<Rightarrow> u64" where
  "page_round_up sz = bytes_to_pages (sz + push_bit PAGE_SHIFT 1 - 1)"

definition pages_needed :: "nat \<Rightarrow> nat" where
  "pages_needed n = (n + 4095) div 4096"

lemma unat_page_round_up:
  assumes "unat sz \<le> 2 ^ 64 - 4096"
  shows "unat (page_round_up sz) = pages_needed (unat sz)"
proof -
  have "unat (sz + 4095) = unat sz + 4095"
    using assms by (subst unat_add_nowrap) auto
  then show ?thesis
    by (simp add: page_round_up_def unat_bytes_to_pages pages_needed_def add.commute
        flip: add_diff_eq)
qed

lemma ceil_div:
  fixes b k :: nat
  assumes "0 < b"
  shows "(k + b - 1) div b = (if k mod b = 0 then k div b else Suc (k div b))"
proof -
  have k: "b * (k div b) + k mod b = k" "k mod b < b" using assms by simp_all
  have "(k + b - 1) div b = k div b" if "k mod b = 0"
    by (rule div_nat_eqI; (unfold mult_Suc_right)?; use assms k that in linarith)
  moreover have "(k + b - 1) div b = Suc (k div b)" if "k mod b \<noteq> 0"
    by (rule div_nat_eqI; (unfold mult_Suc_right)?; use assms k that in linarith)
  ultimately show ?thesis by simp
qed

lemma pages_needed_least: "n \<le> pages_needed n * 4096" "n \<le> k * 4096 \<Longrightarrow> pages_needed n \<le> k"
  by (auto simp: pages_needed_def)

lemma pages_needed_upper: "pages_needed n * 4096 < n + 4096"
  by (auto simp: pages_needed_def)

lemma pages_needed_le: "n \<le> 2 ^ 64 - 4096 \<Longrightarrow> pages_needed n < 2 ^ 52"
  by (auto simp: pages_needed_def)

lemma pages_needed_0 [simp]: "pages_needed 0 = 0"
  by (simp add: pages_needed_def)

lemma pages_needed_mult [simp]: "pages_needed (k * 4096) = k"
  by (simp add: pages_needed_def)

section \<open>Byte ranges\<close>

text \<open>
  A buffer occupies the half-open range of addresses from its start; the ranges are kept as natural
  numbers, so that a buffer that wraps around the address space is not mistaken for a small one.
\<close>

definition span :: "addr \<Rightarrow> u64 \<Rightarrow> nat set" where
  "span a n = {unat a ..< unat a + unat n}"

lemma span_empty [simp]: "span a 0 = {}"
  by (simp add: span_def)

lemma span_disjoint:
  "unat a + unat n \<le> unat b \<Longrightarrow> span a n \<inter> span b m = {}"
  by (auto simp: span_def)

section \<open>Lists\<close>

lemma nth_update_if: "xs[i := y] ! j = (if i = j \<and> j < length xs then y else xs ! j)"
  by (cases "i < length xs") (auto simp: nth_list_update list_update_beyond)

lemma list_update_all_nth:
  "i < length xs \<Longrightarrow> (map f xs)[i := y] = map f (take i xs) @ y # map f (drop (Suc i) xs)"
  by (simp add: upd_conv_take_nth_drop take_map drop_map)

end
