(* ===== verification/C_Strings.thy ===== *)
theory C_Strings
  imports Pop_Prelude
begin

text \<open>
  The parts of the C library's string handling that the sources call: \<^verbatim>\<open>strncmp\<close> and
  \<^verbatim>\<open>strncpy\<close>, \<^verbatim>\<open>atoi\<close>, the \<^verbatim>\<open>%x\<close> conversions of \<^verbatim>\<open>sscanf\<close>, and the
  \<^verbatim>\<open>%x\<close> and \<^verbatim>\<open>%0Nx\<close> conversions of \<^verbatim>\<open>snprintf\<close>.
  A C string is the list of its characters before the terminating NUL.

  The theory ends with the round trip that the library and the kernel module rely on: a device
  name printed with \<^verbatim>\<open>"%04x:%02x:%02x.%x"\<close> is read back by \<^verbatim>\<open>"%x:%x:%x.%x"\<close>.
\<close>

section \<open>Comparison and copying\<close>

text \<open>\<^verbatim>\<open>strncmp(s, t, n) == 0\<close>\<close>

definition strncmp_eq :: "string \<Rightarrow> string \<Rightarrow> nat \<Rightarrow> bool" where
  "strncmp_eq s t n \<longleftrightarrow> take n s = take n t"

text \<open>
  \<^verbatim>\<open>strncpy(dst, src, n)\<close>: the \<open>n\<close> bytes of the destination, padded with NUL; there is no
  terminator when the source has \<open>n\<close> characters or more.
\<close>

definition strncpy :: "string \<Rightarrow> nat \<Rightarrow> string" where
  "strncpy src n = take n (src @ replicate n (CHR 0x00))"

lemma length_strncpy [simp]: "length (strncpy s n) = n"
  by (simp add: strncpy_def)

section \<open>Digits\<close>

definition is_space :: "char \<Rightarrow> bool" where
  "is_space c \<longleftrightarrow> of_char c = (32::nat) \<or> (9::nat) \<le> of_char c \<and> of_char c \<le> (13::nat)"

definition is_digit :: "char \<Rightarrow> bool" where
  "is_digit c \<longleftrightarrow> (48::nat) \<le> of_char c \<and> of_char c \<le> (57::nat)"

definition is_xdigit :: "char \<Rightarrow> bool" where
  "is_xdigit c \<longleftrightarrow> is_digit c \<or> (97::nat) \<le> of_char c \<and> of_char c \<le> (102::nat)
     \<or> (65::nat) \<le> of_char c \<and> of_char c \<le> (70::nat)"

definition xdigit_val :: "char \<Rightarrow> nat" where
  "xdigit_val c = (if is_digit c then of_char c - 48
     else if 97 \<le> (of_char c :: nat) then of_char c - 87 else of_char c - 55)"

definition xdigit :: "nat \<Rightarrow> char" where
  "xdigit d = (if d < 10 then char_of (48 + d) else char_of (87 + d))"

definition digits_value :: "nat \<Rightarrow> string \<Rightarrow> nat" where
  "digits_value base = foldl (\<lambda>a c. base * a + xdigit_val c) 0"

lemma of_char_xdigit: "d < 16 \<Longrightarrow> of_char (xdigit d) = (if d < 10 then 48 + d else 87 + d)"
  by (simp add: xdigit_def)

lemma is_xdigit_xdigit [simp]: "d < 16 \<Longrightarrow> is_xdigit (xdigit d)"
  by (auto simp: is_xdigit_def is_digit_def of_char_xdigit)

lemma xdigit_val_xdigit [simp]: "d < 16 \<Longrightarrow> xdigit_val (xdigit d) = d"
  by (auto simp: xdigit_val_def is_digit_def of_char_xdigit)

lemma xdigit_0 [simp]: "xdigit 0 = CHR ''0''"
  by code_simp

lemma digits_value_snoc: "digits_value b (xs @ [c]) = b * digits_value b xs + xdigit_val c"
  by (simp add: digits_value_def)

lemma digits_value_Nil [simp]: "digits_value b [] = 0"
  by (simp add: digits_value_def)

section \<open>atoi\<close>

text \<open>
  \<^verbatim>\<open>atoi\<close>: white space, an optional sign, decimal digits. The value is \<^verbatim>\<open>(int) strtol(s)\<close>:
  saturated to 64 bits, then cut to 32.
\<close>

definition strtol_val :: "bool \<Rightarrow> nat \<Rightarrow> int" where
  "strtol_val neg n = (if neg then max (- (2 ^ 63)) (- int n) else min (2 ^ 63 - 1) (int n))"

definition atoi :: "string \<Rightarrow> int" where
  "atoi s = (let s1 = dropWhile is_space s;
       neg = (s1 \<noteq> [] \<and> hd s1 = CHR ''-'');
       s2 = (if s1 \<noteq> [] \<and> (hd s1 = CHR ''-'' \<or> hd s1 = CHR ''+'') then tl s1 else s1)
     in sint (word_of_int (strtol_val neg (digits_value 10 (takeWhile is_digit s2))) :: u32))"

lemma atoi_range: "- (2 ^ 31) \<le> atoi s \<and> atoi s < 2 ^ 31"
proof -
  have "- (2 ^ (LENGTH(32) - 1)) \<le> sint w \<and> sint w < 2 ^ (LENGTH(32) - 1)" for w :: u32
    by (rule conjI [OF sint_ge sint_lt])
  then show ?thesis
    by (simp add: atoi_def Let_def del: sint_ge sint_lt)
qed

lemma takeWhile_is_digit_stop: "\<not> is_digit c \<Longrightarrow> takeWhile is_digit (xs @ c # ys) = takeWhile is_digit xs"
  by (induction xs) auto

text \<open>What follows the first newline does not matter.\<close>

lemma atoi_newline_ignored:
  assumes "\<forall>c \<in> set xs. is_digit c" "xs \<noteq> []"
  shows "atoi (xs @ CHR 0x0A # ys) = atoi xs"
proof -
  have "is_digit (hd xs)"
    using assms hd_in_set by blast
  then have "\<not> is_space (hd xs)" and "hd xs \<noteq> CHR ''-''" and "hd xs \<noteq> CHR ''+''"
    by (auto simp: is_digit_def is_space_def)
  moreover have "dropWhile is_space (xs @ CHR 0x0A # ys) = xs @ CHR 0x0A # ys"
    and "dropWhile is_space xs = xs"
    using calculation assms by (cases xs; simp)+
  moreover have "takeWhile is_digit (xs @ CHR 0x0A # ys) = takeWhile is_digit xs"
    by (rule takeWhile_is_digit_stop) (simp add: is_digit_def)
  ultimately show ?thesis
    using assms by (simp add: atoi_def)
qed

section \<open>sscanf with hexadecimal conversions\<close>

text \<open>
  One conversion \<^verbatim>\<open>%x\<close>: white space is skipped, then (in user space only; the kernel's
  \<^verbatim>\<open>sscanf\<close> takes no sign for an unsigned conversion) an optional sign, an optional
  \<^verbatim>\<open>0x\<close>, and at least one digit. The result is \<^verbatim>\<open>strtoul\<close>'s: saturated to 64 bits; the
  caller cuts it to the width of the destination.
\<close>

definition strtoul_val :: "bool \<Rightarrow> nat \<Rightarrow> u64" where
  "strtoul_val neg n =
     (if 2 ^ 64 \<le> n then - 1 else if neg then - of_nat n else of_nat n)"

definition skip_0x :: "string \<Rightarrow> string" where
  "skip_0x s = (case s of a # b # r \<Rightarrow>
       if a = CHR ''0'' \<and> (b = CHR ''x'' \<or> b = CHR ''X'') then r else s
     | _ \<Rightarrow> s)"

definition scan_x :: "bool \<Rightarrow> string \<Rightarrow> (u64 \<times> string) option" where
  "scan_x sgd s = (let s1 = dropWhile is_space s;
       neg = (sgd \<and> s1 \<noteq> [] \<and> hd s1 = CHR ''-'');
       s2 = (if sgd \<and> s1 \<noteq> [] \<and> (hd s1 = CHR ''-'' \<or> hd s1 = CHR ''+'') then tl s1 else s1);
       s3 = skip_0x s2;
       ds = takeWhile is_xdigit s3
     in if ds = [] then None
        else Some (strtoul_val neg (digits_value 16 ds), dropWhile is_xdigit s3))"

text \<open>A format is a list of literal characters and conversions; the result lists the values stored.\<close>

datatype fmt = Lit char | Hex

fun sscanf_x :: "bool \<Rightarrow> fmt list \<Rightarrow> string \<Rightarrow> u64 list" where
  "sscanf_x sgd [] s = []"
| "sscanf_x sgd (Lit c # fs) s =
     (case s of [] \<Rightarrow> [] | d # r \<Rightarrow> if d = c then sscanf_x sgd fs r else [])"
| "sscanf_x sgd (Hex # fs) s =
     (case scan_x sgd s of None \<Rightarrow> [] | Some (v, r) \<Rightarrow> v # sscanf_x sgd fs r)"

abbreviation fmt_dbsf :: "fmt list" where
  "fmt_dbsf \<equiv> [Hex, Lit CHR '':'', Hex, Lit CHR '':'', Hex, Lit CHR ''.'', Hex]"

abbreviation fmt_bsf :: "fmt list" where
  "fmt_bsf \<equiv> [Hex, Lit CHR '':'', Hex, Lit CHR ''.'', Hex]"

lemma sscanf_x_length: "length (sscanf_x sgd fs s) \<le> length (filter (\<lambda>f. f = Hex) fs)"
  by (induction sgd fs s rule: sscanf_x.induct) (auto split: list.splits option.splits)

text \<open>\<^verbatim>\<open>sscanf(s, "%x:%x:%x.%x", ...)\<close>\<close>

definition scan_dbsf :: "bool \<Rightarrow> string \<Rightarrow> u64 list" where
  "scan_dbsf sgd s = sscanf_x sgd fmt_dbsf s"

text \<open>\<^verbatim>\<open>sscanf(s, "%x:%x.%x", ...)\<close>\<close>

definition scan_bsf :: "bool \<Rightarrow> string \<Rightarrow> u64 list" where
  "scan_bsf sgd s = sscanf_x sgd fmt_bsf s"

text \<open>Evaluation of a conversion on a concrete string.\<close>

text \<open>\<^verbatim>\<open>sscanf(s, "0x%lx", ...)\<close>\<close>

definition scan_0x :: "string \<Rightarrow> u64 option" where
  "scan_0x s = (case sscanf_x True [Lit CHR ''0'', Lit CHR ''x'', Hex] s of [] \<Rightarrow> None | v # _ \<Rightarrow> Some v)"

lemmas scan_eval = scan_dbsf_def scan_bsf_def scan_x_def is_space_def is_xdigit_def is_digit_def
  skip_0x_def digits_value_def xdigit_val_def strtoul_val_def

section \<open>snprintf with hexadecimal conversions\<close>

fun to_hex :: "nat \<Rightarrow> string" where
  "to_hex n = (if n < 16 then [xdigit n] else to_hex (n div 16) @ [xdigit (n mod 16)])"

declare to_hex.simps [simp del]

text \<open>\<^verbatim>\<open>%0Nx\<close>: at least \<open>N\<close> digits, filled with zeros on the left.\<close>

definition hex_pad :: "nat \<Rightarrow> nat \<Rightarrow> string" where
  "hex_pad w n = (let h = to_hex n in replicate (w - length h) (CHR ''0'') @ h)"

text \<open>\<^verbatim>\<open>snprintf(buf, n, ...)\<close> keeps the first \<open>n - 1\<close> characters.\<close>

definition snprintf :: "nat \<Rightarrow> string \<Rightarrow> string" where
  "snprintf n s = take (n - 1) s"

text \<open>\<^verbatim>\<open>"%04x:%02x:%02x.%x"\<close>\<close>

definition print_dbsf :: "nat \<Rightarrow> nat \<Rightarrow> nat \<Rightarrow> nat \<Rightarrow> string" where
  "print_dbsf d b s f =
     hex_pad 4 d @ '':'' @ hex_pad 2 b @ '':'' @ hex_pad 2 s @ ''.'' @ to_hex f"

section \<open>Round trip\<close>

lemma to_hex_not_Nil [simp]: "to_hex n \<noteq> []"
  by (subst to_hex.simps) simp

lemma to_hex_xdigits: "\<forall>c \<in> set (to_hex n). is_xdigit c"
proof (induction n rule: to_hex.induct)
  case (1 n)
  then show ?case
    by (subst to_hex.simps) auto
qed

lemma digits_value_to_hex [simp]: "digits_value 16 (to_hex n) = n"
proof (induction n rule: to_hex.induct)
  case (1 n)
  show ?case
  proof (cases "n < 16")
    case True
    then show ?thesis
      by (simp add: to_hex.simps digits_value_def)
  next
    case False
    with "1" have "digits_value 16 (to_hex (n div 16) @ [xdigit (n mod 16)]) = n"
      by (simp add: digits_value_snoc)
    with False show ?thesis
      by (subst to_hex.simps) simp
  qed
qed

lemma digits_value_zeros: "digits_value b (replicate k (CHR ''0'') @ s) = digits_value b s"
proof (induction k)
  case (Suc k)
  have "digits_value b (CHR ''0'' # t) = digits_value b t" for t
    by (simp add: digits_value_def xdigit_val_def is_digit_def)
  with Suc show ?case by simp
qed simp

lemma hex_pad_xdigits: "\<forall>c \<in> set (hex_pad w n). is_xdigit c"
  using to_hex_xdigits [of n] by (auto simp: hex_pad_def Let_def is_xdigit_def is_digit_def)

lemma hex_pad_not_Nil [simp]: "hex_pad w n \<noteq> []"
  by (simp add: hex_pad_def Let_def)

lemma digits_value_hex_pad [simp]: "digits_value 16 (hex_pad w n) = n"
  by (simp add: hex_pad_def Let_def digits_value_zeros)

lemma takeWhile_prefix:
  "\<forall>c \<in> set ds. P c \<Longrightarrow> r = [] \<or> \<not> P (hd r) \<Longrightarrow> takeWhile P (ds @ r) = ds"
  by (induction ds) (cases r; auto)+

lemma dropWhile_prefix:
  "\<forall>c \<in> set ds. P c \<Longrightarrow> r = [] \<or> \<not> P (hd r) \<Longrightarrow> dropWhile P (ds @ r) = r"
  by (induction ds) (cases r; auto)+

lemma xdigit_not_special:
  "is_xdigit c \<Longrightarrow> \<not> is_space c \<and> c \<noteq> CHR ''-'' \<and> c \<noteq> CHR ''+'' \<and> c \<noteq> CHR ''x'' \<and> c \<noteq> CHR ''X''"
  by (auto simp: is_xdigit_def is_digit_def is_space_def)

lemma skip_0x_digits:
  assumes "\<forall>c \<in> set ds. is_xdigit c" "ds \<noteq> []"
    and "r = [] \<or> hd r \<noteq> CHR ''x'' \<and> hd r \<noteq> CHR ''X''"
  shows "skip_0x (ds @ r) = ds @ r"
  using assms
  by (cases ds rule: list.exhaust; cases "tl ds"; cases r)
    (auto simp: skip_0x_def dest: xdigit_not_special split: list.splits)

lemma scan_x_digits:
  assumes "\<forall>c \<in> set ds. is_xdigit c" "ds \<noteq> []"
    and "r = [] \<or> \<not> is_xdigit (hd r) \<and> hd r \<noteq> CHR ''x'' \<and> hd r \<noteq> CHR ''X''"
    and "digits_value 16 ds < 2 ^ 64"
  shows "scan_x sgd (ds @ r) = Some (of_nat (digits_value 16 ds), r)"
proof -
  obtain c cs where ds: "ds = c # cs" using assms(2) by (cases ds) auto
  then have "\<not> is_space c" "c \<noteq> CHR ''-''" "c \<noteq> CHR ''+''"
    using assms(1) xdigit_not_special [of c] by auto
  moreover have "skip_0x (ds @ r) = ds @ r"
    using assms(1-3) by (auto intro!: skip_0x_digits)
  moreover have "takeWhile is_xdigit (ds @ r) = ds" "dropWhile is_xdigit (ds @ r) = r"
    using takeWhile_prefix [OF assms(1), of r] dropWhile_prefix [OF assms(1), of r] assms(3)
    by blast+
  ultimately show ?thesis
    using assms(4) ds by (simp add: scan_x_def strtoul_val_def)
qed

lemma scan_x_hex_pad:
  assumes "n < 2 ^ 64" "r = [] \<or> \<not> is_xdigit (hd r) \<and> hd r \<noteq> CHR ''x'' \<and> hd r \<noteq> CHR ''X''"
  shows "scan_x sgd (hex_pad w n @ r) = Some (of_nat n, r)"
  using scan_x_digits [OF hex_pad_xdigits [of w n] hex_pad_not_Nil assms(2)] assms(1) by simp

lemma scan_x_to_hex: "n < 2 ^ 64 \<Longrightarrow> scan_x sgd (to_hex n) = Some (of_nat n, [])"
  using scan_x_digits [OF to_hex_xdigits to_hex_not_Nil, of "[]" n] by simp

lemma separators: "\<not> is_xdigit CHR '':''" "\<not> is_xdigit CHR ''.''"
  by (auto simp: is_xdigit_def is_digit_def)

lemma scan_print_dbsf:
  assumes "d < 2 ^ 64" "b < 2 ^ 64" "s < 2 ^ 64" "f < 2 ^ 64"
  shows "scan_dbsf sgd (print_dbsf d b s f) = [of_nat d, of_nat b, of_nat s, of_nat f]"
  using assms by (simp add: scan_dbsf_def print_dbsf_def scan_x_hex_pad scan_x_to_hex separators)

text \<open>Lengths: a number below \<open>16 ^ k\<close> prints in at most \<open>k\<close> digits.\<close>

lemma length_to_hex: "n < 16 ^ Suc k \<Longrightarrow> length (to_hex n) \<le> Suc k"
proof (induction k arbitrary: n)
  case 0
  then show ?case by (simp add: to_hex.simps)
next
  case (Suc k)
  then have "n div 16 < 16 ^ Suc k" by (simp add: less_mult_imp_div_less mult.commute)
  with Suc.IH have "length (to_hex (n div 16)) \<le> Suc k" by blast
  then show ?case by (subst to_hex.simps) simp
qed

lemma length_hex_pad: "n < 16 ^ Suc k \<Longrightarrow> length (hex_pad w n) \<le> max w (Suc k)"
  using length_to_hex [of n k] by (simp add: hex_pad_def Let_def)

lemma length_print_dbsf:
  assumes "d < 2 ^ 32" "b < 2 ^ 32" "s < 2 ^ 32" "f < 2 ^ 32"
  shows "length (print_dbsf d b s f) \<le> 35"
  using length_hex_pad [of d 7 4] length_hex_pad [of b 7 2] length_hex_pad [of s 7 2]
    length_to_hex [of f 7] assms
  by (simp add: print_dbsf_def)

lemma length_print_dbsf_pci:
  assumes "d < 2 ^ 16" "b < 2 ^ 8" "s < 2 ^ 5" "f < 2 ^ 3"
  shows "length (print_dbsf d b s f) \<le> 12"
  using length_hex_pad [of d 3 4] length_hex_pad [of b 1 2] length_hex_pad [of s 1 2]
    length_to_hex [of f 0] assms
  by (simp add: print_dbsf_def)

end
