(* ===== verification/Pop_Api.thy ===== *)
theory Pop_Api
  imports C_Strings
begin

text \<open>
  The part of \<^verbatim>\<open>include/libpop.h\<close> that user space and the kernel module share: the argument of
  the requests on \<^verbatim>\<open>/dev/boogiepop\<close> and the requests themselves.
\<close>

text \<open>\<^verbatim>\<open>struct pop_p2pmem_reg\<close>\<close>

record pop_p2pmem_reg =
  reg_domain :: u32
  reg_bus :: u32
  reg_slot :: u32
  reg_func :: u32
  reg_size :: u64

datatype ioctl_cmd = POP_P2PMEM_REG | POP_P2PMEM_UNREG | OtherCmd u32

end
