(* ===== verification/Boogiepop.thy ===== *)
theory Boogiepop
  imports Pop_Api "HOL-Library.Multiset"
begin

text \<open>
  The kernel module \<^verbatim>\<open>kmod/boogiepop.c\<close>: the registry of p2pmem devices behind
  \<^verbatim>\<open>/dev/boogiepop\<close> (\<^verbatim>\<open>pop_ioctl\<close>, \<^verbatim>\<open>pop_init\<close>, \<^verbatim>\<open>pop_exit\<close>) and the file
  operations of each \<^verbatim>\<open>/dev/pop/DOMAIN:BUS:SLOT.FUNC\<close> (\<^verbatim>\<open>pop_dev_open\<close>,
  \<^verbatim>\<open>pop_dev_release\<close>, \<^verbatim>\<open>pop_dev_llseek\<close>, \<^verbatim>\<open>pop_dev_mmap\<close> and the fault handler).

  \<^verbatim>\<open>struct pop_dev\<close> objects live on a heap and are named by their addresses, because the module
  frees them while other structures may still point to them; a read of a freed object is the fault
  \<^const>\<open>UseAfterFree\<close>. What the rest of the kernel answers during a call (the PCI core, the p2pdma
  allocator, \<^verbatim>\<open>kmalloc\<close>, the misc core, the copies from and to user space) is the record
  \<open>kenv\<close>, a parameter of every operation; the effect of those calls that the module must
  balance (references on PCI devices, p2pmem allocations, misc registrations) is part of the state.
\<close>

section \<open>State\<close>

record pop_dev =
  pd_pdev :: addr
  pd_devname :: string
  pd_p2pmem :: addr
  pd_size :: u64
  pd_refcnt :: int

text \<open>
  The state the module keeps or must balance: the allocated \<^verbatim>\<open>struct pop_dev\<close> objects,
  \<^verbatim>\<open>pop.dev_list\<close>, the registered misc devices, the references held on PCI devices, the p2pmem
  chunks taken from the devices, and \<^verbatim>\<open>private_data\<close> of the open files.
\<close>

record kstate =
  heap :: "addr \<rightharpoonup> pop_dev"
  dev_list :: "addr list"
  miscdevs :: "string multiset"
  pci_refs :: "addr \<Rightarrow> int"
  p2p_allocs :: "(addr \<times> addr \<times> u64) multiset"
  private_data :: "nat \<rightharpoonup> addr"

record kenv =
  pci_slot :: "u32 \<Rightarrow> u32 \<Rightarrow> u32 \<Rightarrow> addr option"
  pci_has_p2pmem :: "addr \<Rightarrow> bool"
  gen_pool_size :: "addr \<Rightarrow> u64 option"
  pci_alloc_p2pmem :: "addr \<Rightarrow> u64 \<Rightarrow> addr option"
  kmalloc :: "addr option"
  misc_register_ret :: int
  copy_from_user_ok :: bool
  copy_to_user_ok :: bool
  pci_name :: "addr \<Rightarrow> string"
  kvirt_to_phys :: "addr \<Rightarrow> addr"
  pfn_valid :: "u64 \<Rightarrow> bool"

fun errno_num :: "errno \<Rightarrow> int" where
  "errno_num EFAULT = 14"
| "errno_num ENOMEM = 12"
| "errno_num ENODEV = 19"
| "errno_num EINVAL = 22"
| "errno_num ENOBUFS = 105"
| "errno_num ENOTSUPP = 524"

lemma errno_pos [simp]: "0 < errno_num e"
  by (cases e) simp_all

lemma errno_nonzero [simp]: "errno_num e \<noteq> 0"
  using errno_pos [of e] by linarith

section \<open>Kernel services\<close>

definition pci_dev_put :: "addr \<Rightarrow> kstate \<Rightarrow> kstate" where
  "pci_dev_put pdev k = k\<lparr>pci_refs := (pci_refs k)(pdev := pci_refs k pdev - 1)\<rparr>"

text \<open>\<^verbatim>\<open>pci_get_domain_bus_and_slot\<close> takes a reference on the device it returns.\<close>

definition pci_get_domain_bus_and_slot ::
    "kenv \<Rightarrow> u32 \<Rightarrow> u32 \<Rightarrow> u32 \<Rightarrow> kstate \<Rightarrow> addr option \<times> kstate" where
  "pci_get_domain_bus_and_slot E domain bus devfn k =
     (case pci_slot E domain bus devfn of
        None \<Rightarrow> (None, k)
      | Some pdev \<Rightarrow> (Some pdev, k\<lparr>pci_refs := (pci_refs k)(pdev := pci_refs k pdev + 1)\<rparr>))"

text \<open>\<^verbatim>\<open>PCI_DEVFN(slot, func)\<close>\<close>

definition PCI_DEVFN :: "u32 \<Rightarrow> u32 \<Rightarrow> u32" where
  "PCI_DEVFN slot func = push_bit 3 (slot AND 0x1f) OR (func AND 0x07)"

definition deref :: "kstate \<Rightarrow> addr \<Rightarrow> pop_dev outcome" where
  "deref k p = (case heap k p of None \<Rightarrow> Inl UseAfterFree | Some d \<Rightarrow> Inr d)"

section \<open>The registry\<close>

fun find_dev_in :: "(addr \<rightharpoonup> pop_dev) \<Rightarrow> addr list \<Rightarrow> addr \<Rightarrow> addr option outcome" where
  "find_dev_in h [] pdev = Inr None"
| "find_dev_in h (p # ps) pdev =
     (case h p of
        None \<Rightarrow> Inl UseAfterFree
      | Some d \<Rightarrow> if pd_pdev d = pdev then Inr (Some p) else find_dev_in h ps pdev)"

definition pop_find_dev :: "kstate \<Rightarrow> addr \<Rightarrow> addr option outcome" where
  "pop_find_dev k pdev = find_dev_in (heap k) (dev_list k) pdev"

definition pop_find_dev_by_bus_and_slot ::
    "kenv \<Rightarrow> u32 \<Rightarrow> u32 \<Rightarrow> u32 \<Rightarrow> kstate \<Rightarrow> (addr option \<times> kstate) outcome" where
  "pop_find_dev_by_bus_and_slot E domain bus devfn k =
     (case pci_get_domain_bus_and_slot E domain bus devfn k of
        (None, k1) \<Rightarrow> Inr (None, k1)
      | (Some pdev, k1) \<Rightarrow>
          (case pop_find_dev k1 pdev of
             Inl f \<Rightarrow> Inl f
           | Inr r \<Rightarrow> Inr (r, pci_dev_put pdev k1)))"

text \<open>
  \<^verbatim>\<open>pop_register_p2pmem\<close> returns a C \<^verbatim>\<open>int\<close>: a negative error, or the size of the device
  cut to 32 bits.
\<close>

definition int_of_size :: "u64 \<Rightarrow> int" where
  "int_of_size sz = sint (ucast sz :: u32)"

definition pci_free_p2pmem :: "addr \<Rightarrow> addr \<Rightarrow> u64 \<Rightarrow> kstate \<Rightarrow> kstate" where
  "pci_free_p2pmem pdev m sz k = k\<lparr>p2p_allocs := p2p_allocs k - {#(pdev, m, sz)#}\<rparr>"

definition register_size :: "kenv \<Rightarrow> addr \<Rightarrow> u64 \<Rightarrow> u64" where
  "register_size E pdev sz =
     (let sz1 = (if sz = 0 then (case gen_pool_size E pdev of None \<Rightarrow> sz | Some n \<Rightarrow> n) else sz)
      in pages_to_bytes (page_round_up sz1))"

definition DEVNAMELEN :: nat where "DEVNAMELEN = 32"

definition pop_register_p2pmem :: "kenv \<Rightarrow> addr \<Rightarrow> u64 \<Rightarrow> kstate \<Rightarrow> (int \<times> kstate) outcome" where
  "pop_register_p2pmem E pdev size0 k =
     (case pop_find_dev k pdev of
        Inl f \<Rightarrow> Inl f
      | Inr (Some p) \<Rightarrow>
          (case deref k p of Inl f \<Rightarrow> Inl f | Inr d \<Rightarrow> Inr (int_of_size (pd_size d), k))
      | Inr None \<Rightarrow>
          (let sz = register_size E pdev size0 in
           case pci_alloc_p2pmem E pdev sz of
             None \<Rightarrow> Inr (- errno_num ENOMEM, k)
           | Some m \<Rightarrow>
               (let k1 = k\<lparr>p2p_allocs := p2p_allocs k + {#(pdev, m, sz)#}\<rparr> in
                case kmalloc E of
                  None \<Rightarrow> Inr (- errno_num ENOMEM, pci_free_p2pmem pdev m sz k1)
                | Some p \<Rightarrow>
                    (let d = \<lparr>pd_pdev = pdev,
                              pd_devname = snprintf DEVNAMELEN (''pop/'' @ pci_name E pdev),
                              pd_p2pmem = m, pd_size = sz, pd_refcnt = 0\<rparr>;
                         k2 = k1\<lparr>heap := (heap k1)(p \<mapsto> d)\<rparr>
                     in if misc_register_ret E \<noteq> 0
                        then Inr (- errno_num EINVAL, pci_free_p2pmem pdev m sz k2)
                        else Inr (int_of_size sz,
                               k2\<lparr>miscdevs := miscdevs k2 + {#pd_devname d#},
                                  dev_list := dev_list k2 @ [p]\<rparr>)))))"

definition pop_unregister_p2pmem :: "addr \<Rightarrow> kstate \<Rightarrow> kstate outcome" where
  "pop_unregister_p2pmem p k =
     (case deref k p of
        Inl f \<Rightarrow> Inl f
      | Inr d \<Rightarrow>
          (let k1 = k\<lparr>miscdevs := miscdevs k - {#pd_devname d#}\<rparr>;
               k2 = pci_free_p2pmem (pd_pdev d) (pd_p2pmem d) (pd_size d) k1;
               k3 = pci_dev_put (pd_pdev d) k2;
               k4 = k3\<lparr>dev_list := remove1 p (dev_list k3)\<rparr>
           in Inr (k4\<lparr>heap := (heap k4)(p := None)\<rparr>)))"

section \<open>/dev/boogiepop\<close>

definition pop_open :: "int" where "pop_open = 0"

definition pop_release :: "int" where "pop_release = 0"

text \<open>
  The handler returns its result, the caller's \<^verbatim>\<open>struct pop_p2pmem_reg\<close> as it is afterwards,
  and the new state.
\<close>

fun pop_ioctl :: "kenv \<Rightarrow> ioctl_cmd \<Rightarrow> pop_p2pmem_reg \<Rightarrow> kstate
    \<Rightarrow> (int \<times> pop_p2pmem_reg \<times> kstate) outcome" where
  "pop_ioctl E POP_P2PMEM_REG reg k =
     (if \<not> copy_from_user_ok E then Inr (- errno_num EFAULT, reg, k)
      else (case pci_get_domain_bus_and_slot E (reg_domain reg) (reg_bus reg)
                  (PCI_DEVFN (reg_slot reg) (reg_func reg)) k of
        (None, k1) \<Rightarrow> Inr (- errno_num ENODEV, reg, k1)
      | (Some pdev, k1) \<Rightarrow>
          if \<not> pci_has_p2pmem E pdev then Inr (- errno_num EINVAL, reg, pci_dev_put pdev k1)
          else (case pop_register_p2pmem E pdev (reg_size reg) k1 of
            Inl f \<Rightarrow> Inl f
          | Inr (sz, k2) \<Rightarrow>
              if sz < 0 then Inr (0, reg, pci_dev_put pdev k2)
              else if \<not> copy_to_user_ok E then Inr (- errno_num EFAULT, reg, pci_dev_put pdev k2)
              else Inr (0, reg\<lparr>reg_size := word_of_int sz\<rparr>, k2))))"
| "pop_ioctl E POP_P2PMEM_UNREG reg k =
     (if \<not> copy_from_user_ok E then Inr (- errno_num EFAULT, reg, k)
      else (case pci_get_domain_bus_and_slot E (reg_domain reg) (reg_bus reg)
                  (PCI_DEVFN (reg_slot reg) (reg_func reg)) k of
        (None, k1) \<Rightarrow> Inr (- errno_num ENODEV, reg, k1)
      | (Some pdev, k1) \<Rightarrow>
          (case pop_find_dev k1 pdev of
             Inl f \<Rightarrow> Inl f
           | Inr None \<Rightarrow> Inr (- errno_num ENODEV, reg, pci_dev_put pdev k1)
           | Inr (Some p) \<Rightarrow>
               (case pop_unregister_p2pmem p k1 of
                  Inl f \<Rightarrow> Inl f
                | Inr k2 \<Rightarrow> Inr (0, reg, k2)))))"
| "pop_ioctl E (OtherCmd c) reg k = Inr (- errno_num EINVAL, reg, k)"

definition pop_init :: "kenv \<Rightarrow> kstate \<Rightarrow> int \<times> kstate" where
  "pop_init E k =
     (let k1 = k\<lparr>dev_list := []\<rparr> in
      if misc_register_ret E \<noteq> 0 then (misc_register_ret E, k1)
      else (0, k1\<lparr>miscdevs := miscdevs k1 + {#''boogiepop''#}\<rparr>))"

fun unregister_all :: "addr list \<Rightarrow> kstate \<Rightarrow> kstate outcome" where
  "unregister_all [] k = Inr k"
| "unregister_all (p # ps) k =
     (case pop_unregister_p2pmem p k of Inl f \<Rightarrow> Inl f | Inr k' \<Rightarrow> unregister_all ps k')"

definition pop_exit :: "kstate \<Rightarrow> kstate outcome" where
  "pop_exit k =
     (case unregister_all (dev_list k) k of
        Inl f \<Rightarrow> Inl f
      | Inr k1 \<Rightarrow> Inr (k1\<lparr>miscdevs := miscdevs k1 - {#''boogiepop''#}\<rparr>))"

section \<open>/dev/pop/DEVICE\<close>

definition SEEK_END :: int where "SEEK_END = 2"

definition pop_dev_llseek :: "kstate \<Rightarrow> nat \<Rightarrow> u64 \<Rightarrow> int \<Rightarrow> int outcome" where
  "pop_dev_llseek k filp off whence =
     (case private_data k filp of
        None \<Rightarrow> Inr (- errno_num EINVAL)
      | Some p \<Rightarrow>
          if whence = SEEK_END
          then (case deref k p of Inl f \<Rightarrow> Inl f | Inr d \<Rightarrow> Inr (sint (off + pd_size d)))
          else Inr (- errno_num ENOTSUPP))"

definition pop_dev_open :: "kenv \<Rightarrow> nat \<Rightarrow> string \<Rightarrow> kstate \<Rightarrow> (int \<times> kstate) outcome" where
  "pop_dev_open E filp name k =
     (case scan_dbsf False name of
        [domain, bus, slot, func] \<Rightarrow>
          (case pop_find_dev_by_bus_and_slot E (ucast domain) (ucast bus)
                  (PCI_DEVFN (ucast slot) (ucast func)) k of
             Inl f \<Rightarrow> Inl f
           | Inr (None, k1) \<Rightarrow> Inr (- errno_num EINVAL, k1)
           | Inr (Some p, k1) \<Rightarrow>
               (case deref k1 p of
                  Inl f \<Rightarrow> Inl f
                | Inr d \<Rightarrow>
                    Inr (0, k1\<lparr>heap := (heap k1)(p \<mapsto> d\<lparr>pd_refcnt := pd_refcnt d + 1\<rparr>),
                               private_data := (private_data k1)(filp \<mapsto> p)\<rparr>)))
      | _ \<Rightarrow> Inr (- errno_num EINVAL, k))"

definition pop_dev_release :: "nat \<Rightarrow> kstate \<Rightarrow> (int \<times> kstate) outcome" where
  "pop_dev_release filp k =
     (case private_data k filp of
        None \<Rightarrow> Inl NullDeref
      | Some p \<Rightarrow>
          (case deref k p of
             Inl f \<Rightarrow> Inl f
           | Inr d \<Rightarrow>
               Inr (0, k\<lparr>heap := (heap k)(p \<mapsto> d\<lparr>pd_refcnt := pd_refcnt d - 1\<rparr>),
                         private_data := (private_data k)(filp := None)\<rparr>)))"

text \<open>
  The fault handler: the result code and, on success, the frame number of the page it installs.
  \<open>vm_file\<close> is \<^verbatim>\<open>vma->vm_file\<close>.
\<close>

definition VM_FAULT_SIGBUS :: int where "VM_FAULT_SIGBUS = 2"

definition pop_dev_mem_fault ::
    "kenv \<Rightarrow> kstate \<Rightarrow> nat option \<Rightarrow> u64 \<Rightarrow> (int \<times> u64 option) outcome" where
  "pop_dev_mem_fault E k vm_file pgoff =
     (case vm_file of
        None \<Rightarrow> Inr (- errno_num EINVAL, None)
      | Some filp \<Rightarrow>
          (case private_data k filp of
             None \<Rightarrow> Inr (- errno_num EINVAL, None)
           | Some p \<Rightarrow>
               (case deref k p of
                  Inl f \<Rightarrow> Inl f
                | Inr d \<Rightarrow>
                    (let pa = kvirt_to_phys E (pd_p2pmem d + pages_to_bytes pgoff);
                         pfn = bytes_to_pages pa
                     in if pa = 0 then Inr (VM_FAULT_SIGBUS, None)
                        else if \<not> pfn_valid E pfn then Inr (VM_FAULT_SIGBUS, None)
                        else Inr (0, Some pfn)))))"

record vm_area =
  vm_start :: addr
  vm_end :: addr
  vm_pgoff :: u64

definition pop_dev_mmap :: "kstate \<Rightarrow> nat \<Rightarrow> vm_area \<Rightarrow> int outcome" where
  "pop_dev_mmap k filp vma =
     (let off = pages_to_bytes (vm_pgoff vma);
          len = vm_end vma - vm_start vma
      in case private_data k filp of
           None \<Rightarrow> Inr (- errno_num EINVAL)
         | Some p \<Rightarrow>
             (case deref k p of
                Inl f \<Rightarrow> Inl f
              | Inr d \<Rightarrow> if off + len > pd_size d then Inr (- errno_num ENOMEM) else Inr 0))"

section \<open>The invariant of the registry\<close>

abbreviation dev_of :: "kstate \<Rightarrow> addr \<Rightarrow> pop_dev" where
  "dev_of k p \<equiv> the (heap k p)"

definition dev_alloc :: "pop_dev \<Rightarrow> addr \<times> addr \<times> u64" where
  "dev_alloc d = (pd_pdev d, pd_p2pmem d, pd_size d)"

text \<open>
  Every listed device is allocated and listed once, no two of them stand for the same PCI device,
  the p2pmem chunks that are taken are exactly those of the listed devices, the registered misc
  devices are the control device and one per listed device, and every size is a number of pages.
\<close>

definition kinv :: "kstate \<Rightarrow> bool" where
  "kinv k \<longleftrightarrow>
     distinct (dev_list k) \<and> set (dev_list k) \<subseteq> dom (heap k) \<and>
     inj_on (\<lambda>p. pd_pdev (dev_of k p)) (set (dev_list k)) \<and>
     p2p_allocs k = image_mset (\<lambda>p. dev_alloc (dev_of k p)) (mset (dev_list k)) \<and>
     miscdevs k = {#''boogiepop''#} + image_mset (\<lambda>p. pd_devname (dev_of k p)) (mset (dev_list k)) \<and>
     (\<forall>p \<in> set (dev_list k). 4096 dvd unat (pd_size (dev_of k p)))"

text \<open>\<^verbatim>\<open>kmalloc\<close> returns an object that is not in use.\<close>

definition kmalloc_fresh :: "kenv \<Rightarrow> kstate \<Rightarrow> bool" where
  "kmalloc_fresh E k \<longleftrightarrow> (\<forall>p. kmalloc E = Some p \<longrightarrow> heap k p = None)"

definition registered :: "kstate \<Rightarrow> addr \<Rightarrow> pop_dev option" where
  "registered k pdev =
     map_option (dev_of k) (find (\<lambda>p. pd_pdev (dev_of k p) = pdev) (dev_list k))"

lemma find_dev_in_find:
  "set ps \<subseteq> dom h \<Longrightarrow> find_dev_in h ps pdev = Inr (find (\<lambda>p. pd_pdev (the (h p)) = pdev) ps)"
  by (induction ps) auto

lemma pop_find_dev_find:
  "kinv k \<Longrightarrow> pop_find_dev k pdev = Inr (find (\<lambda>p. pd_pdev (dev_of k p) = pdev) (dev_list k))"
  by (simp add: pop_find_dev_def kinv_def find_dev_in_find)

lemma pop_find_dev_frame:
  "heap k' = heap k \<Longrightarrow> dev_list k' = dev_list k \<Longrightarrow> pop_find_dev k' pdev = pop_find_dev k pdev"
  by (simp add: pop_find_dev_def)

lemma kinv_frame:
  "kinv k \<Longrightarrow> heap k' = heap k \<Longrightarrow> dev_list k' = dev_list k \<Longrightarrow> p2p_allocs k' = p2p_allocs k \<Longrightarrow>
   miscdevs k' = miscdevs k \<Longrightarrow> kinv k'"
  by (simp add: kinv_def)

lemma kinv_pci_refs [simp]: "kinv (k\<lparr>pci_refs := r\<rparr>) = kinv k"
  by (simp add: kinv_def)

lemma kinv_pci_dev_put [simp]: "kinv (pci_dev_put pdev k) = kinv k"
  by (simp add: pci_dev_put_def)

lemma find_SomeD: "find P xs = Some x \<Longrightarrow> x \<in> set xs \<and> P x"
  by (auto simp: find_Some_iff)

lemma kinv_listed: "kinv k \<Longrightarrow> p \<in> set (dev_list k) \<Longrightarrow> heap k p = Some (dev_of k p)"
  by (auto simp: kinv_def)

lemma deref_listed: "kinv k \<Longrightarrow> p \<in> set (dev_list k) \<Longrightarrow> deref k p = Inr (dev_of k p)"
  by (auto simp: deref_def kinv_def split: option.splits)

lemma register_size_pages: "4096 dvd unat (register_size E pdev sz)"
proof -
  have "(4096::nat) dvd unat (pages_to_bytes n)" for n
  proof -
    have "(4096::nat) dvd 2 ^ 64" by simp
    then show ?thesis by (simp add: unat_pages_to_bytes dvd_mod)
  qed
  then show ?thesis by (simp add: register_size_def Let_def)
qed

lemma image_mset_remove1:
  assumes "p \<in> set xs" "distinct xs" "\<And>q. q \<noteq> p \<Longrightarrow> f q = g q"
  shows "image_mset f (mset (remove1 p xs)) = image_mset g (mset xs) - {#g p#}"
proof -
  have "q \<noteq> p" if "q \<in> set (remove1 p xs)" for q
    using that assms(2) by auto
  then have "image_mset f (mset (remove1 p xs)) = image_mset g (mset (remove1 p xs))"
    using assms(3) by (intro image_mset_cong) (simp del: mset_remove1)
  then show ?thesis
    using assms(1) by (simp add: image_mset_Diff)
qed

lemma image_mset_heap_upd:
  "p \<notin> set xs \<Longrightarrow> image_mset (\<lambda>q. f (the (if q = p then v else h q))) (mset xs)
     = image_mset (\<lambda>q. f (the (h q))) (mset xs)"
  by (intro image_mset_cong) auto

lemma pop_unregister_listed:
  assumes "kinv k" "p \<in> set (dev_list k)"
  obtains k' where "pop_unregister_p2pmem p k = Inr k'" "kinv k'"
    "dev_list k' = remove1 p (dev_list k)" "heap k' = (heap k)(p := None)"
    "private_data k' = private_data k"
    "pci_refs k' = (pci_refs k)(pd_pdev (dev_of k p) := pci_refs k (pd_pdev (dev_of k p)) - 1)"
proof -
  let ?d = "dev_of k p"
  let ?k' = "k\<lparr>miscdevs := miscdevs k - {#pd_devname ?d#},
      p2p_allocs := p2p_allocs k - {#dev_alloc ?d#},
      pci_refs := (pci_refs k)(pd_pdev ?d := pci_refs k (pd_pdev ?d) - 1),
      dev_list := remove1 p (dev_list k), heap := (heap k)(p := None)\<rparr>"
  note inv = assms(1) [unfolded kinv_def]
  have run: "pop_unregister_p2pmem p k = Inr ?k'"
    by (simp add: pop_unregister_p2pmem_def deref_listed [OF assms] Let_def pci_free_p2pmem_def
        pci_dev_put_def dev_alloc_def)
  have set': "set (remove1 p (dev_list k)) = set (dev_list k) - {p}"
    using inv by simp
  have "inj_on (\<lambda>q. pd_pdev (the (((heap k)(p := None)) q))) (set (dev_list k) - {p})"
    using inv by (auto simp: inj_on_def)
  moreover have "p2p_allocs ?k' =
      image_mset (\<lambda>q. dev_alloc (the (((heap k)(p := None)) q))) (mset (remove1 p (dev_list k)))"
    using inv assms(2) by (subst image_mset_remove1 [where g = "\<lambda>q. dev_alloc (dev_of k q)"]) auto
  moreover have "image_mset (\<lambda>q. pd_devname (the (((heap k)(p := None)) q))) (mset (remove1 p (dev_list k)))
      = image_mset (\<lambda>q. pd_devname (dev_of k q)) (mset (dev_list k)) - {#pd_devname ?d#}"
    using inv assms(2) by (intro image_mset_remove1) auto
  moreover have "pd_devname ?d \<in># image_mset (\<lambda>q. pd_devname (dev_of k q)) (mset (dev_list k))"
    using assms(2) by auto
  ultimately have "kinv ?k'"
    using inv by (auto simp: kinv_def set')
  with run show thesis
    by (intro that [of ?k']) auto
qed

text \<open>Registering a device: the cases of \<^verbatim>\<open>pop_register_p2pmem\<close> when the device is not listed yet.\<close>

definition register_fails :: "kenv \<Rightarrow> addr \<Rightarrow> u64 \<Rightarrow> bool" where
  "register_fails E pdev sz \<longleftrightarrow>
     pci_alloc_p2pmem E pdev (register_size E pdev sz) = None \<or> kmalloc E = None
     \<or> misc_register_ret E \<noteq> 0"

definition new_dev :: "kenv \<Rightarrow> addr \<Rightarrow> u64 \<Rightarrow> pop_dev" where
  "new_dev E pdev sz = \<lparr>pd_pdev = pdev,
     pd_devname = snprintf DEVNAMELEN (''pop/'' @ pci_name E pdev),
     pd_p2pmem = the (pci_alloc_p2pmem E pdev (register_size E pdev sz)),
     pd_size = register_size E pdev sz, pd_refcnt = 0\<rparr>"

lemma register_failure:
  assumes "kinv k" "kmalloc_fresh E k" "registered k pdev = None" "register_fails E pdev sz"
  obtains e k' where "pop_register_p2pmem E pdev sz k = Inr (- errno_num e, k')" "kinv k'"
    "dev_list k' = dev_list k" "\<And>p. p \<in> set (dev_list k) \<Longrightarrow> heap k' p = heap k p"
    "private_data k' = private_data k" "pci_refs k' = pci_refs k"
proof -
  have nf: "pop_find_dev k pdev = Inr None"
    using assms(1,3) by (simp add: pop_find_dev_find registered_def)
  show thesis
  proof (cases "pci_alloc_p2pmem E pdev (register_size E pdev sz)")
    case None
    with nf show thesis
      by (intro that [of ENOMEM k]) (auto simp: pop_register_p2pmem_def assms(1))
  next
    case (Some m)
    show thesis
    proof (cases "kmalloc E")
      case None
      with nf Some show thesis
        by (intro that [of ENOMEM k])
          (auto simp: pop_register_p2pmem_def pci_free_p2pmem_def Let_def assms(1))
    next
      case (Some p)
      then have fresh: "heap k p = None" using assms(2) by (simp add: kmalloc_fresh_def)
      then have "p \<notin> set (dev_list k)" using assms(1) by (auto simp: kinv_def)
      have "kinv (k\<lparr>heap := (heap k)(p \<mapsto> d)\<rparr>)" for d
        using assms(1) \<open>p \<notin> set (dev_list k)\<close>
        by (auto simp: kinv_def inj_on_def intro!: image_mset_cong)
      with nf Some \<open>pci_alloc_p2pmem E pdev _ = Some m\<close> assms(4) \<open>p \<notin> set (dev_list k)\<close> show thesis
        by (intro that [of EINVAL "k\<lparr>heap := (heap k)(p \<mapsto> new_dev E pdev sz)\<rparr>"])
          (auto simp: pop_register_p2pmem_def pci_free_p2pmem_def Let_def register_fails_def new_dev_def)
    qed
  qed
qed

lemma register_success:
  assumes "kinv k" "kmalloc_fresh E k" "registered k pdev = None" "\<not> register_fails E pdev sz"
  obtains p k' where "pop_register_p2pmem E pdev sz k = Inr (int_of_size (register_size E pdev sz), k')"
    "kinv k'" "dev_list k' = dev_list k @ [p]" "heap k' = (heap k)(p \<mapsto> new_dev E pdev sz)"
    "heap k p = None" "private_data k' = private_data k" "pci_refs k' = pci_refs k"
proof -
  obtain m p where m: "pci_alloc_p2pmem E pdev (register_size E pdev sz) = Some m"
    and p: "kmalloc E = Some p" and r: "misc_register_ret E = 0"
    using assms(4) by (auto simp: register_fails_def)
  let ?d = "new_dev E pdev sz"
  let ?k' = "k\<lparr>p2p_allocs := p2p_allocs k + {#dev_alloc ?d#}, heap := (heap k)(p \<mapsto> ?d),
      miscdevs := miscdevs k + {#pd_devname ?d#}, dev_list := dev_list k @ [p]\<rparr>"
  note inv = assms(1) [unfolded kinv_def]
  have fresh: "heap k p = None" using assms(2) p by (simp add: kmalloc_fresh_def)
  then have notin: "p \<notin> set (dev_list k)" using inv by auto
  have notpd: "pdev \<notin> (\<lambda>p. pd_pdev (dev_of k p)) ` set (dev_list k)"
    using assms(3) by (auto simp: registered_def find_None_iff)
  have nf: "pop_find_dev k pdev = Inr None"
    using assms(1,3) by (simp add: pop_find_dev_find registered_def)
  have "pop_register_p2pmem E pdev sz k = Inr (int_of_size (register_size E pdev sz), ?k')"
    using nf m p r by (simp add: pop_register_p2pmem_def Let_def new_dev_def dev_alloc_def)
  moreover have "kinv ?k'"
  proof -
    have "inj_on (\<lambda>q. pd_pdev (dev_of ?k' q)) (insert p (set (dev_list k)))"
      using inv notpd notin by (auto simp: inj_on_def new_dev_def)
    moreover have "4096 dvd unat (pd_size ?d)"
      by (simp add: new_dev_def register_size_pages)
    ultimately show ?thesis
      using inv notin by (auto simp: kinv_def image_mset_heap_upd)
  qed
  ultimately show thesis
    using fresh by (intro that [of ?k' p]) auto
qed

lemma registered_pci_refs [simp]: "registered (k\<lparr>pci_refs := r\<rparr>) = registered k"
  by (simp add: registered_def fun_eq_iff)

lemma kmalloc_fresh_pci_refs [simp]: "kmalloc_fresh E (k\<lparr>pci_refs := r\<rparr>) = kmalloc_fresh E k"
  by (simp add: kmalloc_fresh_def)

text \<open>
  What a call keeps of the devices that were listed before it: they stay listed and their
  structures are not touched, and a device that is new has no open file.
\<close>

definition grows :: "kstate \<Rightarrow> kstate \<Rightarrow> bool" where
  "grows k k' \<longleftrightarrow> set (dev_list k) \<subseteq> set (dev_list k') \<and>
     (\<forall>p \<in> set (dev_list k). heap k' p = heap k p) \<and>
     (\<forall>p \<in> set (dev_list k') - set (dev_list k). heap k p = None \<and> pd_refcnt (dev_of k' p) = 0) \<and>
     private_data k' = private_data k"

lemma grows_refl [simp]: "grows k k"
  by (simp add: grows_def)

lemma grows_pci_refs [simp]:
  "grows (k\<lparr>pci_refs := r\<rparr>) k' = grows k k'" "grows k (k'\<lparr>pci_refs := r\<rparr>) = grows k k'"
  by (simp_all add: grows_def)

lemma grows_pci_dev_put [simp]: "grows k (pci_dev_put pdev k') = grows k k'"
  by (simp add: pci_dev_put_def)

lemma register_already:
  assumes "kinv k" "registered k pdev = Some d"
  shows "pop_register_p2pmem E pdev sz k = Inr (int_of_size (pd_size d), k)"
proof -
  obtain p where p: "find (\<lambda>p. pd_pdev (dev_of k p) = pdev) (dev_list k) = Some p"
    and d: "d = dev_of k p"
    using assms(2) by (auto simp: registered_def)
  have "p \<in> set (dev_list k)"
    using find_SomeD [OF p] by simp
  then show ?thesis
    by (simp add: pop_register_p2pmem_def pop_find_dev_find [OF assms(1)] p d deref_listed [OF assms(1)])
qed

lemma register_total:
  assumes "kinv k" "kmalloc_fresh E k"
  obtains r k' where "pop_register_p2pmem E pdev sz k = Inr (r, k')" "kinv k'" "grows k k'"
proof (cases "registered k pdev")
  case (Some d)
  then show thesis
    using that register_already [OF assms(1)] assms(1) by force
next
  case None
  show thesis
  proof (cases "register_fails E pdev sz")
    case True
    from register_failure [OF assms None True] obtain e k' where
      "pop_register_p2pmem E pdev sz k = Inr (- errno_num e, k')" "kinv k'" "dev_list k' = dev_list k"
      "\<And>p. p \<in> set (dev_list k) \<Longrightarrow> heap k' p = heap k p" "private_data k' = private_data k"
      by metis
    then show thesis by (intro that) (auto simp: grows_def)
  next
    case False
    from register_success [OF assms None False] obtain p k' where
      "pop_register_p2pmem E pdev sz k = Inr (int_of_size (register_size E pdev sz), k')"
      "kinv k'" "dev_list k' = dev_list k @ [p]" "heap k' = (heap k)(p \<mapsto> new_dev E pdev sz)"
      "heap k p = None" "private_data k' = private_data k"
      by metis
    moreover have "p \<notin> set (dev_list k)"
      using assms(1) \<open>heap k p = None\<close> by (auto simp: kinv_def)
    ultimately show thesis by (intro that) (auto simp: grows_def new_dev_def)
  qed
qed

lemma pci_get_cases:
  obtains "pci_slot E domain bus devfn = None"
      "pci_get_domain_bus_and_slot E domain bus devfn k = (None, k)"
  | pdev where "pci_slot E domain bus devfn = Some pdev"
      "pci_get_domain_bus_and_slot E domain bus devfn k =
         (Some pdev, k\<lparr>pci_refs := (pci_refs k)(pdev := pci_refs k pdev + 1)\<rparr>)"
  by (cases "pci_slot E domain bus devfn") (auto simp: pci_get_domain_bus_and_slot_def)

text \<open>A call of \<^verbatim>\<open>pop_ioctl\<close> either grows the registry or removes the device it names.\<close>

definition removes :: "kstate \<Rightarrow> addr \<Rightarrow> kstate \<Rightarrow> bool" where
  "removes k p k' \<longleftrightarrow> p \<in> set (dev_list k) \<and> dev_list k' = remove1 p (dev_list k) \<and>
     heap k' = (heap k)(p := None) \<and> private_data k' = private_data k"

lemma removes_pci_refs [simp]: "removes (k\<lparr>pci_refs := r\<rparr>) p k' = removes k p k'"
  by (simp add: removes_def)

lemma unregister_removes:
  assumes "kinv k" "p \<in> set (dev_list k)"
  obtains k' where "pop_unregister_p2pmem p k = Inr k'" "kinv k'" "removes k p k'"
proof (rule pop_unregister_listed [OF assms])
  fix k'
  assume "pop_unregister_p2pmem p k = Inr k'" "kinv k'" "dev_list k' = remove1 p (dev_list k)"
    "heap k' = (heap k)(p := None)" "private_data k' = private_data k"
  then show thesis by (intro that [of k']) (simp_all add: removes_def assms(2))
qed

definition ioctl_ok :: "ioctl_cmd \<Rightarrow> kstate \<Rightarrow> (int \<times> pop_p2pmem_reg \<times> kstate) outcome \<Rightarrow> bool" where
  "ioctl_ok cmd k res \<longleftrightarrow> (case res of Inl f \<Rightarrow> False
     | Inr (r, reg', k') \<Rightarrow> kinv k' \<and>
         (grows k k' \<or> cmd = POP_P2PMEM_UNREG \<and> (\<exists>p. removes k p k')))"

lemma ioctl_reg_ok:
  assumes "kinv k" "kmalloc_fresh E k"
  shows "ioctl_ok POP_P2PMEM_REG k (pop_ioctl E POP_P2PMEM_REG reg k)"
proof (cases rule: pci_get_cases [of E "reg_domain reg" "reg_bus reg"
      "PCI_DEVFN (reg_slot reg) (reg_func reg)" k])
  case 1
  then show ?thesis using assms by (simp add: ioctl_ok_def)
next
  case (2 pdev)
  let ?k1 = "k\<lparr>pci_refs := (pci_refs k)(pdev := pci_refs k pdev + 1)\<rparr>"
  obtain r k' where "pop_register_p2pmem E pdev (reg_size reg) ?k1 = Inr (r, k')" "kinv k'" "grows ?k1 k'"
    by (rule register_total [of ?k1 E pdev "reg_size reg"]) (simp_all add: assms)
  then show ?thesis using assms 2(2) by (simp add: ioctl_ok_def)
qed

lemma ioctl_unreg_ok:
  assumes "kinv k"
  shows "ioctl_ok POP_P2PMEM_UNREG k (pop_ioctl E POP_P2PMEM_UNREG reg k)"
proof (cases rule: pci_get_cases [of E "reg_domain reg" "reg_bus reg"
      "PCI_DEVFN (reg_slot reg) (reg_func reg)" k])
  case 1
  then show ?thesis using assms by (simp add: ioctl_ok_def)
next
  case (2 pdev)
  let ?k1 = "k\<lparr>pci_refs := (pci_refs k)(pdev := pci_refs k pdev + 1)\<rparr>"
  have inv: "kinv ?k1" using assms by simp
  show ?thesis
  proof (cases "find (\<lambda>p. pd_pdev (dev_of ?k1 p) = pdev) (dev_list ?k1)")
    case None
    then show ?thesis using assms 2(2) pop_find_dev_find [OF inv, of pdev]
      by (simp add: ioctl_ok_def)
  next
    case (Some p)
    then obtain k' where "pop_unregister_p2pmem p ?k1 = Inr k'" "kinv k'" "removes ?k1 p k'"
      using find_SomeD [OF Some] by (rule_tac unregister_removes [OF inv, of p]) auto
    then show ?thesis using assms 2(2) Some pop_find_dev_find [OF inv, of pdev]
      by (auto simp: ioctl_ok_def)
  qed
qed

lemma ioctl_total:
  assumes "kinv k" "kmalloc_fresh E k"
  shows "ioctl_ok cmd k (pop_ioctl E cmd reg k)"
  using ioctl_reg_ok [OF assms] ioctl_unreg_ok [OF assms(1)] assms(1)
  by (cases cmd) (auto simp: ioctl_ok_def simp del: pop_ioctl.simps(1,2))

section \<open>Open files\<close>

text \<open>
  \<^verbatim>\<open>private_data\<close> of every open file points to a listed device, and \<^verbatim>\<open>refcnt\<close> of a device
  is the number of files open on it.
\<close>

definition openers :: "kstate \<Rightarrow> addr \<Rightarrow> nat set" where
  "openers k p = {f. private_data k f = Some p}"

definition file_inv :: "kstate \<Rightarrow> bool" where
  "file_inv k \<longleftrightarrow> finite (dom (private_data k)) \<and> ran (private_data k) \<subseteq> set (dev_list k) \<and>
     (\<forall>p \<in> set (dev_list k). pd_refcnt (dev_of k p) = int (card (openers k p)))"

lemma finite_openers: "finite (dom (private_data k)) \<Longrightarrow> finite (openers k p)"
  by (rule finite_subset [of _ "dom (private_data k)"]) (auto simp: openers_def)

lemma openers_cong: "private_data k' = private_data k \<Longrightarrow> openers k' = openers k"
  by (simp add: openers_def fun_eq_iff)

lemma file_inv_pci_refs [simp]: "file_inv (k\<lparr>pci_refs := r\<rparr>) = file_inv k"
  by (simp add: file_inv_def openers_def)

lemma file_inv_grows:
  assumes "kinv k" "file_inv k" "grows k k'"
  shows "file_inv k'"
proof -
  have "openers k p = {}" if "p \<notin> set (dev_list k)" for p
    using assms(2) that by (auto simp: file_inv_def openers_def ran_def)
  then have "pd_refcnt (dev_of k' p) = int (card (openers k p))" if "p \<in> set (dev_list k')" for p
    using assms that by (cases "p \<in> set (dev_list k)") (simp_all add: file_inv_def grows_def)
  with assms openers_cong [of k' k] show ?thesis
    unfolding file_inv_def grows_def by auto
qed

lemma file_inv_removes:
  assumes "kinv k" "file_inv k" "removes k p k'" "openers k p = {}"
  shows "file_inv k'"
proof -
  have set': "set (dev_list k') = set (dev_list k) - {p}"
    using assms(1,3) by (simp add: removes_def kinv_def)
  moreover have pd: "private_data k' = private_data k"
    using assms(3) by (simp add: removes_def)
  moreover have "ran (private_data k) \<subseteq> set (dev_list k) - {p}"
    using assms(2,4) by (auto simp: file_inv_def openers_def ran_def)
  moreover have "dev_of k' q = dev_of k q" if "q \<noteq> p" for q
    using assms(3) that by (simp add: removes_def)
  ultimately show ?thesis
    using assms(2) openers_cong [OF pd] by (simp add: file_inv_def)
qed

lemma kinv_refcnt:
  assumes "heap k p = Some d"
  shows "kinv (k\<lparr>heap := (heap k)(p \<mapsto> d\<lparr>pd_refcnt := n\<rparr>), private_data := f\<rparr>) = kinv k"
proof -
  have "g (the (if q = p then Some (d\<lparr>pd_refcnt := n\<rparr>) else heap k q)) = g (dev_of k q)"
    if "\<And>d n. g (d\<lparr>pd_refcnt := n\<rparr>) = g d" for g :: "pop_dev \<Rightarrow> 'z" and q
    using that assms by simp
  note eq = this [of pd_pdev] this [of pd_p2pmem] this [of pd_devname] this [of pd_size]
  show ?thesis
    using assms by (auto simp: kinv_def eq dev_alloc_def)
qed

text \<open>The device that a name of the form \<^verbatim>\<open>DOMAIN:BUS:SLOT.FUNC\<close> stands for.\<close>

definition named_pdev :: "kenv \<Rightarrow> string \<Rightarrow> addr option" where
  "named_pdev E name =
     (case scan_dbsf False name of
        [domain, bus, slot, func] \<Rightarrow>
          pci_slot E (ucast domain) (ucast bus) (PCI_DEVFN (ucast slot) (ucast func))
      | _ \<Rightarrow> None)"

lemma pci_get_put:
  "pci_dev_put pdev (k\<lparr>pci_refs := (pci_refs k)(pdev := pci_refs k pdev + 1)\<rparr>) = k"
  by (simp add: pci_dev_put_def)

lemma find_by_slot:
  assumes "kinv k"
  shows "pop_find_dev_by_bus_and_slot E domain bus devfn k =
     Inr (case pci_slot E domain bus devfn of None \<Rightarrow> None
          | Some pdev \<Rightarrow> find (\<lambda>p. pd_pdev (dev_of k p) = pdev) (dev_list k), k)"
proof (cases "pci_slot E domain bus devfn")
  case None
  then show ?thesis
    by (simp add: pop_find_dev_by_bus_and_slot_def pci_get_domain_bus_and_slot_def)
next
  case (Some pdev)
  have "pop_find_dev (k\<lparr>pci_refs := r\<rparr>) pdev =
      Inr (find (\<lambda>p. pd_pdev (dev_of k p) = pdev) (dev_list k))" for r
    using pop_find_dev_find [of "k\<lparr>pci_refs := r\<rparr>"] assms by simp
  with Some show ?thesis
    by (simp add: pop_find_dev_by_bus_and_slot_def pci_get_domain_bus_and_slot_def pci_get_put)
qed

text \<open>
  Opening a device file: it fails with \<^verbatim>\<open>EINVAL\<close> and changes nothing, or the device is
  registered, its count goes up and the file points to it.
\<close>

lemma open_cases:
  assumes "kinv k"
  obtains "pop_dev_open E filp name k = Inr (- errno_num EINVAL, k)"
      "named_pdev E name = None \<or> registered k (the (named_pdev E name)) = None"
  | p pdev where "named_pdev E name = Some pdev" "p \<in> set (dev_list k)" "pd_pdev (dev_of k p) = pdev"
      "registered k pdev = Some (dev_of k p)"
      "pop_dev_open E filp name k = Inr (0, k\<lparr>
         heap := (heap k)(p \<mapsto> (dev_of k p)\<lparr>pd_refcnt := pd_refcnt (dev_of k p) + 1\<rparr>),
         private_data := (private_data k)(filp \<mapsto> p)\<rparr>)"
proof (cases "\<exists>a b c e. scan_dbsf False name = [a, b, c, e]")
  case False
  then show thesis
    by (intro that(1)) (auto simp: pop_dev_open_def named_pdev_def split: list.splits)
next
  case True
  then obtain a b c e where scan: "scan_dbsf False name = [a, b, c, e]" by blast
  have slot: "pci_slot E (ucast a) (ucast b) (PCI_DEVFN (ucast c) (ucast e)) = named_pdev E name"
    by (simp add: named_pdev_def scan)
  note unf = pop_dev_open_def scan find_by_slot [OF assms] slot registered_def
  show thesis
  proof (cases "named_pdev E name")
    case None
    then show thesis by (intro that(1)) (simp_all add: unf)
  next
    case (Some pdev)
    note nm = Some
    show thesis
    proof (cases "find (\<lambda>p. pd_pdev (dev_of k p) = pdev) (dev_list k)")
      case None
      with nm show thesis by (intro that(1)) (simp_all add: unf)
    next
      case (Some p)
      then have p: "p \<in> set (dev_list k)" "pd_pdev (dev_of k p) = pdev"
        using find_SomeD [OF Some] by simp_all
      with Some nm show thesis
        by (intro that(2) [of pdev p]) (simp_all add: unf deref_listed [OF assms])
    qed
  qed
qed

lemma open_keeps:
  assumes "kinv k" "file_inv k" "private_data k filp = None"
    and "pop_dev_open E filp name k = Inr (r, k')"
  shows "kinv k' \<and> file_inv k'"
proof (cases rule: open_cases [OF assms(1), of E filp name])
  case 1
  then show ?thesis using assms by simp
next
  case (2 p pdev)
  have heap: "heap k p = Some (dev_of k p)"
    using kinv_listed [OF assms(1) 2(2)] .
  have k': "k' = k\<lparr>heap := (heap k)(p \<mapsto> (dev_of k p)\<lparr>pd_refcnt := pd_refcnt (dev_of k p) + 1\<rparr>),
       private_data := (private_data k)(filp \<mapsto> p)\<rparr>"
    using 2(5) assms(4) by simp
  then have "kinv k'" using kinv_refcnt [OF heap] assms(1) by simp
  moreover have "openers k' q = (if q = p then insert filp (openers k p) else openers k q)" for q
    using assms(3) by (auto simp: k' openers_def)
  then have "pd_refcnt (dev_of k' q) = int (card (openers k' q))" if "q \<in> set (dev_list k)" for q
    using that assms(2,3) finite_openers [of k p]
    by (cases "q = p") (simp_all add: file_inv_def k' openers_def)
  moreover have "dev_list k' = dev_list k" "private_data k' = (private_data k)(filp \<mapsto> p)"
    by (simp_all add: k')
  ultimately show ?thesis
    using assms(2,3) 2(2) by (simp add: file_inv_def)
qed

lemma release_keeps:
  assumes "kinv k" "file_inv k" "private_data k filp = Some p"
  obtains k' where "pop_dev_release filp k = Inr (0, k')" "kinv k'" "file_inv k'"
    "dev_list k' = dev_list k" "private_data k' = (private_data k)(filp := None)"
proof -
  have p: "p \<in> set (dev_list k)"
    using assms(2,3) by (auto simp: file_inv_def ran_def)
  define k' where "k' = k\<lparr>heap := (heap k)(p \<mapsto> (dev_of k p)\<lparr>pd_refcnt := pd_refcnt (dev_of k p) - 1\<rparr>),
       private_data := (private_data k)(filp := None)\<rparr>"
  have run: "pop_dev_release filp k = Inr (0, k')"
    by (simp add: pop_dev_release_def assms(3) deref_listed [OF assms(1) p] k'_def)
  have inv: "kinv k'"
    unfolding k'_def using kinv_refcnt [OF kinv_listed [OF assms(1) p]] assms(1) by simp
  have "openers k' q = (if q = p then openers k p - {filp} else openers k q)" for q
    using assms(3) by (auto simp: k'_def openers_def)
  moreover have "card (openers k p) = Suc (card (openers k p - {filp}))"
    using assms(2,3) finite_openers [of k p]
    by (intro card.remove) (simp_all add: file_inv_def openers_def)
  ultimately have "pd_refcnt (dev_of k' q) = int (card (openers k' q))" if "q \<in> set (dev_list k)" for q
    using that assms(2) by (cases "q = p") (simp_all add: file_inv_def k'_def)
  moreover have "ran ((private_data k)(filp := None)) \<subseteq> set (dev_list k)"
    using assms(2) by (auto simp: file_inv_def ran_def split: if_splits)
  moreover have "dev_list k' = dev_list k" "private_data k' = (private_data k)(filp := None)"
    by (simp_all add: k'_def)
  ultimately show thesis
    using run inv assms(2) by (intro that [of k']) (simp_all add: file_inv_def)
qed

end
