(* ===== verification/Boogiepop_Run.thy ===== *)
theory Boogiepop_Run
  imports Boogiepop
begin

text \<open>
  Runs of the kernel module. The registry behind \<^verbatim>\<open>pop.dev_list\<close> is specified as a finite map
  from PCI devices to \<^verbatim>\<open>struct pop_dev\<close> and \<^verbatim>\<open>pop_ioctl\<close> is shown to implement the updates
  of that map; the states the module can reach are an inductive predicate over its handlers, and the
  invariants of the theory \<open>Boogiepop\<close> hold in all of them.
\<close>

section \<open>The registry as a map\<close>

lemma registered_iff:
  assumes "kinv k"
  shows "registered k pdev = Some d \<longleftrightarrow> (\<exists>p \<in> set (dev_list k). dev_of k p = d \<and> pd_pdev d = pdev)"
proof
  assume "registered k pdev = Some d"
  then show "\<exists>p \<in> set (dev_list k). dev_of k p = d \<and> pd_pdev d = pdev"
    by (auto simp: registered_def dest: find_SomeD)
next
  assume "\<exists>p \<in> set (dev_list k). dev_of k p = d \<and> pd_pdev d = pdev"
  then obtain p where p: "p \<in> set (dev_list k)" "dev_of k p = d" "pd_pdev d = pdev" by blast
  then obtain q where q: "find (\<lambda>p. pd_pdev (dev_of k p) = pdev) (dev_list k) = Some q"
    by (cases "find (\<lambda>p. pd_pdev (dev_of k p) = pdev) (dev_list k)") (auto simp: find_None_iff)
  then have "q \<in> set (dev_list k)" "pd_pdev (dev_of k q) = pdev"
    using find_SomeD [OF q] by simp_all
  with p assms have "q = p"
    unfolding kinv_def inj_on_def by auto
  with p q show "registered k pdev = Some d"
    by (simp add: registered_def)
qed

lemma registered_same:
  assumes "dev_list k' = dev_list k" "\<And>p. p \<in> set (dev_list k) \<Longrightarrow> heap k' p = heap k p"
  shows "registered k' = registered k"
proof
  fix pdev
  have "find (\<lambda>p. pd_pdev (dev_of k' p) = pdev) (dev_list k) =
        find (\<lambda>p. pd_pdev (dev_of k p) = pdev) (dev_list k)"
    using assms(2) by (intro find_cong) auto
  then show "registered k' pdev = registered k pdev"
    using assms find_SomeD
    by (cases "find (\<lambda>p. pd_pdev (dev_of k p) = pdev) (dev_list k)") (fastforce simp: registered_def)+
qed

lemma option_eqI: "(\<And>d. x = Some d \<longleftrightarrow> y = Some d) \<Longrightarrow> x = y"
  by (cases x; cases y) auto

lemma registered_add:
  assumes "kinv k" "kinv k'" "dev_list k' = dev_list k @ [p]" "heap k' = (heap k)(p \<mapsto> d)"
    "heap k p = None" "registered k (pd_pdev d) = None"
  shows "registered k' = (registered k)(pd_pdev d \<mapsto> d)"
proof
  fix pdev
  have p: "p \<notin> set (dev_list k)" using assms(1,5) by (auto simp: kinv_def)
  have none: "\<forall>q \<in> set (dev_list k). pd_pdev (dev_of k q) \<noteq> pd_pdev d"
    using assms(6) by (auto simp: registered_def find_None_iff)
  show "registered k' pdev = ((registered k)(pd_pdev d \<mapsto> d)) pdev"
    using p none assms(3,4)
    by (intro option_eqI) (auto simp: registered_iff [OF assms(1)] registered_iff [OF assms(2)])
qed

lemma registered_remove:
  assumes "kinv k" "kinv k'" "removes k p k'"
  shows "registered k' = (registered k)(pd_pdev (dev_of k p) := None)"
proof
  fix pdev
  have p: "p \<in> set (dev_list k)" "set (dev_list k') = set (dev_list k) - {p}"
    "heap k' = (heap k)(p := None)"
    using assms(1,3) by (simp_all add: removes_def kinv_def)
  have "pd_pdev (dev_of k q) \<noteq> pd_pdev (dev_of k p)" if "q \<in> set (dev_list k)" "q \<noteq> p" for q
    using assms(1) p(1) that unfolding kinv_def inj_on_def by blast
  then show "registered k' pdev = ((registered k)(pd_pdev (dev_of k p) := None)) pdev"
    using p by (intro option_eqI) (auto simp: registered_iff [OF assms(1)] registered_iff [OF assms(2)])
qed

text \<open>
  The specification of \<^verbatim>\<open>pop_ioctl\<close>: the map after a call, from the map before it and what the
  kernel answers.
\<close>

definition target :: "kenv \<Rightarrow> pop_p2pmem_reg \<Rightarrow> addr option" where
  "target E reg = (if copy_from_user_ok E
     then pci_slot E (reg_domain reg) (reg_bus reg) (PCI_DEVFN (reg_slot reg) (reg_func reg))
     else None)"

fun registry_spec ::
    "kenv \<Rightarrow> ioctl_cmd \<Rightarrow> pop_p2pmem_reg \<Rightarrow> (addr \<rightharpoonup> pop_dev) \<Rightarrow> (addr \<rightharpoonup> pop_dev)" where
  "registry_spec E POP_P2PMEM_REG reg m =
     (case target E reg of
        None \<Rightarrow> m
      | Some pdev \<Rightarrow>
          if pci_has_p2pmem E pdev \<and> m pdev = None \<and> \<not> register_fails E pdev (reg_size reg)
          then m(pdev \<mapsto> new_dev E pdev (reg_size reg)) else m)"
| "registry_spec E POP_P2PMEM_UNREG reg m =
     (case target E reg of None \<Rightarrow> m | Some pdev \<Rightarrow> m(pdev := None))"
| "registry_spec E (OtherCmd c) reg m = m"

lemma registered_pci_dev_put [simp]: "registered (pci_dev_put pdev k) = registered k"
  by (simp add: pci_dev_put_def)

lemma register_refines:
  assumes "kinv k" "kmalloc_fresh E k" "pop_register_p2pmem E pdev sz k = Inr (r, k')"
  shows "registered k' = (if registered k pdev = None \<and> \<not> register_fails E pdev sz
           then (registered k)(pdev \<mapsto> new_dev E pdev sz) else registered k)"
proof (cases "registered k pdev")
  case (Some d)
  with assms register_already [OF assms(1) Some, of E sz] show ?thesis by simp
next
  case None
  show ?thesis
  proof (cases "register_fails E pdev sz")
    case True
    from register_failure [OF assms(1,2) None True] obtain e k1 where
      "pop_register_p2pmem E pdev sz k = Inr (- errno_num e, k1)" "dev_list k1 = dev_list k"
      "\<And>p. p \<in> set (dev_list k) \<Longrightarrow> heap k1 p = heap k p" by metis
    then show ?thesis using assms(3) True registered_same [of k1 k] by simp
  next
    case False
    from register_success [OF assms(1,2) None False] obtain p k1 where
      "pop_register_p2pmem E pdev sz k = Inr (int_of_size (register_size E pdev sz), k1)"
      "kinv k1" "dev_list k1 = dev_list k @ [p]" "heap k1 = (heap k)(p \<mapsto> new_dev E pdev sz)"
      "heap k p = None" by metis
    then show ?thesis
      using assms(1,3) None False registered_add [of k k1 p "new_dev E pdev sz"]
      by (simp add: new_dev_def)
  qed
qed

lemma ioctl_reg_refines:
  assumes "kinv k" "kmalloc_fresh E k" "pop_ioctl E POP_P2PMEM_REG reg k = Inr (r, reg', k')"
  shows "registered k' = registry_spec E POP_P2PMEM_REG reg (registered k)"
proof (cases "target E reg")
  case None
  with assms(3) show ?thesis
    by (auto simp: target_def pci_get_domain_bus_and_slot_def split: if_splits option.splits)
next
  case (Some pdev)
  let ?k1 = "k\<lparr>pci_refs := (pci_refs k)(pdev := pci_refs k pdev + 1)\<rparr>"
  obtain s k2 where reg: "pop_register_p2pmem E pdev (reg_size reg) ?k1 = Inr (s, k2)"
    by (rule register_total [of ?k1 E pdev "reg_size reg"]) (simp_all add: assms)
  then have "registered k2 = (if registered k pdev = None \<and> \<not> register_fails E pdev (reg_size reg)
      then (registered k)(pdev \<mapsto> new_dev E pdev (reg_size reg)) else registered k)"
    using register_refines [OF _ _ reg] assms(1,2) by simp
  with Some reg assms(3) show ?thesis
    by (auto simp: target_def pci_get_domain_bus_and_slot_def split: if_splits)
qed

lemma ioctl_unreg_refines:
  assumes "kinv k" "pop_ioctl E POP_P2PMEM_UNREG reg k = Inr (r, reg', k')"
  shows "registered k' = registry_spec E POP_P2PMEM_UNREG reg (registered k)"
proof (cases "target E reg")
  case None
  with assms(2) show ?thesis
    by (auto simp: target_def pci_get_domain_bus_and_slot_def split: if_splits option.splits)
next
  case (Some pdev)
  let ?k1 = "k\<lparr>pci_refs := (pci_refs k)(pdev := pci_refs k pdev + 1)\<rparr>"
  have inv: "kinv ?k1" using assms(1) by simp
  have get: "pci_get_domain_bus_and_slot E (reg_domain reg) (reg_bus reg)
      (PCI_DEVFN (reg_slot reg) (reg_func reg)) k = (Some pdev, ?k1)" "copy_from_user_ok E"
    using Some by (auto simp: target_def pci_get_domain_bus_and_slot_def split: if_splits)
  show ?thesis
  proof (cases "find (\<lambda>p. pd_pdev (dev_of ?k1 p) = pdev) (dev_list ?k1)")
    case None
    then have "registered k pdev = None" by (simp add: registered_def)
    with None get Some assms(2) pop_find_dev_find [OF inv, of pdev] show ?thesis
      by (auto simp: fun_upd_idem)
  next
    case (Some p)
    have p: "p \<in> set (dev_list ?k1)" "pd_pdev (dev_of k p) = pdev"
      using find_SomeD [OF Some] by simp_all
    obtain k2 where "pop_unregister_p2pmem p ?k1 = Inr k2" "kinv k2" "removes ?k1 p k2"
      by (rule unregister_removes [OF inv p(1)])
    then show ?thesis
      using registered_remove [OF inv, of k2 p] p get Some \<open>target E reg = Some pdev\<close> assms(2)
        pop_find_dev_find [OF inv, of pdev] by simp
  qed
qed

lemma ioctl_refines:
  assumes "kinv k" "kmalloc_fresh E k" "pop_ioctl E cmd reg k = Inr (r, reg', k')"
  shows "registered k' = registry_spec E cmd reg (registered k)"
  using ioctl_reg_refines [OF assms(1,2)] ioctl_unreg_refines [OF assms(1)] assms(3)
  by (cases cmd) (auto simp del: pop_ioctl.simps(1,2) registry_spec.simps(1,2))

section \<open>Reachable states\<close>

text \<open>
  The module's states after it is loaded, under any sequence of calls of its handlers. The file
  layer opens a \<^verbatim>\<open>struct file\<close> once and releases it once. With \<open>orderly\<close>, no device is
  unregistered while a file is open on it.
\<close>

definition kboot :: kstate where
  "kboot = \<lparr>heap = Map.empty, dev_list = [], miscdevs = {#}, pci_refs = (\<lambda>_. 0), p2p_allocs = {#},
     private_data = Map.empty\<rparr>"

inductive kreach :: "bool \<Rightarrow> kstate \<Rightarrow> bool" for orderly :: bool where
  load: "pop_init E kboot = (0, k) \<Longrightarrow> kreach orderly k"
| ioctl: "kreach orderly k \<Longrightarrow> kmalloc_fresh E k \<Longrightarrow> pop_ioctl E cmd reg k = Inr (r, reg', k') \<Longrightarrow>
    (orderly \<longrightarrow> (\<forall>p. removes k p k' \<longrightarrow> openers k p = {})) \<Longrightarrow> kreach orderly k'"
| opened: "kreach orderly k \<Longrightarrow> private_data k filp = None \<Longrightarrow>
    pop_dev_open E filp name k = Inr (r, k') \<Longrightarrow> kreach orderly k'"
| released: "kreach orderly k \<Longrightarrow> pop_dev_release filp k = Inr (r, k') \<Longrightarrow> kreach orderly k'"

lemma kinv_load:
  "pop_init E kboot = (0, k) \<Longrightarrow> kinv k \<and> file_inv k"
  by (auto simp: pop_init_def Let_def kboot_def kinv_def file_inv_def split: if_splits)

lemma release_kinv:
  assumes "kinv k" "pop_dev_release filp k = Inr (r, k')"
  shows "kinv k'"
proof -
  obtain p d where "private_data k filp = Some p" "heap k p = Some d"
    "k' = k\<lparr>heap := (heap k)(p \<mapsto> d\<lparr>pd_refcnt := pd_refcnt d - 1\<rparr>),
            private_data := (private_data k)(filp := None)\<rparr>"
    using assms(2) by (auto simp: pop_dev_release_def deref_def split: option.splits sum.splits)
  with assms(1) kinv_refcnt [of k p d] show ?thesis by simp
qed

lemma open_kinv:
  assumes "kinv k" "pop_dev_open E filp name k = Inr (r, k')"
  shows "kinv k'"
proof (cases rule: open_cases [OF assms(1), of E filp name])
  case 1
  with assms show ?thesis by simp
next
  case (2 p pdev)
  with assms kinv_refcnt [OF kinv_listed [OF assms(1) 2(2)]] show ?thesis by auto
qed

lemma kreach_kinv: "kreach b k \<Longrightarrow> kinv k"
proof (induction rule: kreach.induct)
  case (load E k)
  then show ?case using kinv_load by blast
next
  case (ioctl k E cmd reg r reg' k')
  then show ?case using ioctl_total [of k E cmd reg] by (simp add: ioctl_ok_def)
next
  case (opened k filp E name r k')
  then show ?case using open_kinv by blast
next
  case (released k filp r k')
  then show ?case using release_kinv by blast
qed

lemma kreach_file_inv: "kreach b k \<Longrightarrow> b \<Longrightarrow> file_inv k"
proof (induction rule: kreach.induct)
  case (load E k)
  then show ?case using kinv_load by blast
next
  case (ioctl k E cmd reg r reg' k')
  have inv: "kinv k" using ioctl.hyps(1) by (rule kreach_kinv)
  have "grows k k' \<or> (\<exists>p. removes k p k')"
    using ioctl_total [OF inv ioctl.hyps(2), of cmd reg] ioctl.hyps(3) by (auto simp: ioctl_ok_def)
  then show ?case
    using file_inv_grows [OF inv] file_inv_removes [OF inv] ioctl by blast
next
  case (opened k filp E name r k')
  then show ?case using open_keeps [OF kreach_kinv [OF opened.hyps(1)]] by blast
next
  case (released k filp r k')
  then obtain p where "private_data k filp = Some p"
    by (auto simp: pop_dev_release_def split: option.splits)
  with released show ?case
    using release_keeps [OF kreach_kinv [OF released.hyps(1)], of filp p] by auto
qed

section \<open>Unloading\<close>

lemma unregister_all_listed:
  "kinv k \<Longrightarrow> dev_list k = ps \<Longrightarrow> \<exists>k'. unregister_all ps k = Inr k' \<and> kinv k' \<and> dev_list k' = []"
proof (induction ps arbitrary: k)
  case Nil
  then show ?case by simp
next
  case (Cons p ps)
  then have p: "p \<in> set (dev_list k)" by simp
  obtain k1 where "pop_unregister_p2pmem p k = Inr k1" "kinv k1" "removes k p k1"
    by (rule unregister_removes [OF Cons.prems(1) p])
  moreover have "dev_list k1 = ps"
    using \<open>removes k p k1\<close> Cons.prems(2) by (simp add: removes_def)
  ultimately show ?case using Cons.IH [of k1] by simp
qed

section \<open>A machine\<close>

text \<open>
  A concrete kernel for the witnesses: one PCI device, \<^verbatim>\<open>0000:17:00.0\<close>, with 16 MB of p2pmem.
\<close>

definition lab_env :: kenv where
  "lab_env = \<lparr>pci_slot = (\<lambda>d b df. if d = 0 \<and> b = 0x17 \<and> df = 0 then Some 0x1000 else None),
     pci_has_p2pmem = (\<lambda>_. True), gen_pool_size = (\<lambda>_. Some 0x1000000),
     pci_alloc_p2pmem = (\<lambda>_ _. Some 0x880000000000), kmalloc = Some 0x2000,
     misc_register_ret = 0, copy_from_user_ok = True, copy_to_user_ok = True,
     pci_name = (\<lambda>_. ''0000:17:00.0''), kvirt_to_phys = (\<lambda>a. a), pfn_valid = (\<lambda>_. True)\<rparr>"

definition lab_reg :: pop_p2pmem_reg where
  "lab_reg = \<lparr>reg_domain = 0, reg_bus = 0x17, reg_slot = 0, reg_func = 0, reg_size = 0\<rparr>"

definition lab_loaded :: kstate where
  "lab_loaded = kboot\<lparr>miscdevs := {#''boogiepop''#}\<rparr>"

definition lab_dev :: pop_dev where
  "lab_dev = \<lparr>pd_pdev = 0x1000, pd_devname = ''pop/0000:17:00.0'', pd_p2pmem = 0x880000000000,
     pd_size = 0x1000000, pd_refcnt = 0\<rparr>"

definition lab_registered :: kstate where
  "lab_registered = lab_loaded\<lparr>heap := [0x2000 \<mapsto> lab_dev], dev_list := [0x2000],
     miscdevs := {#''boogiepop'', ''pop/0000:17:00.0''#}, pci_refs := (\<lambda>_. 0)(0x1000 := 1),
     p2p_allocs := {#(0x1000, 0x880000000000, 0x1000000)#}\<rparr>"

definition lab_opened :: kstate where
  "lab_opened = lab_registered\<lparr>heap := [0x2000 \<mapsto> lab_dev\<lparr>pd_refcnt := 1\<rparr>],
     private_data := [3 \<mapsto> 0x2000]\<rparr>"

lemmas lab_states = lab_loaded_def lab_dev_def lab_registered_def lab_opened_def kboot_def

lemma lab_env_simps [simp]:
  "pci_slot lab_env d b df = (if d = 0 \<and> b = 0x17 \<and> df = 0 then Some 0x1000 else None)"
  "pci_has_p2pmem lab_env pdev" "gen_pool_size lab_env pdev = Some 0x1000000"
  "pci_alloc_p2pmem lab_env pdev sz = Some 0x880000000000" "kmalloc lab_env = Some 0x2000"
  "misc_register_ret lab_env = 0" "copy_from_user_ok lab_env" "copy_to_user_ok lab_env"
  "pci_name lab_env pdev = ''0000:17:00.0''" "kvirt_to_phys lab_env a = a" "pfn_valid lab_env n"
  by (simp_all add: lab_env_def)

lemma lab_reg_simps [simp]:
  "reg_domain lab_reg = 0" "reg_bus lab_reg = 0x17" "reg_slot lab_reg = 0" "reg_func lab_reg = 0"
  "reg_size lab_reg = 0"
  by (simp_all add: lab_reg_def)

lemma lab_init: "pop_init lab_env kboot = (0, lab_loaded)"
  by (simp add: pop_init_def lab_states)

lemma lab_size: "register_size lab_env 0x1000 0 = 0x1000000"
  by (simp add: register_size_def page_round_up_def pages_to_bytes_def bytes_to_pages_def)

lemma lab_register_p2pmem:
  "pop_register_p2pmem lab_env 0x1000 0 (lab_loaded\<lparr>pci_refs := (\<lambda>_. 0)(0x1000 := 1)\<rparr>) =
     Inr (0x1000000, lab_registered)"
  by (simp add: pop_register_p2pmem_def lab_size pop_find_dev_def Let_def lab_states snprintf_def
      DEVNAMELEN_def int_of_size_def add_mset_commute)

lemma lab_register:
  "pop_ioctl lab_env POP_P2PMEM_REG lab_reg lab_loaded =
     Inr (0, lab_reg\<lparr>reg_size := 0x1000000\<rparr>, lab_registered)"
proof -
  have "pci_refs lab_loaded = (\<lambda>_. 0)"
    by (simp add: lab_loaded_def kboot_def)
  then show ?thesis
    by (simp add: pci_get_domain_bus_and_slot_def PCI_DEVFN_def lab_register_p2pmem)
qed

lemma lab_scan: "scan_dbsf False ''0000:17:00.0'' = [0, 0x17, 0, 0]"
  by (simp add: scan_eval)

lemma lab_open: "pop_dev_open lab_env 3 ''0000:17:00.0'' lab_registered = Inr (0, lab_opened)"
  by (simp add: pop_dev_open_def lab_scan pop_find_dev_by_bus_and_slot_def
      pci_get_domain_bus_and_slot_def PCI_DEVFN_def pop_find_dev_def pci_dev_put_def deref_def lab_states)

lemma lab_fresh: "kmalloc_fresh lab_env lab_loaded"
  by (simp add: kmalloc_fresh_def lab_states)

lemma lab_kreach_loaded: "kreach b lab_loaded"
  using lab_init by (rule kreach.load)

lemma lab_kreach_registered: "kreach b lab_registered"
proof (rule kreach.ioctl [OF lab_kreach_loaded lab_fresh lab_register])
  show "b \<longrightarrow> (\<forall>p. removes lab_loaded p lab_registered \<longrightarrow> openers lab_loaded p = {})"
    by (simp add: removes_def lab_loaded_def kboot_def)
qed

lemma lab_kreach_opened: "kreach b lab_opened"
  by (rule kreach.opened [OF lab_kreach_registered _ lab_open])
    (simp add: lab_registered_def lab_loaded_def kboot_def)

section \<open>Properties\<close>

text \<open>A sequence of \<^verbatim>\<open>ioctl\<close> calls, each with what the kernel answers during it.\<close>

type_synonym ioctl_call = "kenv \<times> ioctl_cmd \<times> pop_p2pmem_reg"

fun ioctl_run :: "ioctl_call list \<Rightarrow> kstate \<Rightarrow> kstate outcome" where
  "ioctl_run [] k = Inr k"
| "ioctl_run ((E, cmd, reg) # cs) k =
     (case pop_ioctl E cmd reg k of Inl f \<Rightarrow> Inl f | Inr (r, reg', k') \<Rightarrow> ioctl_run cs k')"

fun fresh_run :: "ioctl_call list \<Rightarrow> kstate \<Rightarrow> bool" where
  "fresh_run [] k = True"
| "fresh_run ((E, cmd, reg) # cs) k =
     (kmalloc_fresh E k \<and>
      (case pop_ioctl E cmd reg k of Inl f \<Rightarrow> True | Inr (r, reg', k') \<Rightarrow> fresh_run cs k'))"

definition registry_run :: "ioctl_call list \<Rightarrow> (addr \<rightharpoonup> pop_dev) \<Rightarrow> (addr \<rightharpoonup> pop_dev)" where
  "registry_run cs m = fold (\<lambda>(E, cmd, reg). registry_spec E cmd reg) cs m"

lemma ioctl_step:
  assumes "kinv k" "kmalloc_fresh E k"
  obtains r reg' k' where "pop_ioctl E cmd reg k = Inr (r, reg', k')" "kinv k'"
    "registered k' = registry_spec E cmd reg (registered k)"
proof -
  have ok: "ioctl_ok cmd k (pop_ioctl E cmd reg k)"
    using assms by (rule ioctl_total)
  then obtain r reg' k' where "pop_ioctl E cmd reg k = Inr (r, reg', k')" "kinv k'"
    by (auto simp: ioctl_ok_def split: sum.splits)
  then show thesis
    using that ioctl_refines [OF assms] by blast
qed

text \<open>
  (C2) The registry implements a finite map: any sequence of \<^verbatim>\<open>ioctl\<close> calls from a consistent
  state runs without a memory fault, ends in a consistent state, and the devices registered then are
  those that the map of the specification holds.
\<close>

theorem ioctl_run_refines_map:
  assumes "kinv k" "fresh_run cs k"
  shows "\<exists>k'. ioctl_run cs k = Inr k' \<and> kinv k' \<and> registered k' = registry_run cs (registered k)"
  using assms
proof (induction cs arbitrary: k)
  case Nil
  then show ?case by (simp add: registry_run_def)
next
  case (Cons c cs)
  obtain E cmd reg where c: "c = (E, cmd, reg)" by (cases c) auto
  with Cons.prems have "kmalloc_fresh E k" by simp
  from ioctl_step [OF Cons.prems(1) this] obtain r reg' k1 where
    step: "pop_ioctl E cmd reg k = Inr (r, reg', k1)" "kinv k1"
      "registered k1 = registry_spec E cmd reg (registered k)" by blast
  moreover have "fresh_run cs k1" using Cons.prems(2) step c by simp
  ultimately show ?case
    using Cons.IH [of k1] c by (simp add: registry_run_def)
qed

theorem ioctl_run_refines_map_witness:
  "\<exists>k'. ioctl_run [(lab_env, POP_P2PMEM_REG, lab_reg)] lab_loaded = Inr k' \<and> kinv k' \<and>
     registered k' = registry_run [(lab_env, POP_P2PMEM_REG, lab_reg)] (registered lab_loaded)"
proof (rule ioctl_run_refines_map)
  show "kinv lab_loaded" using lab_kreach_loaded by (rule kreach_kinv)
  show "fresh_run [(lab_env, POP_P2PMEM_REG, lab_reg)] lab_loaded"
    using lab_fresh lab_register by (simp del: pop_ioctl.simps)
qed







lemma ioctl_unreg_eval:
  assumes "kinv k" "p \<in> set (dev_list k)" "target E reg = Some (pd_pdev (dev_of k p))"
  obtains k' where "pop_ioctl E POP_P2PMEM_UNREG reg k = Inr (0, reg, k')" "kinv k'" "removes k p k'"
    "pci_refs k' = pci_refs k"
proof -
  let ?pdev = "pd_pdev (dev_of k p)"
  let ?k1 = "k\<lparr>pci_refs := (pci_refs k)(?pdev := pci_refs k ?pdev + 1)\<rparr>"
  have inv: "kinv ?k1" using assms(1) by simp
  have "registered k ?pdev = Some (dev_of k p)"
    using registered_iff [OF assms(1)] assms(2) by blast
  then obtain q where q: "find (\<lambda>q. pd_pdev (dev_of ?k1 q) = ?pdev) (dev_list ?k1) = Some q"
    by (auto simp: registered_def)
  then have "q = p"
    using find_SomeD [OF q] assms(1,2) unfolding kinv_def inj_on_def by auto
  have mem: "p \<in> set (dev_list ?k1)" using assms(2) by simp
  obtain k2 where k2: "pop_unregister_p2pmem p ?k1 = Inr k2" "kinv k2" "removes ?k1 p k2"
    by (rule unregister_removes [OF inv mem])
  have "pci_refs k2 = pci_refs k"
    by (rule pop_unregister_listed [OF inv mem]) (use k2(1) in simp)
  moreover have "pci_get_domain_bus_and_slot E (reg_domain reg) (reg_bus reg)
      (PCI_DEVFN (reg_slot reg) (reg_func reg)) k = (Some ?pdev, ?k1)" "copy_from_user_ok E"
    using assms(3) by (auto simp: target_def pci_get_domain_bus_and_slot_def split: if_splits)
  then have "pop_ioctl E POP_P2PMEM_UNREG reg k = Inr (0, reg, k2)"
    using k2(1) q \<open>q = p\<close> pop_find_dev_find [OF inv, of ?pdev] by simp
  ultimately show thesis
    using that [of k2] k2(2,3) by simp
qed

text \<open>
  (C39) \<^verbatim>\<open>pop_unregister_p2pmem\<close> frees the device without looking at \<^verbatim>\<open>refcnt\<close>: when a file is
  open on it, the later \<^verbatim>\<open>close\<close> (the order of \<^verbatim>\<open>pop_mem_exit\<close>), \<^verbatim>\<open>mmap\<close> and page
  faults through that file read freed memory.
\<close>

theorem close_after_unregister:
  assumes "kinv k" "private_data k filp = Some p" "p \<in> set (dev_list k)"
    "target E reg = Some (pd_pdev (dev_of k p))"
  shows "\<exists>k'. pop_ioctl E POP_P2PMEM_UNREG reg k = Inr (0, reg, k') \<and>
    pop_dev_release filp k' = Inl UseAfterFree \<and> pop_dev_mmap k' filp vma = Inl UseAfterFree \<and>
    pop_dev_mem_fault E' k' (Some filp) pgoff = Inl UseAfterFree"
proof -
  obtain k2 where k2: "pop_ioctl E POP_P2PMEM_UNREG reg k = Inr (0, reg, k2)" "removes k p k2"
    by (rule ioctl_unreg_eval [OF assms(1,3,4)])
  then have "private_data k2 filp = Some p" "heap k2 p = None"
    using assms(2) by (simp_all add: removes_def)
  with k2(1) show ?thesis
    by (simp add: pop_dev_release_def pop_dev_mmap_def pop_dev_mem_fault_def deref_def Let_def)
qed

theorem close_after_unregister_witness:
  "\<exists>k'. pop_ioctl lab_env POP_P2PMEM_UNREG lab_reg lab_opened = Inr (0, lab_reg, k') \<and>
    pop_dev_release 3 k' = Inl UseAfterFree \<and>
    pop_dev_mmap k' 3 \<lparr>vm_start = 0, vm_end = 4096, vm_pgoff = 0\<rparr> = Inl UseAfterFree \<and>
    pop_dev_mem_fault lab_env k' (Some 3) 0 = Inl UseAfterFree"
proof (rule close_after_unregister)
  show "kinv lab_opened" using lab_kreach_opened by (rule kreach_kinv)
  show "private_data lab_opened 3 = Some 0x2000" "0x2000 \<in> set (dev_list lab_opened)"
    by (simp_all add: lab_states)
  show "target lab_env lab_reg = Some (pd_pdev (dev_of lab_opened 0x2000))"
    by (simp add: target_def PCI_DEVFN_def lab_states)
qed

text \<open>The three ways a registration request for a new device ends.\<close>

abbreviation got :: "addr \<Rightarrow> kstate \<Rightarrow> kstate" where
  "got pdev k \<equiv> k\<lparr>pci_refs := (pci_refs k)(pdev := pci_refs k pdev + 1)\<rparr>"

lemma ioctl_reg_eval:
  assumes "target E reg = Some pdev" "pci_has_p2pmem E pdev"
    "pop_register_p2pmem E pdev (reg_size reg) (got pdev k) = Inr (s, k')"
  shows "pop_ioctl E POP_P2PMEM_REG reg k =
    (if s < 0 then Inr (0, reg, pci_dev_put pdev k')
     else if \<not> copy_to_user_ok E then Inr (- errno_num EFAULT, reg, pci_dev_put pdev k')
     else Inr (0, reg\<lparr>reg_size := word_of_int s\<rparr>, k'))"
proof -
  have "pci_get_domain_bus_and_slot E (reg_domain reg) (reg_bus reg)
      (PCI_DEVFN (reg_slot reg) (reg_func reg)) k = (Some pdev, got pdev k)" "copy_from_user_ok E"
    using assms(1) by (auto simp: target_def pci_get_domain_bus_and_slot_def split: if_splits)
  with assms(2,3) show ?thesis by simp
qed

lemma int_of_size_mod: "int_of_size sz = (int (unat sz) + 2 ^ 31) mod 2 ^ 32 - 2 ^ 31"
proof -
  have cast: "(ucast sz :: u32) = word_of_int (int (unat sz))" by simp
  show ?thesis unfolding int_of_size_def cast by (subst int_word_sint) simp
qed

lemma int_of_size_small:
  assumes "unat sz < 2 ^ 31"
  shows "int_of_size sz = int (unat sz)"
proof -
  have "(int n + 2147483648) mod 4294967296 - 2147483648 = int n" if "n < 2147483648" for n
    using that by simp
  from this [of "unat sz"] assms show ?thesis unfolding int_of_size_mod by simp
qed

lemma int_of_size_negative:
  assumes "2 ^ 31 \<le> unat sz" "unat sz < 2 ^ 32"
  shows "int_of_size sz < 0"
proof -
  have "(int n + 2147483648) mod 4294967296 - 2147483648 < 0"
    if "2147483648 \<le> n" "n < 4294967296" for n :: nat
    using that by (simp add: mod_pos_geq)
  from this [of "unat sz"] assms show ?thesis unfolding int_of_size_mod by simp
qed

text \<open>
  Registering a device that is not registered yet, when the kernel can serve the request and
  the device is smaller than 2 GB: the call returns 0 and the size of the device, a whole number of
  pages, the least that holds the requested size (or the device's pool, for a request of 0); the
  registry gains exactly this device, and one reference on it is held.
\<close>

lemma register_new_device:
  assumes "kinv k" "kmalloc_fresh E k" "target E reg = Some pdev" "pci_has_p2pmem E pdev"
    "registered k pdev = None" "\<not> register_fails E pdev (reg_size reg)" "copy_to_user_ok E"
    "want = (if reg_size reg = 0 then the (gen_pool_size E pdev) else reg_size reg)"
    "gen_pool_size E pdev \<noteq> None" "unat want \<le> 2 ^ 31 - 4096"
  shows "\<exists>sz k'. pop_ioctl E POP_P2PMEM_REG reg k = Inr (0, reg\<lparr>reg_size := sz\<rparr>, k') \<and>
    unat sz = 4096 * pages_needed (unat want) \<and>
    registered k' = (registered k)(pdev \<mapsto> new_dev E pdev (reg_size reg)) \<and>
    pd_size (new_dev E pdev (reg_size reg)) = sz \<and>
    pci_refs k' = (pci_refs k)(pdev := pci_refs k pdev + 1)"
proof -
  let ?sz = "register_size E pdev (reg_size reg)"
  have "?sz = pages_to_bytes (page_round_up want)"
    using assms(8,9) by (auto simp: register_size_def Let_def)
  moreover have "unat (page_round_up want) = pages_needed (unat want)"
    using assms(10) by (intro unat_page_round_up) simp
  moreover have small: "pages_needed (unat want) * 4096 < 2 ^ 31"
    using pages_needed_upper [of "unat want"] assms(10) by simp
  ultimately have sz: "unat ?sz = 4096 * pages_needed (unat want)"
    by (simp add: unat_pages_to_bytes)
  obtain p k' where reg: "pop_register_p2pmem E pdev (reg_size reg) (got pdev k) = Inr (int_of_size ?sz, k')"
    "pci_refs k' = pci_refs (got pdev k)"
    by (rule register_success [of "got pdev k" E pdev "reg_size reg"]) (simp_all add: assms)
  have val: "int_of_size ?sz = int (unat ?sz)"
    using sz small by (intro int_of_size_small) simp
  have run: "pop_ioctl E POP_P2PMEM_REG reg k = Inr (0, reg\<lparr>reg_size := ?sz\<rparr>, k')"
    using ioctl_reg_eval [OF assms(3,4) reg(1)] assms(7) val by simp
  then have "registered k' = registry_spec E POP_P2PMEM_REG reg (registered k)"
    by (rule ioctl_refines [OF assms(1,2)])
  with run sz reg(2) assms(3-6) show ?thesis
    by (intro exI [of _ ?sz] exI [of _ k']) (simp add: new_dev_def)
qed

text \<open>
  A registration that fails inside \<^verbatim>\<open>pop_register_p2pmem\<close> (no p2pmem left, no memory, no misc
  device) is reported to the caller as success: \<^verbatim>\<open>pop_ioctl\<close> jumps to its exit with
  \<^verbatim>\<open>ret == 0\<close>. Nothing is registered and the request is not written back.
\<close>

lemma failed_registration_returns_0:
  assumes "kinv k" "kmalloc_fresh E k" "target E reg = Some pdev" "pci_has_p2pmem E pdev"
    "registered k pdev = None" "register_fails E pdev (reg_size reg)"
  shows "\<exists>k'. pop_ioctl E POP_P2PMEM_REG reg k = Inr (0, reg, k') \<and> registered k' = registered k \<and>
    pci_refs k' = pci_refs k"
proof -
  obtain e k' where reg: "pop_register_p2pmem E pdev (reg_size reg) (got pdev k) = Inr (- errno_num e, k')"
    "pci_refs k' = pci_refs (got pdev k)"
    by (rule register_failure [of "got pdev k" E pdev "reg_size reg"]) (simp_all add: assms)
  have run: "pop_ioctl E POP_P2PMEM_REG reg k = Inr (0, reg, pci_dev_put pdev k')"
    using ioctl_reg_eval [OF assms(3,4) reg(1)] by simp
  then have "registered (pci_dev_put pdev k') = registry_spec E POP_P2PMEM_REG reg (registered k)"
    by (rule ioctl_refines [OF assms(1,2)])
  with run reg(2) assms(3-6) show ?thesis
    by (simp add: pci_dev_put_def)
qed



text \<open>
  Registering a device and unregistering it again restores the registry, the p2pmem pool and the
  misc devices, but leaves one reference on the PCI device that was not held before: the
  \<^verbatim>\<open>POP_P2PMEM_UNREG\<close> branch takes a reference by \<^verbatim>\<open>pci_get_domain_bus_and_slot\<close> and does not
  return it.
\<close>

lemma register_unregister_leaks_reference:
  assumes "kinv k" "kmalloc_fresh E k" "target E reg = Some pdev" "pci_has_p2pmem E pdev"
    "registered k pdev = None" "\<not> register_fails E pdev (reg_size reg)" "copy_to_user_ok E"
    "unat (register_size E pdev (reg_size reg)) < 2 ^ 31" "target E' reg' = Some pdev"
  shows "\<exists>reg1 k1 k2. pop_ioctl E POP_P2PMEM_REG reg k = Inr (0, reg1, k1) \<and>
    pop_ioctl E' POP_P2PMEM_UNREG reg' k1 = Inr (0, reg', k2) \<and>
    registered k2 = registered k \<and> dev_list k2 = dev_list k \<and> p2p_allocs k2 = p2p_allocs k \<and>
    miscdevs k2 = miscdevs k \<and> pci_refs k2 = (pci_refs k)(pdev := pci_refs k pdev + 1)"
proof -
  let ?sz = "register_size E pdev (reg_size reg)"
  obtain p k1 where k1:
    "pop_register_p2pmem E pdev (reg_size reg) (got pdev k) = Inr (int_of_size ?sz, k1)"
    "kinv k1" "dev_list k1 = dev_list k @ [p]" "heap k1 = (heap k)(p \<mapsto> new_dev E pdev (reg_size reg))"
    "heap k p = None" "pci_refs k1 = pci_refs (got pdev k)"
    by (rule register_success [of "got pdev k" E pdev "reg_size reg"]) (simp_all add: assms)
  have "int_of_size ?sz = int (unat ?sz)"
    using assms(8) by (rule int_of_size_small)
  then have r1: "pop_ioctl E POP_P2PMEM_REG reg k = Inr (0, reg\<lparr>reg_size := ?sz\<rparr>, k1)"
    using ioctl_reg_eval [OF assms(3,4) k1(1)] assms(7) by simp
  have p: "p \<in> set (dev_list k1)" "p \<notin> set (dev_list k)" "pd_pdev (dev_of k1 p) = pdev"
    using k1 assms(1) by (auto simp: kinv_def new_dev_def)
  obtain k2 where k2: "pop_ioctl E' POP_P2PMEM_UNREG reg' k1 = Inr (0, reg', k2)" "kinv k2"
    "removes k1 p k2" "pci_refs k2 = pci_refs k1"
    by (rule ioctl_unreg_eval [OF k1(2) p(1)]) (use assms(9) p(3) in auto)
  have same: "dev_list k2 = dev_list k" "\<And>q. q \<in> set (dev_list k) \<Longrightarrow> heap k2 q = heap k q"
    using k2(3) k1(3,4) p(2) by (auto simp: removes_def remove1_append)
  then have "image_mset (\<lambda>q. f (dev_of k2 q)) (mset (dev_list k)) =
      image_mset (\<lambda>q. f (dev_of k q)) (mset (dev_list k))" for f :: "pop_dev \<Rightarrow> 'z"
    by (intro image_mset_cong) simp
  from this [of dev_alloc] this [of pd_devname] have "p2p_allocs k2 = p2p_allocs k" "miscdevs k2 = miscdevs k"
    using assms(1) k2(2) same(1) by (simp_all add: kinv_def)
  with r1 k2 k1(6) same registered_same [OF same] show ?thesis by auto
qed

text \<open>
  (C27) A mapping that \<^verbatim>\<open>pop_dev_mmap\<close> accepts stays inside the device's p2pmem: for every page
  of the mapping, the page that the fault handler looks up lies in the chunk that was allocated at
  registration. The mapping's end does not wrap around (the file layer checks this before it calls
  the driver).
\<close>

theorem mapped_pages_inside_p2pmem:
  assumes "pop_dev_mmap k filp vma = Inr 0" "private_data k filp = Some p" "heap k p = Some d"
    "vm_start vma \<le> vm_end vma"
    "unat (vm_pgoff vma) * 4096 + (unat (vm_end vma) - unat (vm_start vma)) < 2 ^ 64"
    "unat (pd_p2pmem d) + unat (pd_size d) \<le> 2 ^ 64"
    "i * 4096 < unat (vm_end vma) - unat (vm_start vma)"
    "4096 dvd unat (vm_end vma) - unat (vm_start vma)"
  shows "\<exists>a. span a 4096 \<subseteq> span (pd_p2pmem d) (pd_size d) \<and>
    pop_dev_mem_fault E k (Some filp) (vm_pgoff vma + of_nat i) =
      (let pa = kvirt_to_phys E a in
       if pa = 0 \<or> \<not> pfn_valid E (bytes_to_pages pa) then Inr (VM_FAULT_SIGBUS, None)
       else Inr (0, Some (bytes_to_pages pa)))"
proof -
  let ?len = "unat (vm_end vma) - unat (vm_start vma)"
  let ?pg = "vm_pgoff vma + of_nat i"
  have off: "unat (pages_to_bytes (vm_pgoff vma)) = unat (vm_pgoff vma) * 4096"
    using assms(5) by (intro unat_pages_to_bytes_nowrap) linarith
  have len: "unat (vm_end vma - vm_start vma) = ?len"
    using assms(4) by (simp add: unat_sub)
  have bound: "unat (vm_pgoff vma) * 4096 + ?len \<le> unat (pd_size d)"
  proof -
    have "unat (pages_to_bytes (vm_pgoff vma) + (vm_end vma - vm_start vma)) =
        unat (vm_pgoff vma) * 4096 + ?len"
      using assms(5) off len by (subst unat_add_nowrap) simp_all
    moreover have "pages_to_bytes (vm_pgoff vma) + (vm_end vma - vm_start vma) \<le> pd_size d"
      using assms(1-3) by (auto simp: pop_dev_mmap_def Let_def deref_def split: if_splits)
    ultimately show ?thesis by (simp add: word_le_nat_alt)
  qed
  have page: "i * 4096 + 4096 \<le> ?len"
    using assms(7,8) by (auto simp: dvd_def)
  have pg: "unat ?pg = unat (vm_pgoff vma) + i"
    using assms(5) page by (subst unat_add_nowrap) (simp_all add: unat_of_nat_nowrap)
  have pgoff: "unat (pages_to_bytes ?pg) = (unat (vm_pgoff vma) + i) * 4096"
    using assms(5) page pg by (subst unat_pages_to_bytes_nowrap) simp_all
  define a where "a = pd_p2pmem d + pages_to_bytes ?pg"
  have "unat a = unat (pd_p2pmem d) + (unat (vm_pgoff vma) + i) * 4096"
    unfolding a_def using bound page pgoff assms(6) by (subst unat_add_nowrap) simp_all
  then have "span a 4096 \<subseteq> span (pd_p2pmem d) (pd_size d)"
    using bound page by (auto simp: span_def)
  moreover have "pop_dev_mem_fault E k (Some filp) ?pg =
      (let pa = kvirt_to_phys E a in
       if pa = 0 \<or> \<not> pfn_valid E (bytes_to_pages pa) then Inr (VM_FAULT_SIGBUS, None)
       else Inr (0, Some (bytes_to_pages pa)))"
    using assms(2,3) by (simp add: pop_dev_mem_fault_def deref_def Let_def a_def)
  ultimately show ?thesis by blast
qed

definition lab_vma :: vm_area where
  "lab_vma = \<lparr>vm_start = 0x7f0000000000, vm_end = 0x7f0001000000, vm_pgoff = 0\<rparr>"

theorem mapped_pages_inside_p2pmem_witness:
  "\<exists>a. span a 4096 \<subseteq> span (pd_p2pmem (lab_dev\<lparr>pd_refcnt := 1\<rparr>)) (pd_size (lab_dev\<lparr>pd_refcnt := 1\<rparr>)) \<and>
    pop_dev_mem_fault lab_env lab_opened (Some 3) (vm_pgoff lab_vma + of_nat 4095) =
      (let pa = kvirt_to_phys lab_env a in
       if pa = 0 \<or> \<not> pfn_valid lab_env (bytes_to_pages pa) then Inr (VM_FAULT_SIGBUS, None)
       else Inr (0, Some (bytes_to_pages pa)))"
proof (rule mapped_pages_inside_p2pmem)
  show "pop_dev_mmap lab_opened 3 lab_vma = Inr 0"
    by (simp add: pop_dev_mmap_def deref_def pages_to_bytes_def lab_vma_def lab_states)
  show "private_data lab_opened 3 = Some 0x2000"
    "heap lab_opened 0x2000 = Some (lab_dev\<lparr>pd_refcnt := 1\<rparr>)"
    by (simp_all add: lab_states)
qed (simp_all add: lab_vma_def lab_dev_def)

end
