(* ===== verification/Pop_Buf.thy ===== *)
theory Pop_Buf
  imports Pop_Api
begin

text \<open>
  The buffers of \<^verbatim>\<open>lib/libpop.c\<close>: \<^verbatim>\<open>pop_buf_alloc\<close>, which hands out whole pages of a
  memory region under its mutex, and the operations that move the data window of a buffer in the
  manner of the kernel's \<^verbatim>\<open>sk_buff\<close>.

  Two interfaces are stated as locales and interpreted on these functions: \<open>page_pool\<close>, what a
  client may rely on when it calls the allocator several times, and \<open>window_buffer\<close>, what
  \<^verbatim>\<open>put\<close>, \<^verbatim>\<open>trim\<close>, \<^verbatim>\<open>pull\<close> and \<^verbatim>\<open>push\<close> do to the window.
\<close>

section \<open>The structures\<close>

text \<open>
  \<^verbatim>\<open>pop_mem_t\<close> and \<^verbatim>\<open>pop_buf_t\<close> of \<^verbatim>\<open>include/libpop.h\<close>. \<open>pm_mutex\<close> is true while a
  thread holds the mutex; \<open>pb_mem\<close> is the address of the \<^verbatim>\<open>pop_mem_t\<close>.
\<close>

record pop_mem =
  pm_fd :: int
  pm_devname :: string
  pm_reg :: pop_p2pmem_reg
  pm_mem :: addr
  pm_paddr :: addr
  pm_size :: u64
  pm_num_pages :: u64
  pm_alloced_pages :: u64
  pm_mutex :: bool

record pop_buf =
  pb_mem :: addr
  pb_vaddr :: addr
  pb_paddr :: addr
  pb_size :: u64
  pb_offset :: u64
  pb_length :: u64

definition pop_mem_size :: "pop_mem \<Rightarrow> u64" where
  "pop_mem_size m = pm_size m"

section \<open>Allocation\<close>

text \<open>
  \<^verbatim>\<open>for (nr_pages = 0; (nr_pages << PAGE_SHIFT) < size; nr_pages++);\<close> The result \<^const>\<open>None\<close>
  means that the loop does not end.
\<close>

partial_function (option) count_pages :: "u64 \<Rightarrow> u64 \<Rightarrow> u64 option" where
  "count_pages nr_pages sz =
     (if pages_to_bytes nr_pages < sz then count_pages (nr_pages + 1) sz else Some nr_pages)"

text \<open>
  The part of \<^verbatim>\<open>pop_buf_alloc\<close> between lock and unlock, after the loop: the check, the
  allocation of the descriptor, and the update of \<^verbatim>\<open>alloced_pages\<close>. \<open>malloc_ok\<close> is the answer
  of \<^verbatim>\<open>malloc\<close>; \<open>mp\<close> is the argument \<^verbatim>\<open>mem\<close>, the address of \<open>m\<close>. The left result is
  \<^verbatim>\<open>NULL\<close> with the value of \<^verbatim>\<open>errno\<close>.
\<close>

definition fill_buf :: "addr \<Rightarrow> pop_mem \<Rightarrow> u64 \<Rightarrow> pop_buf" where
  "fill_buf mp m nr_pages =
     \<lparr>pb_mem = mp,
      pb_vaddr = pm_mem m + pages_to_bytes (pm_alloced_pages m),
      pb_paddr = pm_paddr m + pages_to_bytes (pm_alloced_pages m),
      pb_size = pages_to_bytes nr_pages,
      pb_offset = 0, pb_length = 0\<rparr>"

definition alloc_pages :: "bool \<Rightarrow> addr \<Rightarrow> pop_mem \<Rightarrow> u64 \<Rightarrow> (errno + pop_buf) \<times> pop_mem" where
  "alloc_pages malloc_ok mp m nr_pages =
     (if pm_num_pages m - pm_alloced_pages m < nr_pages then (Inl ENOBUFS, m)
      else if \<not> malloc_ok then (Inl ENOMEM, m)
      else (Inr (fill_buf mp m nr_pages),
            m\<lparr>pm_alloced_pages := pm_alloced_pages m + nr_pages\<rparr>))"

text \<open>
  The whole call by a single thread. It does not return (\<^const>\<open>None\<close>) when the mutex is held, or
  when the loop does not end.
\<close>

definition pop_buf_alloc ::
    "bool \<Rightarrow> addr \<Rightarrow> pop_mem \<Rightarrow> u64 \<Rightarrow> ((errno + pop_buf) \<times> pop_mem) option" where
  "pop_buf_alloc malloc_ok mp m sz =
     (if pm_mutex m then None
      else let m1 = m\<lparr>pm_mutex := True\<rparr> in
        (case count_pages 0 sz of
           None \<Rightarrow> None
         | Some nr_pages \<Rightarrow>
             (let (r, m2) = alloc_pages malloc_ok mp m1 nr_pages
              in Some (r, m2\<lparr>pm_mutex := False\<rparr>))))"

text \<open>
  \<^verbatim>\<open>pop_buf_free\<close> releases the descriptor only: the set of live descriptors loses the address,
  and the region is not touched.
\<close>

definition pop_buf_free :: "addr \<Rightarrow> (addr \<rightharpoonup> pop_buf) \<Rightarrow> (addr \<rightharpoonup> pop_buf)" where
  "pop_buf_free p bufs = (if p = 0 then bufs else bufs(p := None))"

section \<open>The data window\<close>

definition pop_buf_data :: "pop_buf \<Rightarrow> addr" where
  "pop_buf_data b = pb_vaddr b + pb_offset b"

definition pop_buf_paddr :: "pop_buf \<Rightarrow> addr" where
  "pop_buf_paddr b = pb_paddr b + pb_offset b"

definition pop_buf_put :: "pop_buf \<Rightarrow> u64 \<Rightarrow> addr \<times> pop_buf" where
  "pop_buf_put b len =
     (if pb_offset b + pb_length b + len > pb_size b then (0, b)
      else let b' = b\<lparr>pb_length := pb_length b + len\<rparr> in (pop_buf_data b', b'))"

definition pop_buf_trim :: "pop_buf \<Rightarrow> u64 \<Rightarrow> addr \<times> pop_buf" where
  "pop_buf_trim b len =
     (if pb_length b < len then (0, b)
      else let b' = b\<lparr>pb_length := pb_length b - len\<rparr> in (pop_buf_data b', b'))"

definition pop_buf_pull :: "pop_buf \<Rightarrow> u64 \<Rightarrow> addr \<times> pop_buf" where
  "pop_buf_pull b len =
     (if pb_length b < len then (0, b)
      else let b' = b\<lparr>pb_length := pb_length b - len, pb_offset := pb_offset b + len\<rparr>
        in (pop_buf_data b', b'))"

definition pop_buf_push :: "pop_buf \<Rightarrow> u64 \<Rightarrow> addr \<times> pop_buf" where
  "pop_buf_push b len =
     (if pb_offset b < len then (0, b)
      else let b' = b\<lparr>pb_length := pb_length b + len, pb_offset := pb_offset b - len\<rparr>
        in (pop_buf_data b', b'))"

definition pop_buf_len :: "pop_buf \<Rightarrow> u64" where
  "pop_buf_len b = pb_length b - pb_offset b"

definition pop_virt_to_phys :: "pop_mem \<Rightarrow> addr \<Rightarrow> addr" where
  "pop_virt_to_phys m vaddr =
     (if vaddr < pm_mem m \<or> vaddr > pm_mem m + pm_size m then 0
      else pm_paddr m + (vaddr - pm_mem m))"

section \<open>The page loop\<close>

lemma count_pages_result: "count_pages n sz = Some k \<Longrightarrow> \<not> pages_to_bytes k < sz"
  by (rule count_pages.raw_induct [of "\<lambda>n sz k. \<not> pages_to_bytes k < sz"])
    (auto split: if_splits)

text \<open>The loop ends for every size up to the last page of the address space, and returns the least
  number of pages that holds the size.\<close>

lemma count_pages_from:
  assumes "unat sz \<le> 2 ^ 64 - 4096" "unat n \<le> pages_needed (unat sz)"
  shows "count_pages n sz = Some (of_nat (pages_needed (unat sz)))"
  using assms(2)
proof (induction "pages_needed (unat sz) - unat n" arbitrary: n)
  case 0
  with assms have n: "unat n = pages_needed (unat sz)" "unat n < 2 ^ 52"
    using pages_needed_le [OF assms(1)] by auto
  then have "\<not> pages_to_bytes n < sz"
    using pages_needed_least(1) [of "unat sz"] by (simp add: word_nat nowrap)
  with n show ?case
    by (subst count_pages.simps) (simp add: flip: n(1))
next
  case (Suc d)
  then have lt: "unat n < pages_needed (unat sz)" by simp
  with pages_needed_le [OF assms(1)] have n: "unat n < 2 ^ 52" by simp
  have "\<not> unat sz \<le> unat n * 4096"
    using pages_needed_least(2) lt by (meson leD)
  with n have "pages_to_bytes n < sz" by (simp add: word_nat nowrap)
  moreover have "unat (n + 1) = unat n + 1"
    using n by (subst unat_add_nowrap) auto
  ultimately show ?case
    using Suc.hyps lt by (subst count_pages.simps) simp
qed

lemma count_pages_total:
  "unat sz \<le> 2 ^ 64 - 4096 \<Longrightarrow> count_pages 0 sz = Some (of_nat (pages_needed (unat sz)))"
  by (rule count_pages_from) simp_all

text \<open>Above that, no page count reaches the size and the loop runs forever.\<close>

lemma count_pages_diverges:
  assumes "2 ^ 64 - 4096 < unat sz"
  shows "count_pages n sz = None"
proof (rule ccontr)
  assume "count_pages n sz \<noteq> None"
  then obtain k where "\<not> pages_to_bytes k < sz" using count_pages_result by blast
  moreover have "(unat k * 4096) mod 2 ^ 64 \<le> 2 ^ 64 - 4096"
  proof -
    have "(unat k * 4096) mod (2 ^ 52 * 4096) = (unat k mod 2 ^ 52) * 4096"
      by (rule mult_mod_left [symmetric])
    moreover have "unat k mod 2 ^ 52 \<le> 2 ^ 52 - 1" by (simp add: less_Suc_eq_le [symmetric])
    ultimately show ?thesis by simp
  qed
  ultimately show False
    using assms by (simp add: word_nat unat_pages_to_bytes)
qed

section \<open>What the allocator promises\<close>

text \<open>
  A region is well formed when no more pages are handed out than it has, and its virtual and
  physical ranges lie inside the address space.
\<close>

definition mem_ok :: "pop_mem \<Rightarrow> bool" where
  "mem_ok m \<longleftrightarrow> pm_alloced_pages m \<le> pm_num_pages m \<and>
     unat (pm_mem m) + unat (pm_num_pages m) * 4096 < 2 ^ 64 \<and>
     unat (pm_paddr m) + unat (pm_num_pages m) * 4096 < 2 ^ 64"

definition buf_bytes :: "pop_buf \<Rightarrow> nat set" where
  "buf_bytes b = span (pb_vaddr b) (pb_size b)"

definition buf_phys_bytes :: "pop_buf \<Rightarrow> nat set" where
  "buf_phys_bytes b = span (pb_paddr b) (pb_size b)"

definition free_from :: "addr \<Rightarrow> pop_mem \<Rightarrow> nat set" where
  "free_from base m = {unat base + unat (pm_alloced_pages m) * 4096 ..<
                       unat base + unat (pm_num_pages m) * 4096}"

definition free_bytes :: "pop_mem \<Rightarrow> nat set" where
  "free_bytes m = free_from (pm_mem m) m"

definition free_phys_bytes :: "pop_mem \<Rightarrow> nat set" where
  "free_phys_bytes m = free_from (pm_paddr m) m"

definition free_pages :: "pop_mem \<Rightarrow> nat" where
  "free_pages m = unat (pm_num_pages m) - unat (pm_alloced_pages m)"

lemma mem_ok_bounds:
  assumes "mem_ok m"
  shows "unat (pm_mem m) + unat (pm_num_pages m) * 4096 < 2 ^ 64"
    and "unat (pm_paddr m) + unat (pm_num_pages m) * 4096 < 2 ^ 64"
  using assms by (simp_all add: mem_ok_def)

text \<open>Addresses inside the region are computed without wrap-around.\<close>

lemma unat_page_addr:
  assumes "unat base + n * 4096 < 2 ^ 64" "unat k \<le> n"
  shows "unat (base + pages_to_bytes k) = unat base + unat k * 4096"
proof -
  have "unat k * 4096 \<le> n * 4096" using assms(2) by simp
  then have "unat k * 4096 < 2 ^ 64" "unat base + unat k * 4096 < 2 ^ 64" using assms(1) by linarith+
  then show ?thesis by (simp add: nowrap)
qed

lemma alloc_pages_cases:
  assumes "mem_ok m"
  shows "alloc_pages mo mp m n =
    (if free_pages m < unat n then (Inl ENOBUFS, m) else if \<not> mo then (Inl ENOMEM, m)
     else (Inr (fill_buf mp m n), m\<lparr>pm_alloced_pages := pm_alloced_pages m + n\<rparr>))"
  using assms by (simp add: alloc_pages_def free_pages_def mem_ok_def word_nat nowrap)

text \<open>The call in one step, for every size on which the loop ends.\<close>

lemma pop_buf_alloc_cases:
  assumes "mem_ok m" "\<not> pm_mutex m" "unat sz \<le> 2 ^ 64 - 4096"
  shows "pop_buf_alloc mo mp m sz =
    (let n = of_nat (pages_needed (unat sz)) in
     Some (if free_pages m < pages_needed (unat sz) then (Inl ENOBUFS, m)
       else if \<not> mo then (Inl ENOMEM, m)
       else (Inr (fill_buf mp m n), m\<lparr>pm_alloced_pages := pm_alloced_pages m + n\<rparr>)))"
proof -
  let ?n = "of_nat (pages_needed (unat sz)) :: u64"
  let ?m = "m\<lparr>pm_mutex := True\<rparr>"
  have n: "unat ?n = pages_needed (unat sz)"
    using pages_needed_le [OF assms(3)] by (simp add: nowrap)
  have "mem_ok ?m" "free_pages ?m = free_pages m" "fill_buf mp ?m ?n = fill_buf mp m ?n"
    using assms(1) by (simp_all add: mem_ok_def free_pages_def fill_buf_def)
  with assms(2) n show ?thesis
    by (simp add: pop_buf_alloc_def count_pages_total [OF assms(3)] alloc_pages_cases Let_def)
qed

lemma pop_buf_alloc_returns_iff:
  "pop_buf_alloc mo mp m sz = None \<longleftrightarrow> pm_mutex m \<or> 2 ^ 64 - 4096 < unat sz"
proof (cases "2 ^ 64 - 4096 < unat sz")
  case True
  then show ?thesis by (simp add: pop_buf_alloc_def count_pages_diverges)
next
  case False
  then have "count_pages 0 sz \<noteq> None" using count_pages_total by simp
  with False show ?thesis
    by (auto simp: pop_buf_alloc_def Let_def split: option.splits prod.splits)
qed

text \<open>A granted buffer starts where the free part of the region starts and takes its pages.\<close>

lemma unat_alloced_add:
  assumes "mem_ok m" "unat n \<le> free_pages m"
  shows "unat (pm_alloced_pages m + n) = unat (pm_alloced_pages m) + unat n"
proof -
  have "unat (pm_alloced_pages m) \<le> unat (pm_num_pages m)" using assms(1) by (simp add: mem_ok_def word_nat)
  with assms(2) have "unat (pm_alloced_pages m) + unat n \<le> unat (pm_num_pages m)"
    by (simp add: free_pages_def)
  with unat_u64_less [of "pm_num_pages m"] show ?thesis by (simp add: nowrap)
qed

lemma mem_ok_alloced:
  assumes "mem_ok m" "unat n \<le> free_pages m"
  shows "mem_ok (m\<lparr>pm_alloced_pages := pm_alloced_pages m + n\<rparr>)"
proof -
  have "unat (pm_alloced_pages m) + unat n \<le> unat (pm_num_pages m)"
    using assms by (auto simp: mem_ok_def free_pages_def word_nat)
  then show ?thesis
    using assms(1) unat_alloced_add [OF assms] by (simp add: mem_ok_def word_nat)
qed

lemma unat_granted_size:
  assumes "mem_ok m" "unat n \<le> free_pages m"
  shows "unat (pages_to_bytes n) = unat n * 4096"
proof -
  have "unat n * 4096 \<le> unat (pm_num_pages m) * 4096" using assms(2) by (simp add: free_pages_def)
  then show ?thesis using assms(1) by (simp add: mem_ok_def nowrap)
qed

lemma span_of_page:
  assumes "mem_ok m" "unat n \<le> free_pages m" "unat base + unat (pm_num_pages m) * 4096 < 2 ^ 64"
  shows "span (base + pages_to_bytes (pm_alloced_pages m)) (pages_to_bytes n) \<subseteq> free_from base m \<and>
    free_from base (m\<lparr>pm_alloced_pages := pm_alloced_pages m + n\<rparr>)
      = free_from base m - span (base + pages_to_bytes (pm_alloced_pages m)) (pages_to_bytes n)"
proof -
  have a: "unat (pm_alloced_pages m) \<le> unat (pm_num_pages m)"
    using assms(1) by (simp add: mem_ok_def word_nat)
  have s: "span (base + pages_to_bytes (pm_alloced_pages m)) (pages_to_bytes n)
      = {unat base + unat (pm_alloced_pages m) * 4096 ..<
         unat base + unat (pm_alloced_pages m) * 4096 + unat n * 4096}"
    using unat_page_addr [OF assms(3) a] unat_granted_size [OF assms(1,2)] by (simp add: span_def)
  have "unat (pm_alloced_pages m) + unat n \<le> unat (pm_num_pages m)"
    using assms(2) a by (simp add: free_pages_def)
  then show ?thesis
    using unat_alloced_add [OF assms(1,2)] unfolding s by (auto simp: free_from_def)
qed

section \<open>A pool of pages\<close>

text \<open>
  A request to the allocator, answered by a buffer or an error, and a sequence of requests. The
  request carries what varies between calls: here the size and the answer of \<^verbatim>\<open>malloc\<close>.
\<close>

fun alloc_run :: "('r \<Rightarrow> 'm \<Rightarrow> (('e + 'b) \<times> 'm) option) \<Rightarrow> 'r list \<Rightarrow> 'm \<Rightarrow> (('e + 'b) list \<times> 'm) option" where
  "alloc_run alloc [] m = Some ([], m)"
| "alloc_run alloc (r # rs) m =
     (case alloc r m of
        None \<Rightarrow> None
      | Some (x, m1) \<Rightarrow>
          (case alloc_run alloc rs m1 of None \<Rightarrow> None | Some (xs, m2) \<Rightarrow> Some (x # xs, m2)))"

definition granted :: "('e + 'b) list \<Rightarrow> 'b list" where
  "granted xs = map projr (filter (Not \<circ> isl) xs)"

lemma granted_simps [simp]:
  "granted [] = []" "granted (Inl e # xs) = granted xs" "granted (Inr b # xs) = b # granted xs"
  by (simp_all add: granted_def)

lemma alloc_run_append:
  "alloc_run alloc (rs @ qs) m =
     (case alloc_run alloc rs m of None \<Rightarrow> None
      | Some (xs, m1) \<Rightarrow>
          (case alloc_run alloc qs m1 of None \<Rightarrow> None | Some (ys, m2) \<Rightarrow> Some (xs @ ys, m2)))"
  by (induction rs arbitrary: m) (auto split: option.splits)

text \<open>
  The interface: \<open>avail m\<close> is what the pool can still hand out, \<open>extent b\<close> what a buffer occupies.
\<close>

locale page_pool =
  fixes alloc :: "'r \<Rightarrow> 'm \<Rightarrow> (('e + 'b) \<times> 'm) option"
    and avail :: "'m \<Rightarrow> 'x set"
    and extent :: "'b \<Rightarrow> 'x set"
    and inv :: "'m \<Rightarrow> bool"
  assumes grant: "inv m \<Longrightarrow> alloc r m = Some (Inr b, m') \<Longrightarrow>
      inv m' \<and> extent b \<subseteq> avail m \<and> avail m' = avail m - extent b"
    and refuse: "inv m \<Longrightarrow> alloc r m = Some (Inl e, m') \<Longrightarrow> inv m' \<and> avail m' = avail m"
begin

lemma run_avail:
  assumes "inv m" "alloc_run alloc rs m = Some (xs, m')"
  shows "inv m' \<and> avail m' = avail m - \<Union> (extent ` set (granted xs))
    \<and> \<Union> (extent ` set (granted xs)) \<subseteq> avail m"
  using assms
proof (induction rs arbitrary: m xs)
  case (Cons r rs)
  from Cons.prems(2) obtain x m1 ys where step: "alloc r m = Some (x, m1)"
    and rest: "alloc_run alloc rs m1 = Some (ys, m')" and xs: "xs = x # ys"
    by (auto split: option.splits)
  show ?case
  proof (cases x)
    case (Inl e)
    with step Cons.prems(1) refuse have "inv m1" "avail m1 = avail m" by blast+
    with Cons.IH [OF _ rest] show ?thesis by (simp add: xs Inl)
  next
    case (Inr b)
    with step Cons.prems(1) grant
    have "inv m1" "extent b \<subseteq> avail m" "avail m1 = avail m - extent b" by blast+
    with Cons.IH [OF _ rest] show ?thesis by (auto simp: xs Inr)
  qed
qed simp

lemma run_disjoint:
  assumes "inv m" "alloc_run alloc rs m = Some (xs, m')"
  shows "sorted_wrt (\<lambda>b c. extent b \<inter> extent c = {}) (granted xs)"
  using assms
proof (induction rs arbitrary: m xs)
  case (Cons r rs)
  from Cons.prems(2) obtain x m1 ys where step: "alloc r m = Some (x, m1)"
    and rest: "alloc_run alloc rs m1 = Some (ys, m')" and xs: "xs = x # ys"
    by (auto split: option.splits)
  have "inv m1" using step Cons.prems(1) grant refuse by (cases x) blast+
  note later = Cons.IH [OF this rest] run_avail [OF this rest]
  show ?case
  proof (cases x)
    case (Inr b)
    with step Cons.prems(1) grant have "avail m1 = avail m - extent b" by blast
    with later show ?thesis by (auto simp: xs Inr)
  qed (use later in \<open>simp add: xs\<close>)
qed simp

end

text \<open>
  \<^verbatim>\<open>pop_buf_alloc\<close> provides the interface twice: over the virtual addresses of the region and
  over its physical addresses.
\<close>

type_synonym alloc_req = "bool \<times> addr \<times> u64"

fun alloc_req_run :: "alloc_req \<Rightarrow> pop_mem \<Rightarrow> ((errno + pop_buf) \<times> pop_mem) option" where
  "alloc_req_run (mo, mp, sz) m = pop_buf_alloc mo mp m sz"

lemma pop_buf_alloc_granted:
  assumes "mem_ok m" "pop_buf_alloc mo mp m sz = Some (Inr b, m')"
  obtains n where "unat n \<le> free_pages m" "b = fill_buf mp m n" "unat n = pages_needed (unat sz)"
    "m' = m\<lparr>pm_alloced_pages := pm_alloced_pages m + n\<rparr>" "\<not> pm_mutex m"
proof -
  have r: "\<not> pm_mutex m" "unat sz \<le> 2 ^ 64 - 4096"
    using pop_buf_alloc_returns_iff [of mo mp m sz] assms(2) by auto
  let ?n = "of_nat (pages_needed (unat sz)) :: u64"
  have "unat ?n = pages_needed (unat sz)"
    using pages_needed_le [OF r(2)] by (simp add: nowrap)
  then show thesis
    using assms(2) r(1)
    by (intro that [of ?n]) (auto simp: pop_buf_alloc_cases [OF assms(1) r] Let_def split: if_splits)
qed

lemma pop_buf_alloc_refused:
  assumes "mem_ok m" "pop_buf_alloc mo mp m sz = Some (Inl e, m')"
  shows "m' = m"
proof -
  have "\<not> pm_mutex m" "unat sz \<le> 2 ^ 64 - 4096"
    using pop_buf_alloc_returns_iff [of mo mp m sz] assms(2) by auto
  then show ?thesis
    using assms(2) by (auto simp: pop_buf_alloc_cases [OF assms(1)] Let_def split: if_splits)
qed

lemma alloc_req_granted:
  assumes "mem_ok m" "alloc_req_run r m = Some (Inr b, m')"
    and "unat base + unat (pm_num_pages m) * 4096 < 2 ^ 64"
  shows "mem_ok m' \<and> pm_mem m' = pm_mem m \<and> pm_paddr m' = pm_paddr m \<and>
    (let e = span (base + pages_to_bytes (pm_alloced_pages m)) (pb_size b) in
     e \<subseteq> free_from base m \<and> free_from base m' = free_from base m - e) \<and>
    pb_vaddr b = pm_mem m + pages_to_bytes (pm_alloced_pages m) \<and>
    pb_paddr b = pm_paddr m + pages_to_bytes (pm_alloced_pages m)"
proof -
  obtain mo mp sz where "r = (mo, mp, sz)" by (cases r)
  with assms(2) have "pop_buf_alloc mo mp m sz = Some (Inr b, m')" by simp
  then obtain n where n: "unat n \<le> free_pages m" and b: "b = fill_buf mp m n"
    and m': "m' = m\<lparr>pm_alloced_pages := pm_alloced_pages m + n\<rparr>"
    using pop_buf_alloc_granted assms(1) by metis
  show ?thesis
    using span_of_page [OF assms(1) n assms(3)] mem_ok_alloced [OF assms(1) n]
    by (simp add: b m' fill_buf_def)
qed

lemma alloc_req_refused: "mem_ok m \<Longrightarrow> alloc_req_run r m = Some (Inl e, m') \<Longrightarrow> m' = m"
  using pop_buf_alloc_refused by (cases r) auto

interpretation virt: page_pool alloc_req_run free_bytes buf_bytes mem_ok
proof
  show "mem_ok m' \<and> buf_bytes b \<subseteq> free_bytes m \<and> free_bytes m' = free_bytes m - buf_bytes b"
    if "mem_ok m" "alloc_req_run r m = Some (Inr b, m')" for m r b m'
    using alloc_req_granted [OF that mem_ok_bounds(1) [OF that(1)]]
    by (simp add: Let_def buf_bytes_def free_bytes_def)
qed (auto dest: alloc_req_refused)

interpretation phys: page_pool alloc_req_run free_phys_bytes buf_phys_bytes mem_ok
proof
  show "mem_ok m' \<and> buf_phys_bytes b \<subseteq> free_phys_bytes m \<and>
      free_phys_bytes m' = free_phys_bytes m - buf_phys_bytes b"
    if "mem_ok m" "alloc_req_run r m = Some (Inr b, m')" for m r b m'
    using alloc_req_granted [OF that mem_ok_bounds(2) [OF that(1)]]
    by (simp add: Let_def buf_phys_bytes_def free_phys_bytes_def)
qed (auto dest: alloc_req_refused)

section \<open>A buffer with a movable window\<close>

text \<open>The calls that move the window, and what they are meant to do to the bounds of the data.\<close>

datatype buf_op = Put u64 | Trim u64 | Pull u64 | Push u64

fun buf_step :: "buf_op \<Rightarrow> pop_buf \<Rightarrow> addr \<times> pop_buf" where
  "buf_step (Put n) b = pop_buf_put b n"
| "buf_step (Trim n) b = pop_buf_trim b n"
| "buf_step (Pull n) b = pop_buf_pull b n"
| "buf_step (Push n) b = pop_buf_push b n"

fun win_step :: "nat \<Rightarrow> buf_op \<Rightarrow> nat \<times> nat \<Rightarrow> (nat \<times> nat) option" where
  "win_step cap (Put n) (lo, hi) = (if hi + unat n \<le> cap then Some (lo, hi + unat n) else None)"
| "win_step cap (Trim n) (lo, hi) = (if unat n \<le> hi - lo then Some (lo, hi - unat n) else None)"
| "win_step cap (Pull n) (lo, hi) = (if unat n \<le> hi - lo then Some (lo + unat n, hi) else None)"
| "win_step cap (Push n) (lo, hi) = (if unat n \<le> lo then Some (lo - unat n, hi) else None)"

text \<open>
  \<^verbatim>\<open>pop_buf_put\<close> adds three 64-bit numbers before it compares; a request is small for a buffer
  when that sum cannot wrap around.
\<close>

fun op_small :: "nat \<Rightarrow> buf_op \<Rightarrow> bool" where
  "op_small cap (Put n) \<longleftrightarrow> cap + unat n < 2 ^ 64"
| "op_small cap _ \<longleftrightarrow> True"

fun buf_run :: "('op \<Rightarrow> 'b \<Rightarrow> addr \<times> 'b) \<Rightarrow> 'op list \<Rightarrow> 'b \<Rightarrow> addr list \<times> 'b" where
  "buf_run step [] b = ([], b)"
| "buf_run step (x # xs) b =
     (let (p, b1) = step x b; (ps, b2) = buf_run step xs b1 in (p # ps, b2))"

text \<open>The intended results: the window after the calls, and for each call the address of the data
  or \<^verbatim>\<open>NULL\<close> when the call is refused and changes nothing.\<close>

fun win_run :: "addr \<Rightarrow> nat \<Rightarrow> buf_op list \<Rightarrow> nat \<times> nat \<Rightarrow> addr list \<times> nat \<times> nat" where
  "win_run base cap [] w = ([], w)"
| "win_run base cap (x # xs) w =
     (case win_step cap x w of
        None \<Rightarrow> (let (ps, w') = win_run base cap xs w in (0 # ps, w'))
      | Some w1 \<Rightarrow>
          (let (ps, w') = win_run base cap xs w1 in ((base + of_nat (fst w1)) # ps, w')))"

locale window_buffer =
  fixes step :: "buf_op \<Rightarrow> 'b \<Rightarrow> addr \<times> 'b"
    and window :: "'b \<Rightarrow> nat \<times> nat"
    and cap :: "'b \<Rightarrow> nat"
    and base :: "'b \<Rightarrow> addr"
    and inv :: "'b \<Rightarrow> bool"
  assumes window_bounds: "inv b \<Longrightarrow> fst (window b) \<le> snd (window b) \<and> snd (window b) \<le> cap b"
    and step_refused: "inv b \<Longrightarrow> op_small (cap b) x \<Longrightarrow> win_step (cap b) x (window b) = None \<Longrightarrow>
      step x b = (0, b)"
    and step_taken: "inv b \<Longrightarrow> op_small (cap b) x \<Longrightarrow> win_step (cap b) x (window b) = Some w \<Longrightarrow>
      \<exists>b'. step x b = (base b + of_nat (fst w), b') \<and> window b' = w \<and> cap b' = cap b \<and>
        base b' = base b \<and> inv b'"
begin

lemma run_window:
  assumes "inv b" "\<forall>x \<in> set xs. op_small (cap b) x"
  shows "\<exists>b'. buf_run step xs b = (fst (win_run (base b) (cap b) xs (window b)), b') \<and>
    window b' = snd (win_run (base b) (cap b) xs (window b)) \<and>
    cap b' = cap b \<and> base b' = base b \<and> inv b'"
  using assms
proof (induction xs arbitrary: b)
  case (Cons x xs)
  then have small: "op_small (cap b) x" by simp
  show ?case
  proof (cases "win_step (cap b) x (window b)")
    case None
    with Cons step_refused [OF Cons.prems(1) small] show ?thesis
      by (fastforce split: prod.splits)
  next
    case (Some w)
    from step_taken [OF Cons.prems(1) small Some] obtain b1 where
      b1: "step x b = (base b + of_nat (fst w), b1)" "window b1 = w" "cap b1 = cap b"
        "base b1 = base b" "inv b1" by blast
    with Cons.prems have "\<forall>x \<in> set xs. op_small (cap b1) x" by simp
    from Cons.IH [OF b1(5) this] b1 Some show ?thesis
      by (fastforce split: prod.splits)
  qed
qed simp

text \<open>Taking back the last call: what \<^verbatim>\<open>put\<close> adds \<^verbatim>\<open>trim\<close> removes, what
  \<^verbatim>\<open>pull\<close> hides \<^verbatim>\<open>push\<close> shows again.\<close>

lemma undo_put_pull:
  assumes "inv b"
  shows "win_step (cap b) (Put n) (window b) = Some w \<Longrightarrow> win_step (cap b) (Trim n) w = Some (window b)"
    and "win_step (cap b) (Pull n) (window b) = Some w \<Longrightarrow> win_step (cap b) (Push n) w = Some (window b)"
  using window_bounds [OF assms] by (cases "window b"; auto split: if_splits)+

lemma put_trim:
  assumes "inv b" "cap b + unat n < 2 ^ 64" "win_step (cap b) (Put n) (window b) \<noteq> None"
  shows "window (snd (step (Trim n) (snd (step (Put n) b)))) = window b"
proof -
  from assms(3) obtain w where w: "win_step (cap b) (Put n) (window b) = Some w" by blast
  with step_taken [OF assms(1) _ w] assms(2) obtain b' where
    b': "snd (step (Put n) b) = b'" "window b' = w" "cap b' = cap b" "inv b'" by auto
  then have "win_step (cap b') (Trim n) (window b') = Some (window b)"
    using undo_put_pull(1) [OF assms(1) w] by simp
  from step_taken [OF b'(4) _ this] b'(1) show ?thesis by auto
qed

lemma pull_push:
  assumes "inv b" "win_step (cap b) (Pull n) (window b) \<noteq> None"
  shows "window (snd (step (Push n) (snd (step (Pull n) b)))) = window b"
proof -
  from assms(2) obtain w where w: "win_step (cap b) (Pull n) (window b) = Some w" by blast
  with step_taken [OF assms(1) _ w] obtain b' where
    b': "snd (step (Pull n) b) = b'" "window b' = w" "cap b' = cap b" "inv b'" by auto
  then have "win_step (cap b') (Push n) (window b') = Some (window b)"
    using undo_put_pull(2) [OF assms(1) w] by simp
  from step_taken [OF b'(4) _ this] b'(1) show ?thesis by auto
qed

end

text \<open>The representation: the window of a \<^verbatim>\<open>pop_buf_t\<close> starts at \<^verbatim>\<open>offset\<close> and is
  \<^verbatim>\<open>length\<close> bytes long.\<close>

definition buf_ok :: "pop_buf \<Rightarrow> bool" where
  "buf_ok b \<longleftrightarrow> unat (pb_offset b) + unat (pb_length b) \<le> unat (pb_size b)"

definition buf_window :: "pop_buf \<Rightarrow> nat \<times> nat" where
  "buf_window b = (unat (pb_offset b), unat (pb_offset b) + unat (pb_length b))"

abbreviation buf_cap :: "pop_buf \<Rightarrow> nat" where
  "buf_cap b \<equiv> unat (pb_size b)"

lemma buf_window_bounds:
  "buf_ok b \<Longrightarrow> fst (buf_window b) \<le> snd (buf_window b) \<and> snd (buf_window b) \<le> buf_cap b"
  by (simp add: buf_ok_def buf_window_def)

lemma unat_end:
  assumes "buf_ok b" "op_small (buf_cap b) (Put n)"
  shows "unat (pb_offset b + pb_length b + n) = unat (pb_offset b) + unat (pb_length b) + unat n"
    and "unat (pb_length b + n) = unat (pb_length b) + unat n"
  using assms by (simp_all add: buf_ok_def nowrap)

lemma buf_step_refused:
  assumes "buf_ok b" "op_small (buf_cap b) x" "win_step (buf_cap b) x (buf_window b) = None"
  shows "buf_step x b = (0, b)"
  using assms unat_end [OF assms(1)]
  by (cases x) (auto simp: buf_window_def word_nat pop_buf_put_def pop_buf_trim_def
      pop_buf_pull_def pop_buf_push_def split: if_splits)

lemma buf_step_taken:
  assumes "buf_ok b" "op_small (buf_cap b) x" "win_step (buf_cap b) x (buf_window b) = Some w"
  shows "\<exists>b'. buf_step x b = (pb_vaddr b + of_nat (fst w), b') \<and> buf_window b' = w \<and>
    buf_cap b' = buf_cap b \<and> pb_vaddr b' = pb_vaddr b \<and> buf_ok b'"
proof (cases x)
  case (Put n)
  with assms unat_end [OF assms(1)] show ?thesis
    by (auto simp: buf_window_def buf_ok_def word_nat pop_buf_put_def pop_buf_data_def Let_def
        split: if_splits)
next
  case (Trim n)
  with assms show ?thesis
    by (auto simp: buf_window_def buf_ok_def word_nat nowrap pop_buf_trim_def pop_buf_data_def Let_def
        split: if_splits)
next
  case (Pull n)
  with assms(3) have "unat n \<le> unat (pb_length b)" by (auto simp: buf_window_def split: if_splits)
  moreover from this have "unat (pb_offset b + n) = unat (pb_offset b) + unat n"
    using assms(1) unat_u64_less [of "pb_size b"] by (auto simp: buf_ok_def nowrap)
  ultimately show ?thesis
    using Pull assms
    by (auto simp: buf_window_def buf_ok_def word_nat nowrap pop_buf_pull_def pop_buf_data_def Let_def
        split: if_splits)
next
  case (Push n)
  with assms(3) have "unat n \<le> unat (pb_offset b)" by (auto simp: buf_window_def split: if_splits)
  moreover from this have "unat (pb_length b + n) = unat (pb_length b) + unat n"
    using assms(1) unat_u64_less [of "pb_size b"] by (auto simp: buf_ok_def nowrap)
  ultimately show ?thesis
    using Push assms
    by (auto simp: buf_window_def buf_ok_def word_nat nowrap pop_buf_push_def pop_buf_data_def Let_def
        split: if_splits)
qed

interpretation pbuf: window_buffer buf_step buf_window buf_cap pb_vaddr buf_ok
  by unfold_locales (simp_all add: buf_window_bounds buf_step_refused buf_step_taken)

text \<open>The calls leave the placement of the buffer alone.\<close>

lemma buf_step_placement:
  "pb_mem (snd (buf_step x b)) = pb_mem b \<and> pb_vaddr (snd (buf_step x b)) = pb_vaddr b \<and>
   pb_paddr (snd (buf_step x b)) = pb_paddr b \<and> pb_size (snd (buf_step x b)) = pb_size b"
  by (cases x) (simp_all add: pop_buf_put_def pop_buf_trim_def pop_buf_pull_def pop_buf_push_def Let_def)

lemma buf_run_paddr: "pb_paddr (snd (buf_run buf_step xs b)) = pb_paddr b"
  by (induction xs arbitrary: b) (simp_all add: buf_step_placement split: prod.splits, metis buf_step_placement snd_conv)

lemma buf_ok_fill: "buf_ok (fill_buf mp m n)"
  by (simp add: buf_ok_def fill_buf_def)

section \<open>Address translation\<close>

text \<open>A buffer of the region: a whole number of pages into it, at the same distance from the virtual
  and from the physical start.\<close>

definition buf_of_mem :: "pop_mem \<Rightarrow> pop_buf \<Rightarrow> bool" where
  "buf_of_mem m b \<longleftrightarrow> (\<exists>k. pb_vaddr b = pm_mem m + pages_to_bytes k \<and>
     pb_paddr b = pm_paddr m + pages_to_bytes k \<and>
     unat (pages_to_bytes k) = unat k * 4096 \<and>
     unat k * 4096 + unat (pb_size b) \<le> unat (pm_num_pages m) * 4096)"

lemma buf_of_mem_fill:
  assumes "mem_ok m" "unat n \<le> free_pages m"
  shows "buf_of_mem m (fill_buf mp m n)"
proof -
  let ?a = "pm_alloced_pages m"
  have a: "unat ?a \<le> unat (pm_num_pages m)" using assms(1) by (simp add: mem_ok_def word_nat)
  then have "unat ?a * 4096 \<le> unat (pm_num_pages m) * 4096" by simp
  then have "unat (pages_to_bytes ?a) = unat ?a * 4096"
    using mem_ok_bounds(1) [OF assms(1)] by (simp add: nowrap)
  moreover have "unat ?a * 4096 + unat n * 4096 \<le> unat (pm_num_pages m) * 4096"
    using a assms(2) by (simp add: free_pages_def)
  ultimately show ?thesis
    using unat_granted_size [OF assms]
    by (auto simp: buf_of_mem_def fill_buf_def intro!: exI [of _ ?a])
qed

lemma pop_virt_to_phys_buf:
  assumes "mem_ok m" "buf_of_mem m b" "unat i \<le> unat (pb_size b)"
    and "unat (pm_num_pages m) * 4096 \<le> unat (pm_size m)" "unat (pm_mem m) + unat (pm_size m) < 2 ^ 64"
  shows "pop_virt_to_phys m (pb_vaddr b + i) = pb_paddr b + i"
proof -
  from assms(2) obtain k where k: "pb_vaddr b = pm_mem m + pages_to_bytes k"
    "pb_paddr b = pm_paddr m + pages_to_bytes k" "unat (pages_to_bytes k) = unat k * 4096"
    "unat k * 4096 + unat (pb_size b) \<le> unat (pm_num_pages m) * 4096"
    by (auto simp: buf_of_mem_def)
  have "unat (pb_vaddr b + i) = unat (pm_mem m) + unat k * 4096 + unat i"
    using assms(3-5) k by (simp add: nowrap)
  moreover have "unat (pm_mem m + pm_size m) = unat (pm_mem m) + unat (pm_size m)"
    using assms(5) by (simp add: nowrap)
  ultimately have "\<not> (pb_vaddr b + i < pm_mem m \<or> pb_vaddr b + i > pm_mem m + pm_size m)"
    using assms(3,4) k(4) by (simp add: word_nat)
  then show ?thesis
    by (simp add: pop_virt_to_phys_def k)
qed

section \<open>Properties of the buffers\<close>

text \<open>A region of 512 pages, as \<^verbatim>\<open>pop_mem_init(NULL, 2097152)\<close> maps one.\<close>

definition lab_mem :: pop_mem where
  "lab_mem = \<lparr>pm_fd = - 1, pm_devname = strncpy ''hugepage'' 16,
     pm_reg = \<lparr>reg_domain = 0, reg_bus = 0, reg_slot = 0, reg_func = 0, reg_size = 0\<rparr>,
     pm_mem = 0x7F0000000000, pm_paddr = 0x100000000, pm_size = 0x200000, pm_num_pages = 512,
     pm_alloced_pages = 0, pm_mutex = False\<rparr>"

lemma lab_mem_ok [simp]: "mem_ok lab_mem" "\<not> pm_mutex lab_mem" "free_pages lab_mem = 512"
  by (simp_all add: lab_mem_def mem_ok_def free_pages_def)

lemma lab_mem_sel [simp]:
  "pm_mem lab_mem = 0x7F0000000000" "pm_paddr lab_mem = 0x100000000" "pm_size lab_mem = 0x200000"
  "pm_num_pages lab_mem = 512" "pm_alloced_pages lab_mem = 0"
  by (simp_all add: lab_mem_def)

definition lab_buf :: "u64 \<Rightarrow> u64 \<Rightarrow> pop_buf" where
  "lab_buf at n = \<lparr>pb_mem = 0x1000, pb_vaddr = 0x7F0000000000 + at, pb_paddr = 0x100000000 + at,
     pb_size = n, pb_offset = 0, pb_length = 0\<rparr>"

lemma lab_alloc_two:
  "alloc_run alloc_req_run [(True, 0x1000, 5000), (True, 0x1000, 64)] lab_mem
     = Some ([Inr (lab_buf 0 8192), Inr (lab_buf 8192 4096)], lab_mem\<lparr>pm_alloced_pages := 3\<rparr>)"
proof -
  have 1: "pop_buf_alloc True 0x1000 lab_mem 5000
      = Some (Inr (lab_buf 0 8192), lab_mem\<lparr>pm_alloced_pages := 2\<rparr>)"
    by (subst pop_buf_alloc_cases)
      (simp_all add: pages_needed_def fill_buf_def lab_buf_def pages_to_bytes_def)
  let ?m = "lab_mem\<lparr>pm_alloced_pages := 2\<rparr>"
  have m: "mem_ok ?m" "\<not> pm_mutex ?m" "free_pages ?m = 510"
    by (simp_all add: mem_ok_def free_pages_def)
  have 2: "pop_buf_alloc True 0x1000 ?m 64
      = Some (Inr (lab_buf 8192 4096), ?m\<lparr>pm_alloced_pages := 3\<rparr>)"
    by (subst pop_buf_alloc_cases)
      (simp_all add: m pages_needed_def fill_buf_def lab_buf_def pages_to_bytes_def)
  show ?thesis by (simp add: 1 2)
qed

text \<open>
  (C4) Whatever a client asks for, in whatever order and sizes, the buffers that
  \<^verbatim>\<open>pop_buf_alloc\<close> grants from one region never overlap, neither in virtual nor in physical
  memory, and all lie in the part of the region that was free before; the region stays well formed.
\<close>

theorem alloc_run_disjoint:
  assumes "mem_ok m" "alloc_run alloc_req_run rs m = Some (xs, m')"
  shows "mem_ok m' \<and>
    sorted_wrt (\<lambda>b c. buf_bytes b \<inter> buf_bytes c = {} \<and> buf_phys_bytes b \<inter> buf_phys_bytes c = {})
      (granted xs) \<and>
    (\<forall>b \<in> set (granted xs). buf_bytes b \<subseteq> free_bytes m - free_bytes m' \<and>
       buf_phys_bytes b \<subseteq> free_phys_bytes m - free_phys_bytes m')"
  using virt.run_avail [OF assms] virt.run_disjoint [OF assms]
    phys.run_avail [OF assms] phys.run_disjoint [OF assms]
  by (auto simp: sorted_wrt_iff_nth_less)

theorem alloc_run_disjoint_witness:
  "buf_bytes (lab_buf 0 8192) \<inter> buf_bytes (lab_buf 8192 4096) = {} \<and>
   buf_bytes (lab_buf 8192 4096) \<subseteq> free_bytes lab_mem"
  using alloc_run_disjoint [OF lab_mem_ok(1) lab_alloc_two] by auto

text \<open>
  (C20) \<^verbatim>\<open>pop_buf_alloc\<close> on every size for which it returns: it grants a buffer exactly when
  the rounded-up size fits in the pages that are left (and \<^verbatim>\<open>malloc\<close> succeeds), the buffer is
  the least number of pages that holds the request and starts with an empty window where the
  allocated part ends; otherwise it reports \<^verbatim>\<open>ENOBUFS\<close> or \<^verbatim>\<open>ENOMEM\<close> and takes nothing.
\<close>

theorem alloc_grants_iff_fits:
  assumes "mem_ok m" "\<not> pm_mutex m" "unat sz \<le> 2 ^ 64 - 4096"
  shows "\<exists>r m'. pop_buf_alloc mo mp m sz = Some (r, m') \<and> \<not> pm_mutex m' \<and>
    (case r of
       Inl e \<Rightarrow> m' = m \<and> (if free_pages m * 4096 < unat sz then e = ENOBUFS else e = ENOMEM \<and> \<not> mo)
     | Inr b \<Rightarrow> mo \<and> unat sz \<le> free_pages m * 4096 \<and> unat sz \<le> unat (pb_size b) \<and>
         unat (pb_size b) < unat sz + 4096 \<and> buf_window b = (0, 0) \<and> pb_mem b = mp \<and>
         unat (pb_vaddr b) = unat (pm_mem m) + unat (pm_alloced_pages m) * 4096 \<and>
         unat (pb_paddr b) = unat (pm_paddr m) + unat (pm_alloced_pages m) * 4096 \<and>
         free_pages m' * 4096 + unat (pb_size b) = free_pages m * 4096)"
proof -
  let ?n = "of_nat (pages_needed (unat sz)) :: u64"
  have n: "unat ?n = pages_needed (unat sz)"
    using pages_needed_le [OF assms(3)] by (simp add: nowrap)
  have fits: "pages_needed (unat sz) \<le> free_pages m \<longleftrightarrow> unat sz \<le> free_pages m * 4096"
    using pages_needed_least [of "unat sz"] by (meson le_trans mult_le_mono1)
  show ?thesis
  proof (cases "unat ?n \<le> free_pages m \<and> mo")
    case True
    then have f: "unat ?n \<le> free_pages m" by simp
    have "unat (pm_alloced_pages m) \<le> unat (pm_num_pages m)"
      using assms(1) by (simp add: mem_ok_def word_nat)
    then have "unat (pb_vaddr (fill_buf mp m ?n)) = unat (pm_mem m) + unat (pm_alloced_pages m) * 4096"
      "unat (pb_paddr (fill_buf mp m ?n)) = unat (pm_paddr m) + unat (pm_alloced_pages m) * 4096"
      using unat_page_addr mem_ok_bounds [OF assms(1)] by (simp_all add: fill_buf_def)
    moreover have "unat (pb_size (fill_buf mp m ?n)) = pages_needed (unat sz) * 4096"
      using unat_granted_size [OF assms(1) f] n by (simp add: fill_buf_def)
    moreover have "free_pages (m\<lparr>pm_alloced_pages := pm_alloced_pages m + ?n\<rparr>) + unat ?n = free_pages m"
      using unat_alloced_add [OF assms(1) f] f by (simp add: free_pages_def)
    ultimately show ?thesis
      using True n fits assms(2) pages_needed_least(1) [of "unat sz"] pages_needed_upper [of "unat sz"]
      by (auto simp: pop_buf_alloc_cases [OF assms] Let_def buf_window_def fill_buf_def
          simp flip: add_mult_distrib)
  next
    case False
    with n fits assms(2) show ?thesis
      by (auto simp: pop_buf_alloc_cases [OF assms] Let_def not_le [symmetric])
  qed
qed

theorem alloc_grants_iff_fits_witness:
  "\<exists>r m'. pop_buf_alloc True 0x1000 lab_mem 5000 = Some (r, m') \<and> \<not> pm_mutex m' \<and>
     (case r of Inl e \<Rightarrow> False
      | Inr b \<Rightarrow> unat (pb_size b) < 9096 \<and> free_pages m' * 4096 + unat (pb_size b) = 2097152)"
proof -
  have "unat (5000 :: u64) \<le> 2 ^ 64 - 4096" by simp
  from alloc_grants_iff_fits [OF lab_mem_ok(1,2) this, where mo = True and mp = "0x1000"] show ?thesis
    by (auto split: sum.splits)
qed

text \<open>
  (C24) When \<^verbatim>\<open>pop_buf_alloc\<close> fails to return: exactly when the caller's mutex is already held,
  or the request is larger than \<^verbatim>\<open>2^64 - 4096\<close> bytes. In the second case the page loop never
  ends, because \<^verbatim>\<open>nr_pages << PAGE_SHIFT\<close> wraps before it reaches the size, and the mutex stays
  locked.
\<close>

theorem alloc_hangs_iff:
  "pop_buf_alloc mo mp m sz = None \<longleftrightarrow> pm_mutex m \<or> 2 ^ 64 - 4096 < unat sz"
  by (rule pop_buf_alloc_returns_iff)



text \<open>
  \<^verbatim>\<open>pop_buf_put\<close> compares after an addition that may wrap. A length of \<^verbatim>\<open>2^64 - k\<close>,
  with \<open>k\<close> larger than the data but not larger than offset plus data, passes its check: the call does
  not refuse, and leaves a buffer whose window no longer fits in it.
\<close>

lemma put_wraps_past_check:
  assumes "buf_ok b" "unat (pb_length b) < k" "k \<le> unat (pb_offset b) + unat (pb_length b)"
  shows "fst (pop_buf_put b (- of_nat k)) = pop_buf_data b \<and>
    \<not> buf_ok (snd (pop_buf_put b (- of_nat k)))"
proof -
  have le: "k \<le> unat (pb_size b)" using assms(1,3) by (simp add: buf_ok_def)
  then have k: "unat (of_nat k :: u64) = k" using unat_u64_less [of "pb_size b"] by (simp add: nowrap)
  have sum: "unat (pb_offset b + pb_length b) = unat (pb_offset b) + unat (pb_length b)"
    using assms(1) unat_u64_less [of "pb_size b"] by (simp add: buf_ok_def nowrap)
  have "unat (pb_offset b + pb_length b + - of_nat k) = unat (pb_offset b) + unat (pb_length b) - k"
    using assms(3) sum k by (simp add: nowrap)
  then have "\<not> pb_size b < pb_offset b + pb_length b + - of_nat k"
    using assms(1) by (simp add: buf_ok_def word_nat)
  moreover have "unat (pb_length b + - of_nat k) = unat (pb_length b) + 2 ^ 64 - k"
    using assms(2) k unat_sub_if' [of "pb_length b" "of_nat k"] by simp
  ultimately show ?thesis
    using assms le unat_u64_less [of "pb_size b"] by (auto simp: pop_buf_put_def Let_def buf_ok_def pop_buf_data_def)
qed



end
