(* ===== verification/Alloc_Threads.thy ===== *)
theory Alloc_Threads
  imports Pop_Buf
begin

text \<open>
  \<^verbatim>\<open>pop_buf_alloc\<close> called by several threads on one \<^verbatim>\<open>pop_mem_t\<close>. Each statement of the
  function that reads or writes the shared structure is a step of its own, and the steps of
  different threads interleave freely; only \<^verbatim>\<open>pthread_mutex_lock\<close> waits.

  The result is that every interleaving is equivalent to the sequential calls of
  \<^theory_text>\<open>Pop_Buf\<close> in the order in which the threads leave the critical section.
\<close>

section \<open>Steps of one thread\<close>

text \<open>Where a thread is inside the function, with its arguments and its locals.\<close>

datatype tpc =
    Idle
  | Locking alloc_req
  | Counting alloc_req u64
  | Checking alloc_req u64
  | Mallocing alloc_req u64
  | Filling alloc_req u64
  | Updating alloc_req u64 pop_buf
  | Unlocking alloc_req "errno + pop_buf"
  | Returned "errno + pop_buf"

fun thread_step :: "tpc \<Rightarrow> pop_mem \<Rightarrow> (tpc \<times> pop_mem) option" where
  "thread_step Idle m = None"
| "thread_step (Locking r) m =
     (if pm_mutex m then None else Some (Counting r 0, m\<lparr>pm_mutex := True\<rparr>))"
| "thread_step (Counting (mo, mp, sz) n) m =
     Some (if pages_to_bytes n < sz then Counting (mo, mp, sz) (n + 1) else Checking (mo, mp, sz) n, m)"
| "thread_step (Checking r n) m =
     Some (if pm_num_pages m - pm_alloced_pages m < n then Unlocking r (Inl ENOBUFS)
           else Mallocing r n, m)"
| "thread_step (Mallocing (mo, mp, sz) n) m =
     Some (if \<not> mo then Unlocking (mo, mp, sz) (Inl ENOMEM) else Filling (mo, mp, sz) n, m)"
| "thread_step (Filling (mo, mp, sz) n) m = Some (Updating (mo, mp, sz) n (fill_buf mp m n), m)"
| "thread_step (Updating r n b) m =
     Some (Unlocking r (Inr b), m\<lparr>pm_alloced_pages := pm_alloced_pages m + n\<rparr>)"
| "thread_step (Unlocking r x) m = Some (Returned x, m\<lparr>pm_mutex := False\<rparr>)"
| "thread_step (Returned x) m = None"

fun in_section :: "tpc \<Rightarrow> bool" where
  "in_section Idle = False"
| "in_section (Locking r) = False"
| "in_section (Returned x) = False"
| "in_section _ = True"

section \<open>Interleavings\<close>

text \<open>
  The shared structure, the position of every thread, and the requests in the order in which they
  were completed, with their results.
\<close>

record astate =
  shared :: pop_mem
  pcs :: "nat \<Rightarrow> tpc"
  served :: "(alloc_req \<times> (errno + pop_buf)) list"

fun completes :: "tpc \<Rightarrow> (alloc_req \<times> (errno + pop_buf)) list" where
  "completes (Unlocking r x) = [(r, x)]"
| "completes _ = []"

inductive areach :: "pop_mem \<Rightarrow> astate \<Rightarrow> bool" for m0 where
  areach_start: "areach m0 \<lparr>shared = m0, pcs = (\<lambda>_. Idle), served = []\<rparr>"
| areach_call: "areach m0 s \<Longrightarrow> pcs s t = Idle \<or> pcs s t = Returned x \<Longrightarrow>
    areach m0 (s\<lparr>pcs := (pcs s)(t := Locking r)\<rparr>)"
| areach_step: "areach m0 s \<Longrightarrow> thread_step (pcs s t) (shared s) = Some (pc', m') \<Longrightarrow>
    areach m0 \<lparr>shared = m', pcs = (pcs s)(t := pc'), served = served s @ completes (pcs s t)\<rparr>"

section \<open>The critical section\<close>

text \<open>
  What the thread inside the critical section has done so far, relative to \<open>m\<close>, the structure as the
  last completed call left it.
\<close>

fun section_ok :: "pop_mem \<Rightarrow> tpc \<Rightarrow> pop_mem \<Rightarrow> bool" where
  "section_ok m (Counting (mo, mp, sz) n) sh \<longleftrightarrow>
     sh = m\<lparr>pm_mutex := True\<rparr> \<and> count_pages 0 sz = count_pages n sz"
| "section_ok m (Checking (mo, mp, sz) n) sh \<longleftrightarrow>
     sh = m\<lparr>pm_mutex := True\<rparr> \<and> count_pages 0 sz = Some n"
| "section_ok m (Mallocing (mo, mp, sz) n) sh \<longleftrightarrow>
     sh = m\<lparr>pm_mutex := True\<rparr> \<and> count_pages 0 sz = Some n \<and>
     \<not> pm_num_pages m - pm_alloced_pages m < n"
| "section_ok m (Filling (mo, mp, sz) n) sh \<longleftrightarrow>
     sh = m\<lparr>pm_mutex := True\<rparr> \<and> count_pages 0 sz = Some n \<and>
     \<not> pm_num_pages m - pm_alloced_pages m < n \<and> mo"
| "section_ok m (Updating (mo, mp, sz) n b) sh \<longleftrightarrow>
     sh = m\<lparr>pm_mutex := True\<rparr> \<and> count_pages 0 sz = Some n \<and>
     \<not> pm_num_pages m - pm_alloced_pages m < n \<and> mo \<and> b = fill_buf mp sh n"
| "section_ok m (Unlocking (mo, mp, sz) x) sh \<longleftrightarrow>
     pm_mutex sh \<and> pop_buf_alloc mo mp m sz = Some (x, sh\<lparr>pm_mutex := False\<rparr>)"
| "section_ok m pc sh \<longleftrightarrow> sh = m"

lemma section_enter:
  "thread_step (Locking r) m = Some (pc', m') \<Longrightarrow> section_ok m pc' m' \<and> in_section pc' \<and> pm_mutex m'"
  by (cases r) (auto split: if_splits)

lemma section_progress:
  assumes "section_ok m pc sh" "in_section pc" "\<not> pm_mutex m" "thread_step pc sh = Some (pc', sh')"
  shows "(\<exists>r x. pc = Unlocking r x \<and> pc' = Returned x \<and> alloc_req_run r m = Some (x, sh') \<and>
            \<not> pm_mutex sh') \<or>
         completes pc = [] \<and> in_section pc' \<and> section_ok m pc' sh'"
proof (cases pc)
  case (Counting r n)
  with assms show ?thesis
    by (cases r) (auto simp: count_pages.simps [of n])
next
  case (Checking r n)
  with assms show ?thesis
    by (cases r) (auto simp: pop_buf_alloc_def alloc_pages_def)
next
  case (Mallocing r n)
  with assms show ?thesis
    by (cases r) (auto simp: pop_buf_alloc_def alloc_pages_def)
next
  case (Updating r n b)
  with assms show ?thesis
    by (cases r) (auto simp: pop_buf_alloc_def alloc_pages_def)
qed (use assms in \<open>auto split: prod.splits\<close>)

lemma section_locked: "section_ok m pc sh \<Longrightarrow> in_section pc \<Longrightarrow> pm_mutex sh"
  by (cases "(m, pc, sh)" rule: section_ok.cases) auto

section \<open>The invariant of all interleavings\<close>

definition log_run :: "pop_mem \<Rightarrow> astate \<Rightarrow> pop_mem \<Rightarrow> bool" where
  "log_run m0 s m \<longleftrightarrow> alloc_run alloc_req_run (map fst (served s)) m0 = Some (map snd (served s), m)"

definition one_owner :: "astate \<Rightarrow> pop_mem \<Rightarrow> bool" where
  "one_owner s m \<longleftrightarrow>
     (if pm_mutex (shared s)
      then \<exists>t. in_section (pcs s t) \<and> section_ok m (pcs s t) (shared s) \<and>
             (\<forall>u. in_section (pcs s u) \<longrightarrow> u = t)
      else shared s = m \<and> (\<forall>t. \<not> in_section (pcs s t)))"

definition results_logged :: "astate \<Rightarrow> bool" where
  "results_logged s \<longleftrightarrow> (\<forall>t x. pcs s t = Returned x \<longrightarrow> x \<in> snd ` set (served s))"

definition ainv :: "pop_mem \<Rightarrow> astate \<Rightarrow> bool" where
  "ainv m0 s \<longleftrightarrow> results_logged s \<and> (\<exists>m. \<not> pm_mutex m \<and> log_run m0 s m \<and> one_owner s m)"

lemma in_section_nonLocking:
  "thread_step pc m = Some y \<Longrightarrow> (\<exists>r. pc = Locking r) \<or> in_section pc"
  by (cases pc) auto

lemma ainv_lock:
  assumes "ainv m0 s" "pcs s t = Locking r" "thread_step (Locking r) (shared s) = Some (pc', m')"
  shows "ainv m0 \<lparr>shared = m', pcs = (pcs s)(t := pc'), served = served s\<rparr>"
proof -
  have free: "\<not> pm_mutex (shared s)" using assms(3) by (auto split: if_splits)
  with assms(1) have "\<not> pm_mutex (shared s) \<and> log_run m0 s (shared s) \<and>
      (\<forall>t. \<not> in_section (pcs s t)) \<and> results_logged s"
    by (auto simp: ainv_def one_owner_def)
  moreover have "section_ok (shared s) pc' m' \<and> in_section pc' \<and> pm_mutex m'"
    by (rule section_enter [OF assms(3)])
  ultimately show ?thesis
    by (auto simp: ainv_def one_owner_def log_run_def results_logged_def)
qed

lemma ainv_section:
  assumes "ainv m0 s" "in_section (pcs s t)" "thread_step (pcs s t) (shared s) = Some (pc', m')"
  shows "ainv m0 \<lparr>shared = m', pcs = (pcs s)(t := pc'), served = served s @ completes (pcs s t)\<rparr>"
proof -
  from assms(1) obtain m where m: "\<not> pm_mutex m" and log: "log_run m0 s m" and own: "one_owner s m"
    and res: "results_logged s"
    by (auto simp: ainv_def)
  from own assms(2) have sec: "section_ok m (pcs s t) (shared s)"
    and only: "\<forall>u. in_section (pcs s u) \<longrightarrow> u = t"
    by (auto simp: one_owner_def split: if_splits)
  from section_progress [OF sec assms(2) m assms(3)] show ?thesis
  proof (elim disjE exE conjE)
    fix r x
    assume pc: "pcs s t = Unlocking r x" "pc' = Returned x" and run: "alloc_req_run r m = Some (x, m')"
      and free: "\<not> pm_mutex m'"
    have "log_run m0 \<lparr>shared = m', pcs = (pcs s)(t := pc'), served = served s @ [(r, x)]\<rparr> m'"
      using log run by (simp add: log_run_def alloc_run_append)
    with free only res pc show ?thesis
      by (auto simp: ainv_def one_owner_def results_logged_def)
  next
    assume "completes (pcs s t) = []" "in_section pc'" "section_ok m pc' m'"
    moreover from this have "pm_mutex m'" by (blast dest: section_locked)
    ultimately show ?thesis
      using m log only res
      by (auto simp: ainv_def one_owner_def results_logged_def log_run_def)
  qed
qed

lemma ainv_call:
  assumes "ainv m0 s" "\<not> in_section (pcs s t)"
  shows "ainv m0 (s\<lparr>pcs := (pcs s)(t := Locking r)\<rparr>)"
proof -
  let ?s = "s\<lparr>pcs := (pcs s)(t := Locking r)\<rparr>"
  have same: "in_section (pcs ?s u) = in_section (pcs s u)" for u
    using assms(2) by simp
  from assms(1) obtain m where m: "\<not> pm_mutex m" "log_run m0 s m" "one_owner s m"
    unfolding ainv_def by blast
  have "one_owner ?s m"
  proof (cases "pm_mutex (shared s)")
    case True
    then have "\<exists>u. in_section (pcs s u) \<and> section_ok m (pcs s u) (shared s) \<and>
        (\<forall>v. in_section (pcs s v) \<longrightarrow> v = u)"
      using m(3) unfolding one_owner_def by (simp only: if_True)
    then obtain u where u: "in_section (pcs s u)" "section_ok m (pcs s u) (shared s)"
      "\<And>v. in_section (pcs s v) \<Longrightarrow> v = u"
      by blast
    from u(1) assms(2) have "u \<noteq> t" by blast
    then have "in_section (pcs ?s u)" "section_ok m (pcs ?s u) (shared ?s)"
      using u(1,2) by simp_all
    then have "\<exists>u. in_section (pcs ?s u) \<and> section_ok m (pcs ?s u) (shared ?s) \<and>
        (\<forall>v. in_section (pcs ?s v) \<longrightarrow> v = u)"
      using u(3) same by blast
    moreover have "pm_mutex (shared ?s)" using True by simp
    ultimately show ?thesis unfolding one_owner_def by (simp only: if_True)
  next
    case False
    with m(3) same show ?thesis by (simp add: one_owner_def)
  qed
  moreover have "log_run m0 ?s m" using m(2) by (simp add: log_run_def)
  moreover have "results_logged ?s" using assms(1) by (simp add: ainv_def results_logged_def)
  ultimately show ?thesis using m(1) by (auto simp: ainv_def)
qed

lemma ainv_reach:
  assumes "areach m0 s" "\<not> pm_mutex m0"
  shows "ainv m0 s"
  using assms(1)
proof (induction rule: areach.induct)
  case areach_start
  show ?case using assms(2) by (simp add: ainv_def log_run_def one_owner_def results_logged_def)
next
  case (areach_call s t x r)
  then have "\<not> in_section (pcs s t)" by auto
  with areach_call.IH show ?case by (rule ainv_call)
next
  case (areach_step s t pc' m')
  then show ?case
    using in_section_nonLocking [OF areach_step.hyps(2)] ainv_lock [of m0 s t] ainv_section [of m0 s t]
    by auto
qed

section \<open>A call runs to its end\<close>

text \<open>A thread that is scheduled alone for \<open>k\<close> steps.\<close>

fun thread_run :: "nat \<Rightarrow> tpc \<Rightarrow> pop_mem \<Rightarrow> tpc \<times> pop_mem" where
  "thread_run 0 pc m = (pc, m)"
| "thread_run (Suc k) pc m =
     (case thread_step pc m of None \<Rightarrow> (pc, m) | Some (pc', m') \<Rightarrow> thread_run k pc' m')"

lemma thread_run_counting:
  assumes "unat sz \<le> 2 ^ 64 - 4096" "unat n + d = pages_needed (unat sz)"
  shows "thread_run (d + Suc k) (Counting (mo, mp, sz) n) m
    = thread_run k (Checking (mo, mp, sz) (of_nat (pages_needed (unat sz)))) m"
  using assms(2)
proof (induction d arbitrary: n)
  case 0
  then have n: "unat n = pages_needed (unat sz)" "unat n < 2 ^ 52"
    using pages_needed_le [OF assms(1)] by auto
  then have "\<not> pages_to_bytes n < sz"
    using pages_needed_least(1) [of "unat sz"] by (simp add: word_nat nowrap)
  with n(1) show ?case by (simp flip: n(1))
next
  case (Suc d)
  then have lt: "unat n < pages_needed (unat sz)" by simp
  with pages_needed_le [OF assms(1)] have n: "unat n < 2 ^ 52" by simp
  have "\<not> unat sz \<le> unat n * 4096"
    using pages_needed_least(2) lt by (meson leD)
  with n have "pages_to_bytes n < sz" by (simp add: word_nat nowrap)
  moreover have "unat (n + 1) = unat n + 1"
    using n by (subst unat_add_nowrap) auto
  ultimately show ?case
    using Suc.IH [of "n + 1"] Suc.prems by simp
qed

lemma thread_run_5: "thread_run (5 + k) pc m = thread_run (Suc (Suc (Suc (Suc (Suc k))))) pc m"
  by (simp add: numeral_eq_Suc)

lemma thread_run_checked:
  assumes "count_pages 0 sz = Some n" "\<not> pm_mutex m"
  shows "pop_buf_alloc mo mp m sz = Some (x, m') \<Longrightarrow>
    thread_run 5 (Checking (mo, mp, sz) n) (m\<lparr>pm_mutex := True\<rparr>) = (Returned x, m')"
  using assms thread_run_5 [of 0]
  by (auto simp: pop_buf_alloc_def alloc_pages_def Let_def fill_buf_def split: if_splits)

section \<open>Properties of concurrent allocation\<close>

text \<open>A schedule lets the named threads take one step each, in the given order.\<close>

fun schedule :: "nat list \<Rightarrow> astate \<Rightarrow> astate option" where
  "schedule [] s = Some s"
| "schedule (t # ts) s =
     (case thread_step (pcs s t) (shared s) of
        None \<Rightarrow> None
      | Some (pc', m') \<Rightarrow> schedule ts
          \<lparr>shared = m', pcs = (pcs s)(t := pc'), served = served s @ completes (pcs s t)\<rparr>)"

lemma schedule_reach: "areach m0 s \<Longrightarrow> schedule ts s = Some s' \<Longrightarrow> areach m0 s'"
  by (induction ts arbitrary: s) (auto intro: areach_step split: option.splits)

text \<open>
  (C1) Any number of threads may call \<^verbatim>\<open>pop_buf_alloc\<close> on the same region at any time. In every
  reachable state at most one of them is between lock and unlock; the completed calls have the
  results, and the region the content, of the same calls made one after the other; and no two of the
  buffers handed out to any of the threads overlap.
\<close>

theorem threads_linearizable:
  assumes "areach m0 s" "mem_ok m0" "\<not> pm_mutex m0"
  shows "(\<forall>t u. in_section (pcs s t) \<and> in_section (pcs s u) \<longrightarrow> t = u) \<and>
    (\<forall>t x. pcs s t = Returned x \<longrightarrow> x \<in> snd ` set (served s)) \<and>
    (\<exists>m. alloc_run alloc_req_run (map fst (served s)) m0 = Some (map snd (served s), m) \<and>
       (\<not> pm_mutex (shared s) \<longrightarrow> shared s = m)) \<and>
    sorted_wrt (\<lambda>b c. buf_bytes b \<inter> buf_bytes c = {}) (granted (map snd (served s)))"
proof -
  from ainv_reach [OF assms(1,3)] obtain m where res: "results_logged s" and
    log: "alloc_run alloc_req_run (map fst (served s)) m0 = Some (map snd (served s), m)"
    and own: "one_owner s m"
    unfolding ainv_def log_run_def by blast
  have "\<forall>t u. in_section (pcs s t) \<and> in_section (pcs s u) \<longrightarrow> t = u"
    using own unfolding one_owner_def by (metis (full_types))
  moreover have "\<not> pm_mutex (shared s) \<longrightarrow> shared s = m"
    using own by (simp add: one_owner_def)
  ultimately show ?thesis
    using log res virt.run_disjoint [OF assms(2) log] unfolding results_logged_def by blast
qed

text \<open>
  (C23) A call that finds the mutex free and asks for a size for which the page loop ends leaves the
  critical section after a bounded number of its own steps, with the result of the sequential
  function: seven steps and one per page.
\<close>

theorem section_is_bounded:
  assumes "mem_ok m" "\<not> pm_mutex m" "unat sz \<le> 2 ^ 64 - 4096"
  shows "\<exists>x m'. pop_buf_alloc mo mp m sz = Some (x, m') \<and>
    thread_run (pages_needed (unat sz) + 7) (Locking (mo, mp, sz)) m = (Returned x, m') \<and>
    \<not> pm_mutex m'"
proof -
  let ?n = "pages_needed (unat sz)"
  obtain x m' where x: "pop_buf_alloc mo mp m sz = Some (x, m')"
    using pop_buf_alloc_cases [OF assms, of mo mp] by (metis surj_pair)
  have "thread_run (?n + 7) (Locking (mo, mp, sz)) m
      = thread_run (?n + Suc 5) (Counting (mo, mp, sz) 0) (m\<lparr>pm_mutex := True\<rparr>)"
    using assms(2) by (simp add: numeral_eq_Suc)
  also have "\<dots> = thread_run 5 (Checking (mo, mp, sz) (of_nat ?n)) (m\<lparr>pm_mutex := True\<rparr>)"
    by (rule thread_run_counting [OF assms(3)]) simp
  also have "\<dots> = (Returned x, m')"
    by (rule thread_run_checked [OF count_pages_total [OF assms(3)] assms(2) x])
  moreover have "\<not> pm_mutex m'"
    using x assms(2) by (auto simp: pop_buf_alloc_cases [OF assms] Let_def split: if_splits)
  ultimately show ?thesis using x by simp
qed

text \<open>
  Two threads on the region of \<^const>\<open>lab_mem\<close>: the second waits in \<^verbatim>\<open>pthread_mutex_lock\<close> while
  the first is inside, then takes its turn.
\<close>

definition lab_req :: alloc_req where "lab_req = (True, 0x1000, 64)"

definition lab_start :: astate where
  "lab_start = \<lparr>shared = lab_mem, pcs = (\<lambda>_. Idle)(0 := Locking lab_req, 1 := Locking lab_req),
     served = []\<rparr>"

lemma lab_start_reach: "areach lab_mem lab_start"
proof -
  let ?s0 = "\<lparr>shared = lab_mem, pcs = (\<lambda>_. Idle), served = []\<rparr>"
  let ?s1 = "?s0\<lparr>pcs := (pcs ?s0)(0 := Locking lab_req)\<rparr>"
  have "areach lab_mem ?s1" by (rule areach_call [OF areach_start]) simp
  then have "areach lab_mem (?s1\<lparr>pcs := (pcs ?s1)(1 := Locking lab_req)\<rparr>)" by (rule areach_call) simp
  then show ?thesis by (simp add: lab_start_def)
qed

lemma lab_two_threads:
  "\<exists>s. schedule [0, 0, 0, 0, 0, 0, 0, 0, 1, 1, 1, 1, 1, 1, 1, 1] lab_start = Some s \<and>
     served s = [(lab_req, Inr (lab_buf 0 4096)), (lab_req, Inr (lab_buf 4096 4096))] \<and>
     shared s = lab_mem\<lparr>pm_alloced_pages := 2\<rparr>"
  by (simp add: lab_start_def lab_req_def fill_buf_def lab_buf_def pages_to_bytes_def lab_mem_def
      word_less_nat_alt)

theorem threads_linearizable_witness:
  "\<exists>s. areach lab_mem s \<and>
     served s = [(lab_req, Inr (lab_buf 0 4096)), (lab_req, Inr (lab_buf 4096 4096))] \<and>
     buf_bytes (lab_buf 0 4096) \<inter> buf_bytes (lab_buf 4096 4096) = {} \<and>
     alloc_run alloc_req_run [lab_req, lab_req] lab_mem
       = Some ([Inr (lab_buf 0 4096), Inr (lab_buf 4096 4096)], lab_mem\<lparr>pm_alloced_pages := 2\<rparr>)"
proof -
  from lab_two_threads obtain s where
    run: "schedule [0, 0, 0, 0, 0, 0, 0, 0, 1, 1, 1, 1, 1, 1, 1, 1] lab_start = Some s"
    and s: "served s = [(lab_req, Inr (lab_buf 0 4096)), (lab_req, Inr (lab_buf 4096 4096))]"
      "shared s = lab_mem\<lparr>pm_alloced_pages := 2\<rparr>"
    by blast
  have "areach lab_mem s" by (rule schedule_reach [OF lab_start_reach run])
  with threads_linearizable [OF this lab_mem_ok(1,2)] s show ?thesis
    by (intro exI [of _ s]) (simp add: lab_mem_def)
qed

theorem section_is_bounded_witness:
  "\<exists>x m'. pop_buf_alloc True 0x1000 lab_mem 5000 = Some (x, m') \<and>
     thread_run 9 (Locking (True, 0x1000, 5000)) lab_mem = (Returned x, m')"
proof -
  have "unat (5000 :: u64) \<le> 2 ^ 64 - 4096" by simp
  from section_is_bounded [OF lab_mem_ok(1,2) this, of True "0x1000"] show ?thesis
    by (auto simp: pages_needed_def)
qed

end
