(* ===== verification/Bytes.thy ===== *)
theory Bytes
  imports Pop_Prelude
begin

text \<open>
  Bytes and memory: little-endian and big-endian encodings of numbers, and a byte-addressed memory
  with the loads and stores that the packet builders and the copy loops of \<^verbatim>\<open>apps/\<close> make. The
  host is x86-64, so a C object in memory is little-endian; \<^verbatim>\<open>htons\<close> and \<^verbatim>\<open>htonl\<close> produce the
  big-endian order of the network.
\<close>

section \<open>Encodings\<close>

fun le_bytes :: "nat \<Rightarrow> nat \<Rightarrow> u8 list" where
  "le_bytes 0 n = []"
| "le_bytes (Suc k) n = of_nat n # le_bytes k (n div 256)"

fun le_nat :: "u8 list \<Rightarrow> nat" where
  "le_nat [] = 0"
| "le_nat (b # bs) = unat b + 256 * le_nat bs"

definition be_bytes :: "nat \<Rightarrow> nat \<Rightarrow> u8 list" where
  "be_bytes k n = rev (le_bytes k n)"

definition be_nat :: "u8 list \<Rightarrow> nat" where
  "be_nat bs = le_nat (rev bs)"

lemma length_le_bytes [simp]: "length (le_bytes k n) = k"
  by (induction k arbitrary: n) auto

lemma length_be_bytes [simp]: "length (be_bytes k n) = k"
  by (simp add: be_bytes_def)

lemma le_nat_le_bytes: "le_nat (le_bytes k n) = n mod 256 ^ k"
proof (induction k arbitrary: n)
  case (Suc k)
  have "n mod 256 ^ Suc k = n mod 256 + 256 * (n div 256 mod 256 ^ k)"
    using mod_mult2_eq [of n 256 "256 ^ k"] by simp
  with Suc show ?case by (simp add: unat_of_nat)
qed simp

lemma be_nat_be_bytes: "be_nat (be_bytes k n) = n mod 256 ^ k"
  by (simp add: be_nat_def be_bytes_def le_nat_le_bytes)

lemma le_nat_less: "le_nat bs < 256 ^ length bs"
proof (induction bs)
  case (Cons b bs)
  moreover have "unat b < 256" using unsigned_less [of b, where ?'a = nat] by simp
  ultimately show ?case by simp
qed simp

lemma le_bytes_le_nat: "le_bytes (length bs) (le_nat bs) = bs"
proof (induction bs)
  case (Cons b bs)
  have b: "unat b < 256" using unsigned_less [of b, where ?'a = nat] by simp
  then have "(unat b + 256 * le_nat bs) div 256 = le_nat bs" by simp
  moreover have "(of_nat (unat b + 256 * le_nat bs) :: u8) = b"
    using b by (simp only: word_unat_eq_iff unat_of_nat) simp
  ultimately show ?case using Cons by simp
qed simp

text \<open>A word stored in its own width is read back unchanged.\<close>

lemma le_word_roundtrip: "256 ^ k = (2 :: nat) ^ LENGTH('a) \<Longrightarrow>
    (of_nat (le_nat (le_bytes k (unat w))) :: 'a::len word) = w"
  using unsigned_less [of w, where ?'a = nat] by (simp add: le_nat_le_bytes)

section \<open>Memory\<close>

type_synonym memory = "addr \<Rightarrow> u8"

fun store :: "memory \<Rightarrow> addr \<Rightarrow> u8 list \<Rightarrow> memory" where
  "store m a [] = m"
| "store m a (b # bs) = store (m(a := b)) (a + 1) bs"

fun load :: "memory \<Rightarrow> addr \<Rightarrow> nat \<Rightarrow> u8 list" where
  "load m a 0 = []"
| "load m a (Suc n) = m a # load m (a + 1) n"

lemma length_load [simp]: "length (load m a n) = n"
  by (induction n arbitrary: a) auto

text \<open>The addresses of \<open>n\<close> bytes from \<open>a\<close>; the range may wrap around the address space.\<close>

definition range_of :: "addr \<Rightarrow> nat \<Rightarrow> addr set" where
  "range_of a n = (\<lambda>i. a + of_nat i) ` {..<n}"

lemma range_of_0 [simp]: "range_of a 0 = {}"
  by (simp add: range_of_def)

lemma range_of_Suc: "range_of a (Suc n) = insert a (range_of (a + 1) n)"
proof -
  have "{..<Suc n} = insert 0 (Suc ` {..<n})" by (rule lessThan_Suc_eq_insert_0)
  then show ?thesis by (simp add: range_of_def image_image add.assoc)
qed

lemma range_of_next: "n < 2 ^ 64 \<Longrightarrow> a \<notin> range_of (a + 1) n"
proof
  assume "n < 2 ^ 64" "a \<in> range_of (a + 1) n"
  then obtain i where i: "i < n" "a = a + 1 + of_nat i" by (auto simp: range_of_def)
  then have "a + of_nat (Suc i) = a" by (simp add: add.assoc)
  then have "(of_nat (Suc i) :: addr) = 0" by (simp only: add_cancel_left_right)
  then have "(2 :: nat) ^ 64 dvd Suc i"
    by (simp add: word_of_nat_eq_0_iff del: of_nat_Suc)
  with \<open>n < 2 ^ 64\<close> i(1) show False by (auto dest: dvd_imp_le)
qed

lemma store_outside: "x \<notin> range_of a (length bs) \<Longrightarrow> store m a bs x = m x"
  by (induction bs arbitrary: m a) (auto simp: range_of_Suc)

lemma load_cong: "(\<And>x. x \<in> range_of a n \<Longrightarrow> m x = m' x) \<Longrightarrow> load m a n = load m' a n"
  by (induction n arbitrary: a) (auto simp: range_of_Suc)

lemma load_store: "length bs \<le> 2 ^ 64 \<Longrightarrow> load (store m a bs) a (length bs) = bs"
proof (induction bs arbitrary: m a)
  case (Cons b bs)
  then have "a \<notin> range_of (a + 1) (length bs)" by (intro range_of_next) simp
  with Cons show ?case by (simp add: store_outside)
qed simp

lemma load_store_disjoint:
  "range_of a (length bs) \<inter> range_of c n = {} \<Longrightarrow> load (store m a bs) c n = load m c n"
  by (rule load_cong) (auto intro: store_outside)

lemma range_of_subset: "j + n \<le> k \<Longrightarrow> range_of (a + of_nat j) n \<subseteq> range_of a k"
proof
  fix x assume "j + n \<le> k" "x \<in> range_of (a + of_nat j) n"
  then obtain i where "i < n" "x = a + of_nat (j + i)" by (auto simp: range_of_def add.assoc)
  with \<open>j + n \<le> k\<close> show "x \<in> range_of a k"
    unfolding range_of_def by (intro image_eqI [of _ _ "j + i"]) simp_all
qed

lemma range_of_disjoint:
  assumes "j + n \<le> i \<and> i + k \<le> 2 ^ 64 \<or> i + k \<le> j \<and> j + n \<le> 2 ^ 64"
  shows "range_of (a + of_nat j) n \<inter> range_of (a + of_nat i) k = {}"
proof -
  have False if "p < n" "q < k" "of_nat (j + p) = (of_nat (i + q) :: addr)" for p q
  proof -
    have "j + p < 2 ^ 64" "i + q < 2 ^ 64" "j + p \<noteq> i + q" using assms that(1,2) by auto
    then show False using that(3) by (simp only: word_of_nat_eq_iff take_bit_eq_mod) simp
  qed
  then show ?thesis by (auto simp: range_of_def add.assoc simp flip: of_nat_add)
qed

lemma load_append: "load m a (n + k) = load m a n @ load m (a + of_nat n) k"
  by (induction n arbitrary: a) (simp_all add: add.assoc)

lemma store_append: "store m a (xs @ ys) = store (store m a xs) (a + of_nat (length xs)) ys"
  by (induction xs arbitrary: m a) (simp_all add: add.assoc)

lemma range_of_append: "range_of a (n + k) = range_of a n \<union> range_of (a + of_nat n) k"
proof -
  have "{..<n + k} = {..<n} \<union> (+) n ` {..<k}"
    using image_add_atLeastLessThan [of n 0 k] by (auto simp: lessThan_atLeast0)
  then show ?thesis by (simp add: range_of_def image_Un image_image add.assoc)
qed

end
