(* ===== verification/C_Getopt.thy ===== *)
theory C_Getopt
  imports C_Strings
begin

text \<open>
  Command lines. The programs under \<^verbatim>\<open>apps/\<close> and \<^verbatim>\<open>tools/\<close> read their options with
  \<^verbatim>\<open>getopt\<close> in a loop that updates a structure of parameters or returns from \<^verbatim>\<open>main\<close>.

  \<open>getopts\<close> is the sequence of results of \<^verbatim>\<open>getopt\<close> over the arguments; \<open>opt_loop\<close> is the
  loop. The locale \<open>option_parser\<close> is its contract: an invariant of the parameters that the
  defaults satisfy and that every accepted option keeps, and one return value for every refusal.
\<close>

section \<open>getopt\<close>

text \<open>Whether a letter is an option, and whether it takes an argument.\<close>

fun opt_arg :: "string \<Rightarrow> char \<Rightarrow> bool option" where
  "opt_arg [] c = None"
| "opt_arg [d] c = (if d = c \<and> c \<noteq> CHR '':'' then Some False else None)"
| "opt_arg (d # e # r) c =
     (if d = c \<and> c \<noteq> CHR '':'' then Some (e = CHR '':'') else opt_arg (e # r) c)"

text \<open>
  The letters of one argument after its dash. An option with an argument takes the rest of the
  word, or the next word; a letter that is no option and a missing argument give a question mark.
\<close>

fun opt_word :: "string \<Rightarrow> string \<Rightarrow> string list \<Rightarrow> (char \<times> string) list \<times> string list" where
  "opt_word os [] rest = ([], rest)"
| "opt_word os (c # cs) rest =
     (case opt_arg os c of
        Some True \<Rightarrow>
          (if cs \<noteq> [] then ([(c, cs)], rest)
           else case rest of [] \<Rightarrow> ([(CHR ''?'', '''')], []) | a # rest' \<Rightarrow> ([(c, a)], rest'))
      | Some False \<Rightarrow> (let (r, rest') = opt_word os cs rest in ((c, '''') # r, rest'))
      | None \<Rightarrow> (let (r, rest') = opt_word os cs rest in ((CHR ''?'', '''') # r, rest')))"

lemma opt_word_rest: "length (snd (opt_word os cs rest)) \<le> length rest"
  by (induction os cs rest rule: opt_word.induct)
    (auto simp: Let_def split: option.splits bool.splits list.splits prod.splits)

text \<open>Words without a dash are passed over; \<^verbatim>\<open>--\<close> ends the options.\<close>

function getopts :: "string \<Rightarrow> string list \<Rightarrow> (char \<times> string) list" where
  "getopts os [] = []"
| "getopts os (w # ws) =
     (if w = ''--'' then []
      else if w \<noteq> [] \<and> hd w = CHR ''-'' \<and> tl w \<noteq> []
      then fst (opt_word os (tl w) ws) @ getopts os (snd (opt_word os (tl w) ws))
      else getopts os ws)"
  by pat_completeness auto

termination
  by (relation "measure (length \<circ> snd)") (auto simp: le_imp_less_Suc opt_word_rest)

section \<open>The loop\<close>

text \<open>The left result is the value that \<^verbatim>\<open>main\<close> returns.\<close>

fun opt_loop :: "('p \<Rightarrow> char \<times> string \<Rightarrow> int + 'p) \<Rightarrow> (char \<times> string) list \<Rightarrow> 'p \<Rightarrow> int + 'p" where
  "opt_loop step [] p = Inr p"
| "opt_loop step (x # xs) p =
     (case step p x of Inl r \<Rightarrow> Inl r | Inr p' \<Rightarrow> opt_loop step xs p')"

locale option_parser =
  fixes step :: "'p \<Rightarrow> char \<times> string \<Rightarrow> int + 'p"
    and defaults :: 'p
    and inv :: "'p \<Rightarrow> bool"
    and code :: int
  assumes defaults_inv: "inv defaults"
    and step_inv: "inv p \<Longrightarrow> step p x = Inr p' \<Longrightarrow> inv p'"
    and step_return: "step p x = Inl r \<Longrightarrow> r = code"
begin

lemma loop_inv: "inv p \<Longrightarrow> opt_loop step xs p = Inr p' \<Longrightarrow> inv p'"
  by (induction xs arbitrary: p) (auto split: sum.splits dest: step_inv)

lemma loop_return: "opt_loop step xs p = Inl r \<Longrightarrow> r = code"
  by (induction xs arbitrary: p) (auto split: sum.splits dest: step_return)

lemma parsed:
  "case opt_loop step xs defaults of Inl r \<Rightarrow> r = code | Inr p \<Rightarrow> inv p"
  using loop_inv [OF defaults_inv] loop_return by (auto split: sum.splits)

text \<open>An option that is refused whatever the parameters are ends the program.\<close>

lemma refused:
  assumes "x \<in> set xs" "\<And>p. isl (step p x)"
  shows "opt_loop step xs p = Inl code"
proof -
  have "isl (opt_loop step xs p)"
    using assms(1)
  proof (induction xs arbitrary: p)
    case (Cons y ys)
    then show ?case using assms(2) [of p] by (auto split: sum.splits)
  qed simp
  then show ?thesis by (metis isl_def loop_return)
qed

end

end
