(* ===== verification/C_Print.thy ===== *)
theory C_Print
  imports C_Getopt
begin

text \<open>
  The conversions \<^verbatim>\<open>%d\<close>, \<^verbatim>\<open>%u\<close>, \<^verbatim>\<open>%lu\<close> and \<^verbatim>\<open>%lx\<close> of \<^verbatim>\<open>printf\<close>, as the reports of the programs use
  them, and that \<^verbatim>\<open>atoi\<close> and \<^verbatim>\<open>sscanf\<close> read what they print.
\<close>

section \<open>Conversions\<close>

fun to_dec :: "nat \<Rightarrow> string" where
  "to_dec n = (if n < 10 then [xdigit n] else to_dec (n div 10) @ [xdigit (n mod 10)])"

declare to_dec.simps [simp del]

definition show_int :: "int \<Rightarrow> string" where
  "show_int i = (if i < 0 then CHR ''-'' # to_dec (nat (- i)) else to_dec (nat i))"

definition show_lx :: "u64 \<Rightarrow> string" where
  "show_lx w = ''0x'' @ to_hex (unat w)"

definition println :: "string \<Rightarrow> string" where
  "println s = s @ [CHR 0x0A]"

text \<open>Lines of the form \<^verbatim>\<open>label value\<close>.\<close>

definition print_rows :: "(string \<times> string) list \<Rightarrow> string" where
  "print_rows rows = concat (map (\<lambda>(l, v). println (l @ v)) rows)"

text \<open>The letter of the option that a label names: the character after \<^verbatim>\<open>(-\<close>.\<close>

fun label_option :: "string \<Rightarrow> char" where
  "label_option (a # b # c # cs) = (if a = CHR ''('' \<and> b = CHR ''-'' then c else label_option (b # c # cs))"
| "label_option _ = CHR ''?''"

text \<open>The printed values as the arguments of a command line, and as \<^verbatim>\<open>getopt\<close> returns them.\<close>

definition row_argv :: "(string \<times> string) list \<Rightarrow> string list" where
  "row_argv rows = concat (map (\<lambda>(l, v). [[CHR ''-'', label_option l], v]) rows)"

definition row_options :: "(string \<times> string) list \<Rightarrow> (char \<times> string) list" where
  "row_options rows = map (\<lambda>(l, v). (label_option l, v)) rows"

section \<open>Round trips\<close>

lemma to_dec_not_Nil [simp]: "to_dec n \<noteq> []"
  by (subst to_dec.simps) simp

lemma is_digit_xdigit: "d < 10 \<Longrightarrow> is_digit (xdigit d)"
  by (simp add: is_digit_def of_char_xdigit)

lemma to_dec_digits: "\<forall>c \<in> set (to_dec n). is_digit c"
  by (induction n rule: to_dec.induct) (subst to_dec.simps, auto simp: is_digit_xdigit)

lemma digits_value_to_dec [simp]: "digits_value 10 (to_dec n) = n"
proof (induction n rule: to_dec.induct)
  case (1 n)
  show ?case
  proof (cases "n < 10")
    case True
    then show ?thesis by (subst to_dec.simps) (simp add: digits_value_def)
  next
    case False
    with 1 show ?thesis by (subst to_dec.simps) (simp add: digits_value_snoc)
  qed
qed

lemma takeWhile_to_dec [simp]: "takeWhile is_digit (to_dec n) = to_dec n"
  using to_dec_digits [of n] by (simp add: takeWhile_eq_all_conv)

lemma hd_to_dec: "is_digit (hd (to_dec n))"
  using to_dec_digits [of n] hd_in_set [OF to_dec_not_Nil] by blast

lemma digit_not_special: "is_digit c \<Longrightarrow> \<not> is_space c \<and> c \<noteq> CHR ''-'' \<and> c \<noteq> CHR ''+'' \<and> c \<noteq> CHR ''.''"
  by (auto simp: is_digit_def is_space_def)

lemma dropWhile_space: "s \<noteq> [] \<Longrightarrow> \<not> is_space (hd s) \<Longrightarrow> dropWhile is_space s = s"
  by (cases s) auto

lemma atoi_show_int:
  assumes "- (2 ^ 31) \<le> i" "i < 2 ^ 31"
  shows "atoi (show_int i) = i"
proof -
  have w: "sint (word_of_int i :: u32) = i"
    using assms by (intro sint_of_int_u32) simp_all
  have d: "dropWhile is_space (to_dec n) = to_dec n" "hd (to_dec n) \<noteq> CHR ''-''" "hd (to_dec n) \<noteq> CHR ''+''" for n
    using digit_not_special [OF hd_to_dec [of n]] by (auto intro: dropWhile_space)
  show ?thesis
  proof (cases "i < 0")
    case True
    then have "strtol_val True (nat (- i)) = i" using assms by (simp add: strtol_val_def)
    with True w show ?thesis by (simp add: atoi_def show_int_def is_space_def)
  next
    case False
    then have "strtol_val False (nat i) = i" using assms by (simp add: strtol_val_def)
    with False w d show ?thesis by (simp add: atoi_def show_int_def)
  qed
qed

lemma scan_0x_show_lx: "scan_0x (show_lx w) = Some w"
  using scan_x_to_hex [of "unat w" True] unat_u64_less [of w] by (simp add: scan_0x_def show_lx_def)

lemma row_options_simps [simp]:
  "row_options [] = []" "row_options ((l, v) # rows) = (label_option l, v) # row_options rows"
  by (simp_all add: row_options_def)

lemma getopts_row_argv:
  "list_all (\<lambda>(l, v). opt_arg os (label_option l) = Some True \<and> label_option l \<noteq> CHR ''-'') rows \<Longrightarrow>
    getopts os (row_argv rows) = row_options rows"
  by (induction rows) (auto simp: row_argv_def)

section \<open>Addresses\<close>

text \<open>\<^verbatim>\<open>inet_ntop(AF_INET, ...)\<close> and the format \<^verbatim>\<open>%02x:%02x:%02x:%02x:%02x:%02x\<close>.\<close>

fun show_sep :: "string \<Rightarrow> string list \<Rightarrow> string" where
  "show_sep c [] = []"
| "show_sep c [w] = w"
| "show_sep c (w # v # ws) = w @ c @ show_sep c (v # ws)"

definition inet_ntop :: "u8 list \<Rightarrow> string" where
  "inet_ntop bs = show_sep ''.'' (map (\<lambda>b. to_dec (unat b)) bs)"

definition print_mac :: "u8 list \<Rightarrow> string" where
  "print_mac bs = show_sep '':'' (map (\<lambda>b. hex_pad 2 (unat b)) bs)"

section \<open>The memory\<close>

text \<open>The programs print the device of the pop memory, and take the word \<^verbatim>\<open>hugepage\<close> for none.\<close>

definition show_pci :: "string option \<Rightarrow> string" where
  "show_pci pci = (case pci of Some p \<Rightarrow> p | None \<Rightarrow> ''hugepage'')"

lemma pci_roundtrip:
  assumes "\<And>p. pci = Some p \<Longrightarrow> \<not> strncmp_eq p ''hugepage'' 8"
  shows "(if strncmp_eq (show_pci pci) ''hugepage'' 8 then None else Some (show_pci pci)) = pci"
  using assms by (cases pci) (simp_all add: strncmp_eq_def show_pci_def)

end
