(* ===== verification/Pop_Mem.thy ===== *)
theory Pop_Mem
  imports Pop_Buf Bytes C_Print
begin

text \<open>
  Memory regions of \<^verbatim>\<open>lib/libpop.c\<close>: \<^verbatim>\<open>pop_mem_init\<close> and \<^verbatim>\<open>pop_mem_exit\<close>, which set up
  and take down a region on a PCI device or on hugepages, and \<^verbatim>\<open>virt_to_phys\<close>, which reads
  \<^verbatim>\<open>/proc/self/pagemap\<close>.

  The system calls are a parameter, the record \<open>sysif\<close> over an arbitrary type of system states; a
  call can end in a fault, because it runs the handlers of the kernel module. The locale
  \<open>pop_system\<close> states what the library relies on; the theory \<open>Pop_System\<close> provides it with the
  handlers of \<open>Boogiepop\<close>.
\<close>

section \<open>System calls\<close>

datatype map_kind = MapHuge | MapShared

text \<open>
  \<open>sys_malloc\<close> returns 0 on failure, \<open>sys_mmap\<close> returns \<^const>\<open>None\<close> for \<^verbatim>\<open>MAP_FAILED\<close>;
  \<open>sys_read\<close> returns the count and the bytes; \<open>sys_stack\<close> is what an uninitialised buffer on the
  stack holds.
\<close>

record 's sysif =
  sys_malloc :: "'s \<Rightarrow> addr \<times> 's"
  sys_free :: "addr \<Rightarrow> 's \<Rightarrow> 's"
  sys_open :: "string \<Rightarrow> 's \<Rightarrow> (int \<times> 's) outcome"
  sys_close :: "int \<Rightarrow> 's \<Rightarrow> (int \<times> 's) outcome"
  sys_ioctl :: "int \<Rightarrow> ioctl_cmd \<Rightarrow> pop_p2pmem_reg \<Rightarrow> 's \<Rightarrow> (int \<times> pop_p2pmem_reg \<times> 's) outcome"
  sys_mmap :: "u64 \<Rightarrow> map_kind \<Rightarrow> int \<Rightarrow> 's \<Rightarrow> (addr option \<times> 's) outcome"
  sys_lseek :: "int \<Rightarrow> u64 \<Rightarrow> 's \<Rightarrow> int \<times> 's"
  sys_read :: "int \<Rightarrow> nat \<Rightarrow> 's \<Rightarrow> int \<times> u8 list \<times> 's"
  sys_pagesize :: u64
  sys_stack :: string

section \<open>Verbosity\<close>

definition libpop_verbose_enable :: "int \<Rightarrow> int" where "libpop_verbose_enable v = 1"

definition libpop_verbose_disable :: "int \<Rightarrow> int" where "libpop_verbose_disable v = 0"

text \<open>
  The message macros of \<^verbatim>\<open>lib/libpop_util.h\<close>: green for success, red for errors, and nothing unless
  the library is verbose. Where the functions below print such messages is not part of their model.
\<close>

definition pr_line :: "string \<Rightarrow> nat \<Rightarrow> string \<Rightarrow> string \<Rightarrow> string" where
  "pr_line colour line func msg = CHR 0x1B # ''[1m'' @ CHR 0x1B # ''['' @ colour @ ''mlibpop:'' @ to_dec line @ '':'' @
     func @ ''(): '' @ msg @ CHR 0x1B # println ''[0m''"

definition pr_s :: "nat \<Rightarrow> string \<Rightarrow> string \<Rightarrow> string" where "pr_s = pr_line ''32''"

definition pr_e :: "nat \<Rightarrow> string \<Rightarrow> string \<Rightarrow> string" where "pr_e = pr_line ''31''"

definition pr_vs :: "int \<Rightarrow> nat \<Rightarrow> string \<Rightarrow> string \<Rightarrow> string" where
  "pr_vs libpop_verbose line func msg = (if libpop_verbose \<noteq> 0 then pr_s line func msg else [])"

definition pr_ve :: "int \<Rightarrow> nat \<Rightarrow> string \<Rightarrow> string \<Rightarrow> string" where
  "pr_ve libpop_verbose line func msg = (if libpop_verbose \<noteq> 0 then pr_e line func msg else [])"

lemma verbose_messages:
  "pr_ve (libpop_verbose_disable v) line func msg = []" "pr_vs (libpop_verbose_disable v) line func msg = []"
  "pr_ve (libpop_verbose_enable v) line func msg = pr_e line func msg"
  "pr_vs (libpop_verbose_enable v) line func msg = pr_s line func msg"
  by (simp_all add: pr_ve_def pr_vs_def libpop_verbose_disable_def libpop_verbose_enable_def)

section \<open>Hugepages\<close>

definition NR_HUGEPAGES :: string where
  "NR_HUGEPAGES = ''/sys/kernel/mm/hugepages/hugepages-2048kB/nr_hugepages''"

text \<open>
  \<^verbatim>\<open>atoi\<close> on a buffer that need not hold a terminator: reading past the end is a fault.
\<close>

definition atoi_buf :: "string \<Rightarrow> int outcome" where
  "atoi_buf buf =
     (let s1 = dropWhile is_space buf;
          s2 = (if s1 \<noteq> [] \<and> (hd s1 = CHR ''-'' \<or> hd s1 = CHR ''+'') then tl s1 else s1)
      in if dropWhile is_digit s2 = [] then Inl OutOfBounds else Inr (atoi buf))"

definition chars_of :: "u8 list \<Rightarrow> string" where
  "chars_of bs = map (\<lambda>b. char_of (unat b)) bs"

definition get_nr_hugepages :: "'s sysif \<Rightarrow> 's \<Rightarrow> (int \<times> 's) outcome" where
  "get_nr_hugepages S s =
     obind (sys_open S NR_HUGEPAGES s) (\<lambda>(fd, s1).
       if fd < 0 then Inr (- 1, s1)
       else let (rc, bs, s2) = sys_read S fd 16 s1;
                buf = chars_of bs @ drop (length bs) (take 16 (sys_stack S))
            in obind (atoi_buf buf) (\<lambda>n. Inr (n, s2)))"

section \<open>Physical addresses\<close>

definition virt_to_phys :: "'s sysif \<Rightarrow> addr \<Rightarrow> 's \<Rightarrow> (addr \<times> 's) outcome" where
  "virt_to_phys S a s =
     obind (sys_open S ''/proc/self/pagemap'' s) (\<lambda>(fd, s1).
       if fd < 0 then Inr (0, s1)
       else let pagesize = sys_pagesize S;
                (ret, s2) = sys_lseek S fd (a div pagesize * 8) s1
            in if ret < 0 then obind (sys_close S fd s2) (\<lambda>(_, s3). Inr (0, s3))
               else let (rc, bs, s3) = sys_read S fd 8 s2;
                        entry = of_nat (le_nat bs) :: u64
                    in obind (sys_close S fd s3) (\<lambda>(_, s4).
                         if rc < 1 \<or> entry = 0 then Inr (0, s4)
                         else Inr ((entry AND 0x7FFFFFFFFFFFFF) * pagesize + a mod pagesize, s4)))"

section \<open>Regions\<close>

definition POP_PCI_DEVNAME_MAX :: nat where "POP_PCI_DEVNAME_MAX = 16"

definition DEVPOP :: string where "DEVPOP = ''/dev/boogiepop''"

text \<open>\<^verbatim>\<open>memset(mem, 0, sizeof(*mem))\<close>\<close>

definition mem_zero :: pop_mem where
  "mem_zero = \<lparr>pm_fd = 0, pm_devname = replicate 16 (CHR 0x00),
     pm_reg = \<lparr>reg_domain = 0, reg_bus = 0, reg_slot = 0, reg_func = 0, reg_size = 0\<rparr>,
     pm_mem = 0, pm_paddr = 0, pm_size = 0, pm_num_pages = 0, pm_alloced_pages = 0,
     pm_mutex = False\<rparr>"

text \<open>
  The results of \<^verbatim>\<open>pop_mem_init\<close>: the address and the content of the new \<^verbatim>\<open>pop_mem_t\<close>, or
  \<^verbatim>\<open>NULL\<close> with the \<^verbatim>\<open>errno\<close> that the function or \<^verbatim>\<open>malloc\<close> sets, or with the one the
  failed system call left (\<^const>\<open>None\<close>).
\<close>

type_synonym 's init_result = "((errno option + addr \<times> pop_mem) \<times> 's) outcome"

text \<open>The end of \<^verbatim>\<open>pop_mem_init\<close>, common to both kinds of region.\<close>

definition init_map :: "'s sysif \<Rightarrow> addr \<Rightarrow> pop_mem \<Rightarrow> map_kind \<Rightarrow> 's \<Rightarrow> 's init_result" where
  "init_map S p m flags s =
     obind (sys_mmap S (pm_size m) flags (pm_fd m) s) (\<lambda>(a, s1).
       case a of
         None \<Rightarrow> if pm_fd m \<noteq> - 1 then obind (sys_close S (pm_fd m) s1) (\<lambda>(_, s2). Inr (Inl None, s2))
                 else Inr (Inl None, s1)
       | Some v \<Rightarrow> obind (virt_to_phys S v s1) (\<lambda>(pa, s2).
           Inr (Inr (p, m\<lparr>pm_mem := v, pm_paddr := pa\<rparr>), s2)))"

text \<open>
  The branch for hugepages. \<^verbatim>\<open>2097152 * (nr_pages / 4)\<close> is computed in \<^verbatim>\<open>int\<close>.
\<close>

definition init_hugepage :: "'s sysif \<Rightarrow> addr \<Rightarrow> u64 \<Rightarrow> 's \<Rightarrow> 's init_result" where
  "init_hugepage S p sz s =
     obind (get_nr_hugepages S s) (\<lambda>(nr_pages, s1).
       if nr_pages < 0 then Inr (Inl None, s1)
       else if sz = 0 \<and> 2 ^ 31 \<le> 2097152 * (nr_pages div 4) then Inl SignedOverflow
       else let msz = (if sz \<noteq> 0 then sz else word_of_int (2097152 * (nr_pages div 4)))
            in init_map S p (mem_zero\<lparr>pm_devname := strncpy ''hugepage'' POP_PCI_DEVNAME_MAX,
                 pm_fd := - 1, pm_size := msz, pm_num_pages := page_round_up msz\<rparr>) MapHuge s1)"

text \<open>The slot string: \<^verbatim>\<open>DOMAIN:BUS:SLOT.FUNC\<close>, or \<^verbatim>\<open>BUS:SLOT.FUNC\<close> with domain 0.\<close>

definition parse_slot :: "string \<Rightarrow> u64 \<Rightarrow> pop_p2pmem_reg option" where
  "parse_slot dev sz =
     (case scan_dbsf True dev of
        [d, b, s, f] \<Rightarrow> Some \<lparr>reg_domain = ucast d, reg_bus = ucast b, reg_slot = ucast s,
          reg_func = ucast f, reg_size = sz\<rparr>
      | _ \<Rightarrow>
          (case scan_bsf True dev of
             [b, s, f] \<Rightarrow> Some \<lparr>reg_domain = 0, reg_bus = ucast b, reg_slot = ucast s,
               reg_func = ucast f, reg_size = sz\<rparr>
           | _ \<Rightarrow> None))"

definition popdev_name :: "pop_p2pmem_reg \<Rightarrow> string" where
  "popdev_name reg = snprintf 32 (''/dev/pop/'' @ print_dbsf (unat (reg_domain reg))
     (unat (reg_bus reg)) (unat (reg_slot reg)) (unat (reg_func reg)))"

definition init_device :: "'s sysif \<Rightarrow> addr \<Rightarrow> string \<Rightarrow> u64 \<Rightarrow> 's \<Rightarrow> 's init_result" where
  "init_device S p dev sz s =
     (case parse_slot dev sz of
        None \<Rightarrow> Inr (Inl (Some EINVAL), s)
      | Some reg \<Rightarrow>
          obind (sys_open S DEVPOP s) (\<lambda>(fd, s1).
            if fd < 0 then Inr (Inl None, s1)
            else obind (sys_ioctl S fd POP_P2PMEM_REG reg s1) (\<lambda>(ret, reg', s2).
              obind (sys_close S fd s2) (\<lambda>(_, s3).
                if ret \<noteq> 0 then Inr (Inl None, s3)
                else obind (sys_open S (popdev_name reg') s3) (\<lambda>(dfd, s4).
                  if dfd < 0 then Inr (Inl None, s4)
                  else init_map S p (mem_zero\<lparr>pm_devname := strncpy dev POP_PCI_DEVNAME_MAX,
                         pm_reg := reg', pm_fd := dfd, pm_size := reg_size reg',
                         pm_num_pages := bytes_to_pages (reg_size reg')\<rparr>) MapShared s4)))))"

definition pop_mem_init :: "'s sysif \<Rightarrow> string option \<Rightarrow> u64 \<Rightarrow> 's \<Rightarrow> 's init_result" where
  "pop_mem_init S dev sz s =
     (let (p, s0) = sys_malloc S s in
      if p = 0 then Inr (Inl (Some ENOMEM), s0)
      else (case dev of
          None \<Rightarrow> init_hugepage S p sz s0
        | Some d \<Rightarrow> init_device S p d sz s0))"

definition pop_mem_exit :: "'s sysif \<Rightarrow> addr \<Rightarrow> pop_mem \<Rightarrow> 's \<Rightarrow> (int \<times> 's) outcome" where
  "pop_mem_exit S p m s =
     (if pm_fd m = - 1 then Inr (0, sys_free S p s)
      else obind (sys_open S DEVPOP s) (\<lambda>(fd, s1).
        if fd < 0 then Inr (- 1, s1)
        else obind (sys_ioctl S fd POP_P2PMEM_UNREG (pm_reg m) s1) (\<lambda>(ret, _, s2).
          if ret \<noteq> 0 then Inr (- 1, s2) else sys_close S (pm_fd m) s2)))"

section \<open>The debug print\<close>

text \<open>
  A C string in an array: the characters before the first NUL; without one the reader runs off the
  array. \<^verbatim>\<open>strncpy\<close> leaves none when the name has 16 characters or more.
\<close>

definition c_str :: "string \<Rightarrow> string outcome" where
  "c_str buf = (if CHR 0x00 \<in> set buf then Inr (takeWhile (\<lambda>c. c \<noteq> CHR 0x00) buf) else Inl OutOfBounds)"

definition show_ptr :: "addr \<Rightarrow> string" where
  "show_ptr a = (if a = 0 then ''(nil)'' else show_lx a)"

definition print_pop_buf :: "pop_mem \<Rightarrow> pop_buf \<Rightarrow> string outcome" where
  "print_pop_buf m b =
     obind (c_str (pm_devname m)) (\<lambda>devname.
       Inr (print_rows
         [(''mem:              '', show_ptr (pb_mem b)),
          ('' - devname:       '', devname),
          ('' - alloced_pages: '', to_dec (unat (pm_alloced_pages m))),
          (''vaddr:            '', show_ptr (pb_vaddr b)),
          (''paddr:            '', show_lx (pb_paddr b)),
          (''size:             '', to_dec (unat (pb_size b))),
          (''offset:           '', to_dec (unat (pb_offset b))),
          (''length:           '', to_dec (unat (pb_length b)))]))"

lemma c_str_strncpy:
  assumes "CHR 0x00 \<notin> set dev"
  shows "c_str (strncpy dev n) = (if length dev < n then Inr dev else Inl OutOfBounds)"
proof (cases "length dev < n")
  case True
  then have "strncpy dev n = dev @ CHR 0x00 # replicate (n - length dev - 1) (CHR 0x00)"
    by (simp add: strncpy_def flip: replicate_Suc)
  moreover have "takeWhile (\<lambda>c. c \<noteq> CHR 0x00) (dev @ CHR 0x00 # r) = dev" for r
    using assms by (subst takeWhile_append2) auto
  ultimately show ?thesis using True by (simp add: c_str_def)
next
  case False
  then have "strncpy dev n = take n dev" by (simp add: strncpy_def)
  with False assms show ?thesis by (auto simp: c_str_def dest: in_set_takeD)
qed

section \<open>Reading the page map\<close>

text \<open>
  What the library relies on when it reads \<^verbatim>\<open>/proc/self/pagemap\<close>: the file holds one 64-bit entry
  per page, and opening, reading and closing it leaves the rest of the process alone (\<open>keeps\<close>).
\<close>

locale pagemap_file =
  fixes S :: "'s sysif"
    and entry :: "'s \<Rightarrow> u64 \<Rightarrow> u64"
    and inv :: "'s \<Rightarrow> bool"
    and keeps :: "'s \<Rightarrow> 's \<Rightarrow> bool"
  assumes pagesize: "sys_pagesize S = 4096"
    and read_entry: "inv s \<Longrightarrow> unat i < 2 ^ 52 \<Longrightarrow>
      \<exists>fd s1 ret s2 s3 c s4. sys_open S ''/proc/self/pagemap'' s = Inr (fd, s1) \<and> 0 \<le> fd \<and>
        sys_lseek S fd (i * 8) s1 = (ret, s2) \<and> 0 \<le> ret \<and>
        sys_read S fd 8 s2 = (8, le_bytes 8 (unat (entry s i)), s3) \<and>
        sys_close S fd s3 = Inr (c, s4) \<and> keeps s s4"
begin

text \<open>The page frame number is the low 55 bits of an entry.\<close>

lemma virt_to_phys_entry:
  assumes "inv s"
  shows "\<exists>s'. virt_to_phys S a s =
      Inr (if entry s (a div 4096) = 0 then 0
           else (entry s (a div 4096) AND mask 55) * 4096 + a mod 4096, s') \<and> keeps s s'"
proof -
  have "unat (a div 4096) < 2 ^ 52"
    using unat_u64_less [of a] by (simp add: unat_div)
  from read_entry [OF assms this] obtain fd s1 ret s2 s3 c s4 where
    "sys_open S ''/proc/self/pagemap'' s = Inr (fd, s1)" "0 \<le> fd"
    "sys_lseek S fd (a div 4096 * 8) s1 = (ret, s2)" "0 \<le> ret"
    "sys_read S fd 8 s2 = (8, le_bytes 8 (unat (entry s (a div 4096))), s3)"
    "sys_close S fd s3 = Inr (c, s4)" "keeps s s4"
    by blast
  moreover have "(of_nat (le_nat (le_bytes 8 (unat w))) :: u64) = w" for w :: u64
    by (rule le_word_roundtrip) simp
  moreover have "(0x7FFFFFFFFFFFFF :: u64) = mask 55"
    by (simp add: mask_eq_exp_minus_1)
  ultimately show ?thesis
    by (auto simp: virt_to_phys_def pagesize)
qed

text \<open>
  On a region whose pages are physically contiguous the cheap translation returns what the page map
  says, for every byte of the region.
\<close>

lemma virt_to_phys_contiguous:
  assumes "inv s" "4096 dvd unat (pm_mem m)" "unat i < unat (pm_size m)"
    and "unat (pm_mem m) + unat (pm_size m) < 2 ^ 64"
    and "unat (pm_paddr m) + unat (pm_size m) < 2 ^ 64"
    and "\<And>j. j * 4096 < unat (pm_size m) \<Longrightarrow> entry s (pm_mem m div 4096 + of_nat j) \<noteq> 0 \<and>
      (entry s (pm_mem m div 4096 + of_nat j) AND mask 55) * 4096 = pm_paddr m + of_nat (j * 4096)"
  shows "\<exists>s'. virt_to_phys S (pm_mem m + i) s = Inr (pop_virt_to_phys m (pm_mem m + i), s') \<and> keeps s s'"
proof -
  let ?j = "unat i div 4096"
  have sum: "unat (pm_mem m + i) = unat (pm_mem m) + unat i"
    using assms(3,4) by (simp add: nowrap)
  have "unat (pm_mem m) mod 4096 = 0" using assms(2) by simp
  then have page: "unat ((pm_mem m + i) div 4096) = unat (pm_mem m) div 4096 + ?j"
    and off: "unat ((pm_mem m + i) mod 4096) = unat i mod 4096"
    unfolding unat_div unat_mod sum by (auto simp: div_add1_eq mod_add_left_eq)
  have "unat (pm_mem m div 4096 + of_nat ?j) = unat (pm_mem m) div 4096 + ?j"
    using assms(3,4) by (subst unat_add_nowrap) (auto simp: unat_div nowrap)
  with page have page': "(pm_mem m + i) div 4096 = pm_mem m div 4096 + of_nat ?j"
    by (simp add: word_nat)
  have "?j * 4096 < unat (pm_size m)" using assms(3) by (simp add: div_mult2_eq less_le_trans)
  with assms(6) [of ?j] page' have e: "entry s ((pm_mem m + i) div 4096) \<noteq> 0"
    "(entry s ((pm_mem m + i) div 4096) AND mask 55) * 4096 = pm_paddr m + of_nat (?j * 4096)"
    by auto
  have "of_nat (?j * 4096) + (pm_mem m + i) mod 4096 = i"
  proof -
    have "unat (of_nat (?j * 4096) :: u64) = ?j * 4096"
      using unat_u64_less [of i] by (intro unat_of_nat_nowrap) (simp add: div_mult2_eq)
    then show ?thesis
      using off unat_u64_less [of i] by (subst word_unat_eq_iff, subst unat_add_nowrap) auto
  qed
  then have "pm_paddr m + of_nat (?j * 4096) + (pm_mem m + i) mod 4096 = pm_paddr m + i"
    by (simp add: add.assoc)
  moreover have "pop_virt_to_phys m (pm_mem m + i) = pm_paddr m + i"
    using sum assms(3,4) by (simp add: pop_virt_to_phys_def word_nat nowrap)
  ultimately have "(entry s ((pm_mem m + i) div 4096) AND mask 55) * 4096 + (pm_mem m + i) mod 4096
      = pop_virt_to_phys m (pm_mem m + i)"
    by (simp only: e(2))
  then show ?thesis
    using virt_to_phys_entry [OF assms(1), of "pm_mem m + i"] e(1) by (simp only: if_False)
qed

end

section \<open>The interface to the kernel module\<close>

text \<open>
  What \<^verbatim>\<open>pop_mem_init\<close> relies on for a device: when the module can serve the registration
  (\<open>offers\<close>), the request on \<^verbatim>\<open>/dev/boogiepop\<close> succeeds and stores the size; from then on the
  node named after the slot exists (\<open>node\<close>), can be opened (\<open>opened\<close>) and mapped for that size
  (\<open>mapped\<close>).
\<close>

locale pop_system = pagemap_file S entry inv keeps
  for S :: "'s sysif" and entry and inv and keeps +
  fixes offers :: "'s \<Rightarrow> pop_p2pmem_reg \<Rightarrow> u64 \<Rightarrow> bool"
    and node :: "'s \<Rightarrow> pop_p2pmem_reg \<Rightarrow> bool"
    and opened :: "'s \<Rightarrow> int \<Rightarrow> pop_p2pmem_reg \<Rightarrow> bool"
    and mapped :: "'s \<Rightarrow> int \<Rightarrow> pop_p2pmem_reg \<Rightarrow> addr \<Rightarrow> bool"
  assumes malloc_ok: "offers s reg n \<Longrightarrow> \<exists>p s'. sys_malloc S s = (p, s') \<and> p \<noteq> 0 \<and> offers s' reg n"
    and register_ok: "offers s reg n \<Longrightarrow>
      \<exists>fd s1 s2 c s3. sys_open S DEVPOP s = Inr (fd, s1) \<and> 0 \<le> fd \<and>
        sys_ioctl S fd POP_P2PMEM_REG reg s1 = Inr (0, reg\<lparr>reg_size := n\<rparr>, s2) \<and>
        sys_close S fd s2 = Inr (c, s3) \<and> node s3 (reg\<lparr>reg_size := n\<rparr>)"
    and open_ok: "node s reg \<Longrightarrow>
      \<exists>fd s1. sys_open S (popdev_name reg) s = Inr (fd, s1) \<and> 0 \<le> fd \<and> opened s1 fd reg"
    and mmap_ok: "opened s fd reg \<Longrightarrow>
      \<exists>a s1. sys_mmap S (reg_size reg) MapShared fd s = Inr (Some a, s1) \<and> inv s1 \<and> mapped s1 fd reg a"
    and mapped_keeps: "mapped s fd reg a \<Longrightarrow> keeps s s' \<Longrightarrow> mapped s' fd reg a"
begin

lemma init_device_ok:
  assumes "parse_slot dev sz = Some reg" "offers s reg n"
  shows "\<exists>p m s'. pop_mem_init S (Some dev) sz s = Inr (Inr (p, m), s') \<and> p \<noteq> 0 \<and>
    pm_reg m = reg\<lparr>reg_size := n\<rparr> \<and> pm_size m = n \<and> pm_num_pages m = bytes_to_pages n \<and>
    pm_alloced_pages m = 0 \<and> \<not> pm_mutex m \<and> 0 \<le> pm_fd m \<and>
    mapped s' (pm_fd m) (reg\<lparr>reg_size := n\<rparr>) (pm_mem m)"
proof -
  from malloc_ok [OF assms(2)] obtain p s0 where
    p: "sys_malloc S s = (p, s0)" "p \<noteq> 0" "offers s0 reg n" by blast
  from register_ok [OF p(3)] obtain fd s1 s2 c s3 where
    r: "sys_open S DEVPOP s0 = Inr (fd, s1)" "0 \<le> fd"
      "sys_ioctl S fd POP_P2PMEM_REG reg s1 = Inr (0, reg\<lparr>reg_size := n\<rparr>, s2)"
      "sys_close S fd s2 = Inr (c, s3)" "node s3 (reg\<lparr>reg_size := n\<rparr>)" by blast
  from open_ok [OF r(5)] obtain dfd s4 where
    o: "sys_open S (popdev_name (reg\<lparr>reg_size := n\<rparr>)) s3 = Inr (dfd, s4)" "0 \<le> dfd"
      "opened s4 dfd (reg\<lparr>reg_size := n\<rparr>)" by blast
  from mmap_ok [OF o(3)] obtain a s5 where
    a: "sys_mmap S n MapShared dfd s4 = Inr (Some a, s5)" "inv s5"
      "mapped s5 dfd (reg\<lparr>reg_size := n\<rparr>) a" by auto
  from virt_to_phys_entry [OF a(2), of a] obtain pa s6 where
    v: "virt_to_phys S a s5 = Inr (pa, s6)" "keeps s5 s6" by blast
  from p r o a(1) v(1) mapped_keeps [OF a(3) v(2)] show ?thesis
    by (simp add: pop_mem_init_def init_device_def assms(1) init_map_def mem_zero_def)
qed

end

end
