(* ===== verification/Pop_System.thy ===== *)
theory Pop_System
  imports Pop_Mem Boogiepop_Run
begin

text \<open>
  The library and the kernel module together. A process has a table of open files over the state of
  the module; the system calls of the library are routed to the module's handlers the way the
  kernel's file layer does it: \<^verbatim>\<open>/dev/boogiepop\<close> to \<^verbatim>\<open>pop_ioctl\<close>, a node under
  \<^verbatim>\<open>/dev/pop\<close>, when a misc device of that name is registered, to \<^verbatim>\<open>pop_dev_open\<close>,
  \<^verbatim>\<open>pop_dev_mmap\<close> and, when the last descriptor and the last mapping of the file are gone,
  \<^verbatim>\<open>pop_dev_release\<close>.

  With this routing the module provides the interface \<open>pop_system\<close> of the library, and the effect of
  \<^verbatim>\<open>pop_mem_init\<close> and \<^verbatim>\<open>pop_mem_exit\<close> on the module is proved end to end.
\<close>

section \<open>A process\<close>

datatype fdobj = CtlFile | DevFile nat | HugeFile | PagemapFile u64

text \<open>\<open>up_objs\<close> counts the live heap objects; a mapping keeps its file open.\<close>

record uproc =
  up_kern :: kstate
  up_fds :: "int \<rightharpoonup> fdobj"
  up_next :: nat
  up_objs :: nat
  up_maps :: "(addr \<times> u64 \<times> nat) list"

record uenv =
  ue_kenv :: kenv
  ue_obj :: addr
  ue_map :: "u64 \<Rightarrow> addr option"
  ue_pagemap :: "u64 \<Rightarrow> u64"
  ue_hugepages :: "u8 list option"
  ue_stack :: string

definition new_fd :: "fdobj \<Rightarrow> uproc \<Rightarrow> int \<times> uproc" where
  "new_fd x u = (int (up_next u),
     u\<lparr>up_fds := (up_fds u)(int (up_next u) \<mapsto> x), up_next := up_next u + 1\<rparr>)"

definition u_malloc :: "uenv \<Rightarrow> uproc \<Rightarrow> addr \<times> uproc" where
  "u_malloc U u = (if ue_obj U = 0 then (0, u) else (ue_obj U, u\<lparr>up_objs := up_objs u + 1\<rparr>))"

definition u_free :: "addr \<Rightarrow> uproc \<Rightarrow> uproc" where
  "u_free p u = (if p = 0 then u else u\<lparr>up_objs := up_objs u - 1\<rparr>)"

definition u_open :: "uenv \<Rightarrow> string \<Rightarrow> uproc \<Rightarrow> (int \<times> uproc) outcome" where
  "u_open U path u =
     (if path = DEVPOP
      then (if ''boogiepop'' \<in># miscdevs (up_kern u) \<and> pop_open = 0 then Inr (new_fd CtlFile u)
            else Inr (- 1, u))
      else if path = ''/proc/self/pagemap'' then Inr (new_fd (PagemapFile 0) u)
      else if path = NR_HUGEPAGES
      then (if ue_hugepages U = None then Inr (- 1, u) else Inr (new_fd HugeFile u))
      else if take 9 path = ''/dev/pop/'' \<and> ''pop/'' @ drop 9 path \<in># miscdevs (up_kern u)
      then obind (pop_dev_open (ue_kenv U) (up_next u) (drop 9 path) (up_kern u)) (\<lambda>(r, k).
             if r \<noteq> 0 then Inr (- 1, u\<lparr>up_kern := k\<rparr>)
             else Inr (new_fd (DevFile (up_next u)) (u\<lparr>up_kern := k\<rparr>)))
      else Inr (- 1, u))"

definition u_close :: "int \<Rightarrow> uproc \<Rightarrow> (int \<times> uproc) outcome" where
  "u_close fd u =
     (case up_fds u fd of
        None \<Rightarrow> Inr (- 1, u)
      | Some x \<Rightarrow>
          (let u1 = u\<lparr>up_fds := (up_fds u)(fd := None)\<rparr> in
           case x of
             DevFile f \<Rightarrow>
               if f \<in> (snd \<circ> snd) ` set (up_maps u) then Inr (0, u1)
               else obind (pop_dev_release f (up_kern u)) (\<lambda>(r, k). Inr (r, u1\<lparr>up_kern := k\<rparr>))
           | CtlFile \<Rightarrow> Inr (pop_release, u1)
           | _ \<Rightarrow> Inr (0, u1)))"

definition u_ioctl :: "uenv \<Rightarrow> int \<Rightarrow> ioctl_cmd \<Rightarrow> pop_p2pmem_reg \<Rightarrow> uproc
    \<Rightarrow> (int \<times> pop_p2pmem_reg \<times> uproc) outcome" where
  "u_ioctl U fd cmd reg u =
     (if up_fds u fd = Some CtlFile
      then obind (pop_ioctl (ue_kenv U) cmd reg (up_kern u)) (\<lambda>(r, reg', k).
             Inr (if r < 0 then - 1 else r, reg', u\<lparr>up_kern := k\<rparr>))
      else Inr (- 1, reg, u))"

definition u_mmap :: "uenv \<Rightarrow> u64 \<Rightarrow> map_kind \<Rightarrow> int \<Rightarrow> uproc \<Rightarrow> (addr option \<times> uproc) outcome" where
  "u_mmap U len flags fd u =
     (if len = 0 then Inr (None, u)
      else case ue_map U len of
        None \<Rightarrow> Inr (None, u)
      | Some a \<Rightarrow>
          (case flags of
             MapHuge \<Rightarrow> Inr (Some a, u)
           | MapShared \<Rightarrow>
               (case up_fds u fd of
                  Some (DevFile f) \<Rightarrow>
                    obind (pop_dev_mmap (up_kern u) f \<lparr>vm_start = a,
                        vm_end = a + pages_to_bytes (page_round_up len), vm_pgoff = 0\<rparr>) (\<lambda>r.
                      if r \<noteq> 0 then Inr (None, u)
                      else Inr (Some a, u\<lparr>up_maps := (a, len, f) # up_maps u\<rparr>))
                | _ \<Rightarrow> Inr (None, u))))"

definition u_lseek :: "int \<Rightarrow> u64 \<Rightarrow> uproc \<Rightarrow> int \<times> uproc" where
  "u_lseek fd off u =
     (case up_fds u fd of
        Some (PagemapFile _) \<Rightarrow> (sint off, u\<lparr>up_fds := (up_fds u)(fd \<mapsto> PagemapFile off)\<rparr>)
      | _ \<Rightarrow> (- 1, u))"

definition u_read :: "uenv \<Rightarrow> int \<Rightarrow> nat \<Rightarrow> uproc \<Rightarrow> int \<times> u8 list \<times> uproc" where
  "u_read U fd n u =
     (case up_fds u fd of
        Some (PagemapFile pos) \<Rightarrow>
          (let bs = take n (le_bytes 8 (unat (ue_pagemap U (pos div 8))))
           in (int (length bs), bs, u\<lparr>up_fds := (up_fds u)(fd \<mapsto> PagemapFile (pos + of_nat (length bs)))\<rparr>))
      | Some HugeFile \<Rightarrow>
          (let bs = take n (the (ue_hugepages U)) in (int (length bs), bs, u))
      | _ \<Rightarrow> (- 1, [], u))"

definition usys :: "uenv \<Rightarrow> uproc sysif" where
  "usys U = \<lparr>sys_malloc = u_malloc U, sys_free = u_free, sys_open = u_open U, sys_close = u_close,
     sys_ioctl = u_ioctl U, sys_mmap = u_mmap U, sys_lseek = u_lseek, sys_read = u_read U,
     sys_pagesize = 4096, sys_stack = ue_stack U\<rparr>"

lemma usys_simps [simp]:
  "sys_malloc (usys U) = u_malloc U" "sys_free (usys U) = u_free" "sys_open (usys U) = u_open U"
  "sys_close (usys U) = u_close" "sys_ioctl (usys U) = u_ioctl U" "sys_mmap (usys U) = u_mmap U"
  "sys_lseek (usys U) = u_lseek" "sys_read (usys U) = u_read U" "sys_pagesize (usys U) = 4096"
  "sys_stack (usys U) = ue_stack U"
  by (simp_all add: usys_def)

text \<open>The paths are told apart by their characters.\<close>

lemma paths [simp]:
  "''/proc/self/pagemap'' \<noteq> DEVPOP" "NR_HUGEPAGES \<noteq> DEVPOP" "NR_HUGEPAGES \<noteq> ''/proc/self/pagemap''"
  "''/dev/pop/'' @ name \<noteq> DEVPOP" "''/dev/pop/'' @ name \<noteq> NR_HUGEPAGES"
  "''/dev/pop/'' @ name \<noteq> ''/proc/self/pagemap''"
  by (simp_all add: DEVPOP_def NR_HUGEPAGES_def)

section \<open>The page map\<close>

text \<open>Descriptors are numbered upwards, and what a read of the page map leaves alone.\<close>

definition fds_ok :: "uproc \<Rightarrow> bool" where
  "fds_ok u \<longleftrightarrow> (\<forall>fd \<in> dom (up_fds u). 0 \<le> fd \<and> fd < int (up_next u))"

definition same_proc :: "uproc \<Rightarrow> uproc \<Rightarrow> bool" where
  "same_proc u u' \<longleftrightarrow> up_kern u' = up_kern u \<and> up_fds u' = up_fds u \<and> up_next u \<le> up_next u' \<and>
     up_objs u' = up_objs u \<and> up_maps u' = up_maps u"

lemma fds_ok_fresh: "fds_ok u \<Longrightarrow> up_fds u (int (up_next u)) = None"
  by (auto simp: fds_ok_def dom_def)

lemma fds_ok_grow:
  assumes "fds_ok u" "up_next u \<le> up_next u'"
    and "\<And>fd. fd \<in> dom (up_fds u') \<Longrightarrow> fd \<in> dom (up_fds u) \<or> 0 \<le> fd \<and> fd < int (up_next u')"
  shows "fds_ok u'"
proof -
  have "0 \<le> fd \<and> fd < int (up_next u')" if "fd \<in> dom (up_fds u')" for fd
    using assms(3) [OF that]
  proof
    assume "fd \<in> dom (up_fds u)"
    then have "0 \<le> fd" "fd < int (up_next u)" using assms(1) by (auto simp: fds_ok_def)
    with assms(2) show ?thesis by linarith
  qed
  then show ?thesis by (simp add: fds_ok_def)
qed

lemma pagemap_read:
  assumes "fds_ok u" "unat i < 2 ^ 52"
  shows "\<exists>fd s1 ret s2 s3 c s4. sys_open (usys U) ''/proc/self/pagemap'' u = Inr (fd, s1) \<and> 0 \<le> fd \<and>
    sys_lseek (usys U) fd (i * 8) s1 = (ret, s2) \<and> 0 \<le> ret \<and>
    sys_read (usys U) fd 8 s2 = (8, le_bytes 8 (unat (ue_pagemap U i)), s3) \<and>
    sys_close (usys U) fd s3 = Inr (c, s4) \<and> same_proc u s4"
proof -
  have i8: "unat (i * 8) = unat i * 8" using assms(2) by (simp add: nowrap)
  then have "i * 8 div 8 = i" by (simp add: word_nat unat_div)
  moreover have "0 \<le> sint (i * 8)"
  proof -
    have "unat (i * 8) < 2 ^ 63" using i8 assms(2) by simp
    then have "int (unat (i * 8)) < int (2 ^ 63)" by (simp only: of_nat_less_iff)
    then have "uint (i * 8) < 2 ^ 63" by simp
    then show ?thesis using int_word_sint [of "uint (i * 8)", where ?'a = 64] by simp
  qed
  moreover have "(up_fds u)(int (up_next u) := None) = up_fds u"
    using fds_ok_fresh [OF assms(1)] by auto
  ultimately show ?thesis
    by (simp add: u_open_def new_fd_def u_lseek_def u_read_def u_close_def same_proc_def Let_def)
qed

interpretation pmap: pagemap_file "usys U" "\<lambda>_. ue_pagemap U" fds_ok same_proc for U
  by unfold_locales (simp, rule pagemap_read)

section \<open>The module serves the library\<close>

text \<open>The name of a slot, which is the name the PCI core gives the device and its node.\<close>

definition slot_name :: "pop_p2pmem_reg \<Rightarrow> string" where
  "slot_name reg = print_dbsf (unat (reg_domain reg)) (unat (reg_bus reg)) (unat (reg_slot reg))
     (unat (reg_func reg))"

definition pci_range :: "pop_p2pmem_reg \<Rightarrow> bool" where
  "pci_range reg \<longleftrightarrow> unat (reg_domain reg) < 2 ^ 16 \<and> unat (reg_bus reg) < 2 ^ 8 \<and>
     unat (reg_slot reg) < 2 ^ 5 \<and> unat (reg_func reg) < 2 ^ 3"

lemma length_slot_name: "pci_range reg \<Longrightarrow> length (slot_name reg) \<le> 12"
  by (simp add: slot_name_def pci_range_def length_print_dbsf_pci)

lemma slot_name_size [simp]: "slot_name (reg\<lparr>reg_size := n\<rparr>) = slot_name reg"
  by (simp add: slot_name_def)

lemma reg_size_irrelevant [simp]:
  "target E (reg\<lparr>reg_size := n\<rparr>) = target E reg" "pci_range (reg\<lparr>reg_size := n\<rparr>) = pci_range reg"
  by (simp_all add: target_def pci_range_def)

lemma popdev_name_slot: "pci_range reg \<Longrightarrow> popdev_name reg = ''/dev/pop/'' @ slot_name reg"
  using length_slot_name [of reg] by (simp add: popdev_name_def snprintf_def slot_name_def)

lemma devname_slot:
  "pci_range reg \<Longrightarrow> snprintf DEVNAMELEN (''pop/'' @ slot_name reg) = ''pop/'' @ slot_name reg"
  using length_slot_name [of reg] by (simp add: snprintf_def DEVNAMELEN_def)

text \<open>The node's name leads the module back to the slot it was registered for.\<close>

lemma u32_via_u64: "(ucast (of_nat (unat x) :: u64) :: u32) = x"
  by (simp add: unsigned_ucast_eq take_bit_word_eq_self)

lemma named_pdev_slot:
  "named_pdev E (slot_name reg) =
     pci_slot E (reg_domain reg) (reg_bus reg) (PCI_DEVFN (reg_slot reg) (reg_func reg))"
proof -
  have "unat x < 2 ^ 64" for x :: u32 using unat_u32_less [of x] by simp
  then have "scan_dbsf False (slot_name reg) = [of_nat (unat (reg_domain reg)),
      of_nat (unat (reg_bus reg)), of_nat (unat (reg_slot reg)), of_nat (unat (reg_func reg))]"
    unfolding slot_name_def by (intro scan_print_dbsf)
  then show ?thesis by (simp only: named_pdev_def list.case u32_via_u64)
qed

text \<open>The states of a process on its way through \<^verbatim>\<open>pop_mem_init\<close>.\<close>

definition dev_at :: "uenv \<Rightarrow> uproc \<Rightarrow> pop_p2pmem_reg \<Rightarrow> int \<Rightarrow> addr \<Rightarrow> bool" where
  "dev_at U u reg n p \<longleftrightarrow> fds_ok u \<and> kinv (up_kern u) \<and> p \<in> set (dev_list (up_kern u)) \<and>
     target (ue_kenv U) reg = Some (pd_pdev (dev_of (up_kern u) p)) \<and>
     pd_size (dev_of (up_kern u) p) = reg_size reg \<and> pd_refcnt (dev_of (up_kern u) p) = n \<and>
     pci_range reg \<and> 0 < unat (reg_size reg) \<and> unat (reg_size reg) < 2 ^ 31 \<and>
     ue_map U (reg_size reg) \<noteq> None"

definition offers :: "uenv \<Rightarrow> uproc \<Rightarrow> pop_p2pmem_reg \<Rightarrow> u64 \<Rightarrow> bool" where
  "offers U u reg n \<longleftrightarrow> fds_ok u \<and> kinv (up_kern u) \<and> kmalloc_fresh (ue_kenv U) (up_kern u) \<and>
     ue_obj U \<noteq> 0 \<and> copy_to_user_ok (ue_kenv U) \<and> pci_range reg \<and>
     0 < unat n \<and> unat n < 2 ^ 31 \<and> ue_map U n \<noteq> None \<and>
     (\<exists>pdev. target (ue_kenv U) reg = Some pdev \<and> pci_has_p2pmem (ue_kenv U) pdev \<and>
        registered (up_kern u) pdev = None \<and> \<not> register_fails (ue_kenv U) pdev (reg_size reg) \<and>
        n = register_size (ue_kenv U) pdev (reg_size reg) \<and>
        pci_name (ue_kenv U) pdev = slot_name reg)"

definition node :: "uenv \<Rightarrow> uproc \<Rightarrow> pop_p2pmem_reg \<Rightarrow> bool" where
  "node U u reg \<longleftrightarrow> (\<exists>p. dev_at U u reg 0 p) \<and>
     ''pop/'' @ slot_name reg \<in># miscdevs (up_kern u)"

definition opened :: "uenv \<Rightarrow> uproc \<Rightarrow> int \<Rightarrow> pop_p2pmem_reg \<Rightarrow> bool" where
  "opened U u fd reg \<longleftrightarrow> (\<exists>f p. up_fds u fd = Some (DevFile f) \<and> dev_at U u reg 1 p \<and>
     private_data (up_kern u) f = Some p)"

definition mapped :: "uenv \<Rightarrow> uproc \<Rightarrow> int \<Rightarrow> pop_p2pmem_reg \<Rightarrow> addr \<Rightarrow> bool" where
  "mapped U u fd reg a \<longleftrightarrow> (\<exists>f p. up_fds u fd = Some (DevFile f) \<and> dev_at U u reg 1 p \<and>
     private_data (up_kern u) f = Some p \<and> (a, reg_size reg, f) \<in> set (up_maps u) \<and>
     ue_map U (reg_size reg) = Some a)"

lemma control_listed: "kinv k \<Longrightarrow> ''boogiepop'' \<in># miscdevs k"
  by (simp add: kinv_def)

lemma register_ioctl:
  assumes "offers U u reg n"
  obtains k' p where "pop_ioctl (ue_kenv U) POP_P2PMEM_REG reg (up_kern u) = Inr (0, reg\<lparr>reg_size := n\<rparr>, k')"
    "kinv k'" "p \<in> set (dev_list k')" "target (ue_kenv U) reg = Some (pd_pdev (dev_of k' p))"
    "pd_size (dev_of k' p) = n" "pd_refcnt (dev_of k' p) = 0" "''pop/'' @ slot_name reg \<in># miscdevs k'"
proof -
  let ?E = "ue_kenv U" and ?k = "up_kern u"
  from assms obtain pdev where o: "kinv ?k" "kmalloc_fresh ?E ?k" "copy_to_user_ok ?E" "pci_range reg"
    "unat n < 2 ^ 31" "target ?E reg = Some pdev" "pci_has_p2pmem ?E pdev" "registered ?k pdev = None"
    "\<not> register_fails ?E pdev (reg_size reg)" "n = register_size ?E pdev (reg_size reg)"
    "pci_name ?E pdev = slot_name reg"
    by (auto simp: offers_def)
  obtain p k' where k': "pop_register_p2pmem ?E pdev (reg_size reg) (got pdev ?k) = Inr (int_of_size n, k')"
    "kinv k'" "dev_list k' = dev_list ?k @ [p]" "heap k' = (heap ?k)(p \<mapsto> new_dev ?E pdev (reg_size reg))"
    by (rule register_success [of "got pdev ?k" ?E pdev "reg_size reg"]) (simp_all add: o)
  have "int_of_size n = int (unat n)" by (rule int_of_size_small) (rule o(5))
  then have run: "pop_ioctl ?E POP_P2PMEM_REG reg ?k = Inr (0, reg\<lparr>reg_size := n\<rparr>, k')"
    using ioctl_reg_eval [OF o(6,7) k'(1)] o(3) by simp
  have d: "dev_of k' p = new_dev ?E pdev (reg_size reg)" "p \<in> set (dev_list k')" using k' by simp_all
  then have "''pop/'' @ slot_name reg \<in># miscdevs k'"
    using k'(2,3) devname_slot [OF o(4)] o(11) by (auto simp: kinv_def new_dev_def)
  with run k'(2) d o(6,10) show thesis by (intro that [of k' p]) (simp_all add: new_dev_def)
qed

lemma u_malloc_offers:
  "offers U u reg n \<Longrightarrow> \<exists>p u'. u_malloc U u = (p, u') \<and> p \<noteq> 0 \<and> offers U u' reg n"
  by (auto simp: u_malloc_def offers_def fds_ok_def)

lemma u_register:
  assumes "offers U u reg n"
  shows "\<exists>fd u1 u2 c u3. u_open U DEVPOP u = Inr (fd, u1) \<and> 0 \<le> fd \<and>
    u_ioctl U fd POP_P2PMEM_REG reg u1 = Inr (0, reg\<lparr>reg_size := n\<rparr>, u2) \<and>
    u_close fd u2 = Inr (c, u3) \<and> node U u3 (reg\<lparr>reg_size := n\<rparr>)"
proof -
  let ?E = "ue_kenv U" and ?fd = "int (up_next u)"
  have o: "fds_ok u" "kinv (up_kern u)" "pci_range reg" "0 < unat n" "unat n < 2 ^ 31" "ue_map U n \<noteq> None"
    using assms by (simp_all add: offers_def)
  obtain k' p where k': "pop_ioctl ?E POP_P2PMEM_REG reg (up_kern u) = Inr (0, reg\<lparr>reg_size := n\<rparr>, k')"
    "kinv k'" "p \<in> set (dev_list k')" "target ?E reg = Some (pd_pdev (dev_of k' p))"
    "pd_size (dev_of k' p) = n" "pd_refcnt (dev_of k' p) = 0" "''pop/'' @ slot_name reg \<in># miscdevs k'"
    by (rule register_ioctl [OF assms])
  define u1 where "u1 = u\<lparr>up_fds := (up_fds u)(?fd \<mapsto> CtlFile), up_next := up_next u + 1\<rparr>"
  define u3 where "u3 = u1\<lparr>up_kern := k', up_fds := (up_fds u)(?fd := None)\<rparr>"
  have "u_open U DEVPOP u = Inr (?fd, u1)"
    using control_listed [OF o(2)] by (simp add: u_open_def new_fd_def pop_open_def u1_def)
  moreover have "u_ioctl U ?fd POP_P2PMEM_REG reg u1 = Inr (0, reg\<lparr>reg_size := n\<rparr>, u1\<lparr>up_kern := k'\<rparr>)"
    using k'(1) by (simp add: u_ioctl_def u1_def del: pop_ioctl.simps)
  moreover have "u_close ?fd (u1\<lparr>up_kern := k'\<rparr>) = Inr (0, u3)"
    by (simp add: u_close_def u1_def u3_def pop_release_def)
  moreover have "fds_ok u3"
    by (rule fds_ok_grow [OF o(1)]) (auto simp: u3_def u1_def split: if_splits)
  with k' o have "dev_at U u3 (reg\<lparr>reg_size := n\<rparr>) 0 p"
    by (simp add: dev_at_def u3_def del: pop_ioctl.simps)
  then have "node U u3 (reg\<lparr>reg_size := n\<rparr>)"
    using k'(7) by (auto simp: node_def u3_def)
  ultimately show ?thesis by (metis of_nat_0_le_iff)
qed

lemma u_open_node:
  assumes "node U u reg"
  shows "\<exists>fd u1. u_open U (popdev_name reg) u = Inr (fd, u1) \<and> 0 \<le> fd \<and> opened U u1 fd reg"
proof -
  let ?E = "ue_kenv U" and ?fd = "int (up_next u)" and ?k = "up_kern u"
  from assms obtain p where p: "dev_at U u reg 0 p" and misc: "''pop/'' @ slot_name reg \<in># miscdevs ?k"
    by (auto simp: node_def)
  then have inv: "kinv ?k" and r: "pci_range reg" and l: "p \<in> set (dev_list ?k)"
    and t: "named_pdev ?E (slot_name reg) = Some (pd_pdev (dev_of ?k p))"
    by (auto simp: dev_at_def named_pdev_slot target_def split: if_splits)
  define k' where "k' = ?k\<lparr>heap := (heap ?k)(p \<mapsto> (dev_of ?k p)\<lparr>pd_refcnt := 1\<rparr>),
      private_data := (private_data ?k)(up_next u \<mapsto> p)\<rparr>"
  have open_dev: "pop_dev_open ?E (up_next u) (slot_name reg) ?k = Inr (0, k')"
  proof (cases rule: open_cases [OF inv, of ?E "up_next u" "slot_name reg"])
    case 1
    moreover have "registered ?k (pd_pdev (dev_of ?k p)) = Some (dev_of ?k p)"
      using registered_iff [OF inv] l by blast
    ultimately show ?thesis using t by simp
  next
    case (2 q pdev)
    then have "q = p" using t l inv unfolding kinv_def inj_on_def by auto
    with 2(5) p show ?thesis by (simp add: k'_def dev_at_def)
  qed
  define u1 where "u1 = u\<lparr>up_kern := k', up_fds := (up_fds u)(?fd \<mapsto> DevFile (up_next u)),
      up_next := up_next u + 1\<rparr>"
  have run: "u_open U (popdev_name reg) u = Inr (?fd, u1)"
    using misc open_dev by (simp add: popdev_name_slot [OF r] u_open_def new_fd_def u1_def
        DEVPOP_def NR_HUGEPAGES_def)
  have "kinv k'"
    unfolding k'_def using kinv_refcnt [OF kinv_listed [OF inv l]] inv by simp
  moreover have "fds_ok u1"
    by (rule fds_ok_grow [of u]) (use p in \<open>auto simp: dev_at_def u1_def split: if_splits\<close>)
  ultimately have "dev_at U u1 reg 1 p"
    using p by (simp add: dev_at_def u1_def k'_def)
  then have "opened U u1 ?fd reg"
    by (auto simp: opened_def u1_def k'_def)
  with run show ?thesis by (metis of_nat_0_le_iff)
qed

lemma page_multiple:
  assumes "4096 dvd unat n" "unat n < 2 ^ 31"
  shows "pages_to_bytes (page_round_up n) = n"
proof -
  from assms(1) obtain j where j: "unat n = j * 4096" by (auto simp: dvd_def)
  have "unat (page_round_up n) = j"
    using assms(2) j by (subst unat_page_round_up) simp_all
  then show ?thesis using j assms(2) by (simp add: word_nat nowrap)
qed

lemma u_mmap_opened:
  assumes "opened U u fd reg"
  shows "\<exists>a u1. u_mmap U (reg_size reg) MapShared fd u = Inr (Some a, u1) \<and> fds_ok u1 \<and>
    mapped U u1 fd reg a"
proof -
  from assms obtain f p where f: "up_fds u fd = Some (DevFile f)" and p: "dev_at U u reg 1 p"
    and pd: "private_data (up_kern u) f = Some p" by (auto simp: opened_def)
  then obtain a where a: "ue_map U (reg_size reg) = Some a" by (auto simp: dev_at_def)
  have l: "kinv (up_kern u)" "p \<in> set (dev_list (up_kern u))" using p by (simp_all add: dev_at_def)
  then have "4096 dvd unat (pd_size (dev_of (up_kern u) p))" by (simp add: kinv_def)
  then have "pages_to_bytes (page_round_up (reg_size reg)) = reg_size reg"
    using p by (intro page_multiple) (simp_all add: dev_at_def)
  then have "pop_dev_mmap (up_kern u) f \<lparr>vm_start = a,
      vm_end = a + pages_to_bytes (page_round_up (reg_size reg)), vm_pgoff = 0\<rparr> = Inr 0"
    using p pd by (simp add: pop_dev_mmap_def deref_listed [OF l] dev_at_def pages_to_bytes_def)
  moreover have "reg_size reg \<noteq> 0" using p by (auto simp: dev_at_def)
  ultimately have "u_mmap U (reg_size reg) MapShared fd u
      = Inr (Some a, u\<lparr>up_maps := (a, reg_size reg, f) # up_maps u\<rparr>)"
    using a f by (simp add: u_mmap_def)
  moreover have "mapped U (u\<lparr>up_maps := (a, reg_size reg, f) # up_maps u\<rparr>) fd reg a"
    using p pd f a by (auto simp: mapped_def dev_at_def fds_ok_def)
  moreover have "fds_ok u" using p by (simp add: dev_at_def)
  ultimately show ?thesis by (auto simp: fds_ok_def)
qed

lemma mapped_same_proc: "mapped U u fd reg a \<Longrightarrow> same_proc u u' \<Longrightarrow> mapped U u' fd reg a"
  using fds_ok_grow [of u u'] unfolding mapped_def same_proc_def dev_at_def by auto

interpretation boogie: pop_system "usys U" "\<lambda>_. ue_pagemap U" fds_ok same_proc "offers U" "node U"
    "opened U" "mapped U" for U
  by unfold_locales
    (unfold usys_simps, (rule u_malloc_offers u_register u_open_node u_mmap_opened mapped_same_proc; assumption)+)

section \<open>Properties of regions\<close>

text \<open>A process on the machine of \<^const>\<open>lab_env\<close>.\<close>

definition lab_uenv :: uenv where
  "lab_uenv = \<lparr>ue_kenv = lab_env, ue_obj = 0x5000, ue_map = (\<lambda>_. Some 0x7F0000000000),
     ue_pagemap = (\<lambda>i. 0x8000000000000000 + (i - 0x7F0000000) + 0x880000000),
     ue_hugepages = Some [53, 49, 50, 10], ue_stack = replicate 16 (CHR ''7'')\<rparr>"

definition lab_proc :: uproc where
  "lab_proc = \<lparr>up_kern = lab_loaded, up_fds = Map.empty, up_next = 3, up_objs = 0, up_maps = []\<rparr>"

lemma lab_uenv_simps [simp]:
  "ue_kenv lab_uenv = lab_env" "ue_obj lab_uenv = 0x5000" "ue_map lab_uenv = (\<lambda>_. Some 0x7F0000000000)"
  by (simp_all add: lab_uenv_def)

lemma lab_slot_name: "slot_name lab_reg = ''0000:17:00.0''"
proof -
  have "hex_pad 4 0 = ''0000''" "hex_pad 2 23 = ''17''" "hex_pad 2 0 = ''00''" "to_hex 0 = ''0''"
    by code_simp+
  then show ?thesis by (simp add: slot_name_def print_dbsf_def)
qed

lemma lab_parse: "parse_slot ''17:00.0'' 0 = Some lab_reg" "parse_slot ''0000:17:00.0'' 0 = Some lab_reg"
  by (simp_all add: parse_slot_def scan_eval lab_reg_def)

lemma lab_offers: "offers lab_uenv lab_proc lab_reg 0x1000000"
proof -
  have "kinv lab_loaded" using lab_kreach_loaded by (rule kreach_kinv)
  then show ?thesis
    using lab_fresh
    by (simp add: offers_def lab_proc_def fds_ok_def pci_range_def target_def PCI_DEVFN_def
        registered_def register_fails_def lab_size lab_slot_name lab_loaded_def kboot_def)
qed

lemma lab_region:
  "\<exists>p m u'. pop_mem_init (usys lab_uenv) (Some ''17:00.0'') 0 lab_proc = Inr (Inr (p, m), u')"
  using boogie.init_device_ok [OF lab_parse(1) lab_offers] by blast

text \<open>
  (C3) Setting up a region on a PCI device, through the library, the file layer and the kernel module:
  when the module can serve the request, \<^verbatim>\<open>pop_mem_init\<close> returns a region whose size is the size
  the module registered, all of whose pages can be allocated and none is allocated yet; the module
  has the device registered with one open file, which is the region's descriptor, and that file is
  mapped at the region's address for the whole size. If the region's addresses do not reach the end
  of the address space, it is well formed for the allocator.
\<close>

theorem init_registers_and_maps:
  assumes "parse_slot dev sz = Some reg" "offers U u reg n"
  shows "\<exists>p m u'. pop_mem_init (usys U) (Some dev) sz u = Inr (Inr (p, m), u') \<and> p \<noteq> 0 \<and>
    pm_reg m = reg\<lparr>reg_size := n\<rparr> \<and> pm_size m = n \<and> unat (pm_num_pages m) * 4096 = unat n \<and>
    pm_alloced_pages m = 0 \<and> \<not> pm_mutex m \<and> mapped U u' (pm_fd m) (pm_reg m) (pm_mem m) \<and>
    (unat (pm_mem m) + unat n < 2 ^ 64 \<and> unat (pm_paddr m) + unat n < 2 ^ 64 \<longrightarrow> mem_ok m)"
proof -
  obtain p m u' where r: "pop_mem_init (usys U) (Some dev) sz u = Inr (Inr (p, m), u')" "p \<noteq> 0"
    "pm_reg m = reg\<lparr>reg_size := n\<rparr>" "pm_size m = n" "pm_num_pages m = bytes_to_pages n"
    "pm_alloced_pages m = 0" "\<not> pm_mutex m" "mapped U u' (pm_fd m) (reg\<lparr>reg_size := n\<rparr>) (pm_mem m)"
    using boogie.init_device_ok [OF assms] by blast
  have "4096 dvd unat n"
    using assms(2) by (auto simp: offers_def register_size_pages)
  then have "unat (pm_num_pages m) * 4096 = unat n"
    using r(5) by (simp add: unat_bytes_to_pages)
  with r show ?thesis by (auto simp: mem_ok_def)
qed

theorem init_registers_and_maps_witness:
  "\<exists>p m u'. pop_mem_init (usys lab_uenv) (Some ''17:00.0'') 0 lab_proc = Inr (Inr (p, m), u') \<and>
    pm_size m = 0x1000000 \<and> unat (pm_num_pages m) = 4096 \<and>
    mapped lab_uenv u' (pm_fd m) (pm_reg m) (pm_mem m)"
  using init_registers_and_maps [OF lab_parse(1) lab_offers] by force

text \<open>
  (C38) Taking the region down again. \<^verbatim>\<open>pop_mem_exit\<close> on a mapped device region returns 0 and
  unregisters the device, but leaves behind what it should release: the \<^verbatim>\<open>pop_mem_t\<close> is not
  freed, the descriptor opened on \<^verbatim>\<open>/dev/boogiepop\<close> stays open, the mapping stays, and the
  module's file still points to the freed device, so that the next page fault in the region and the
  release of the file read freed memory.
\<close>

theorem exit_leaves_dangling_file:
  assumes "mapped U u (pm_fd m) (pm_reg m) a"
  shows "\<exists>u' f. pop_mem_exit (usys U) p m u = Inr (0, u') \<and>
    registered (up_kern u') (the (target (ue_kenv U) (pm_reg m))) = None \<and>
    up_objs u' = up_objs u \<and> up_fds u' = (up_fds u)(int (up_next u) \<mapsto> CtlFile, pm_fd m := None) \<and>
    (a, reg_size (pm_reg m), f) \<in> set (up_maps u') \<and>
    pop_dev_mem_fault E (up_kern u') (Some f) pgoff = Inl UseAfterFree \<and>
    pop_dev_release f (up_kern u') = Inl UseAfterFree"
proof -
  let ?E = "ue_kenv U" and ?k = "up_kern u" and ?reg = "pm_reg m" and ?fd = "int (up_next u)"
  from assms obtain f q where f: "up_fds u (pm_fd m) = Some (DevFile f)" and q: "dev_at U u ?reg 1 q"
    and pd: "private_data ?k f = Some q" and map: "(a, reg_size ?reg, f) \<in> set (up_maps u)"
    by (auto simp: mapped_def)
  have d: "kinv ?k" "q \<in> set (dev_list ?k)" "target ?E ?reg = Some (pd_pdev (dev_of ?k q))" "fds_ok u"
    using q by (simp_all add: dev_at_def)
  obtain k2 where k2: "pop_ioctl ?E POP_P2PMEM_UNREG ?reg ?k = Inr (0, ?reg, k2)" "kinv k2" "removes ?k q k2"
    by (rule ioctl_unreg_eval [OF d(1-3)])
  have "pm_fd m \<in> dom (up_fds u)" using f by blast
  with d(4) have fd: "0 \<le> pm_fd m" "pm_fd m < ?fd" by (auto simp: fds_ok_def)
  define u' where "u' = u\<lparr>up_kern := k2, up_next := up_next u + 1,
      up_fds := (up_fds u)(?fd \<mapsto> CtlFile, pm_fd m := None)\<rparr>"
  have "f \<in> (snd \<circ> snd) ` set (up_maps u)" using map by force
  then have "pop_mem_exit (usys U) p m u = Inr (0, u')"
    using control_listed [OF d(1)] k2(1) f fd
    by (simp add: pop_mem_exit_def u_open_def new_fd_def pop_open_def u_ioctl_def u_close_def u'_def
        del: pop_ioctl.simps)
  moreover have "registered k2 (pd_pdev (dev_of ?k q)) = None"
    using registered_remove [OF d(1) k2(2,3)] by simp
  moreover have "private_data k2 f = Some q" "heap k2 q = None"
    using k2(3) pd by (simp_all add: removes_def)
  ultimately show ?thesis
    using map d(3) by (intro exI [of _ u'] exI [of _ f])
      (simp add: u'_def pop_dev_mem_fault_def pop_dev_release_def deref_def)
qed

theorem exit_leaves_dangling_file_witness:
  "\<exists>p m u1 u2 f. pop_mem_init (usys lab_uenv) (Some ''17:00.0'') 0 lab_proc = Inr (Inr (p, m), u1) \<and>
    pop_mem_exit (usys lab_uenv) p m u1 = Inr (0, u2) \<and> up_objs u2 = up_objs u1 \<and>
    pop_dev_mem_fault lab_env (up_kern u2) (Some f) 0 = Inl UseAfterFree"
proof -
  obtain p m u1 where i: "pop_mem_init (usys lab_uenv) (Some ''17:00.0'') 0 lab_proc = Inr (Inr (p, m), u1)"
    and "pm_reg m = lab_reg\<lparr>reg_size := 0x1000000\<rparr>"
      "mapped lab_uenv u1 (pm_fd m) (lab_reg\<lparr>reg_size := 0x1000000\<rparr>) (pm_mem m)"
    using boogie.init_device_ok [OF lab_parse(1) lab_offers] by blast
  then have "mapped lab_uenv u1 (pm_fd m) (pm_reg m) (pm_mem m)" by simp
  from exit_leaves_dangling_file [OF this, of p lab_env 0] i show ?thesis by blast
qed

text \<open>
  (C37) When the module cannot register the device (no p2pmem left, no memory, or the misc device is
  refused), \<^verbatim>\<open>pop_ioctl\<close> still returns 0, but \<^verbatim>\<open>pop_mem_init\<close> does not report success: no node
  of that name exists, the second \<^verbatim>\<open>open\<close> fails and the caller gets \<^verbatim>\<open>NULL\<close>. No descriptor
  stays open; the \<^verbatim>\<open>pop_mem_t\<close> that was allocated is lost.
\<close>

theorem init_reports_failed_registration:
  assumes "parse_slot dev sz = Some reg" "fds_ok u" "kinv (up_kern u)"
    "kmalloc_fresh (ue_kenv U) (up_kern u)" "ue_obj U \<noteq> 0" "pci_range reg"
    "target (ue_kenv U) reg = Some pdev" "pci_has_p2pmem (ue_kenv U) pdev"
    "registered (up_kern u) pdev = None" "register_fails (ue_kenv U) pdev (reg_size reg)"
    "''pop/'' @ slot_name reg \<notin># miscdevs (up_kern u)"
  shows "\<exists>u'. pop_mem_init (usys U) (Some dev) sz u = Inr (Inl None, u') \<and>
    up_fds u' = up_fds u \<and> up_objs u' = up_objs u + 1 \<and>
    registered (up_kern u') = registered (up_kern u)"
proof -
  let ?E = "ue_kenv U" and ?k = "up_kern u" and ?fd = "int (up_next u)"
  obtain e k' where k': "pop_register_p2pmem ?E pdev (reg_size reg) (got pdev ?k) = Inr (- errno_num e, k')"
    "kinv k'" "dev_list k' = dev_list ?k" "\<And>p. p \<in> set (dev_list ?k) \<Longrightarrow> heap k' p = heap ?k p"
    by (rule register_failure [of "got pdev ?k" ?E pdev "reg_size reg"]) (use assms in simp_all)
  have ioctl: "pop_ioctl ?E POP_P2PMEM_REG reg ?k = Inr (0, reg, pci_dev_put pdev k')"
    using ioctl_reg_eval [OF assms(7,8) k'(1)] by simp
  have "image_mset (\<lambda>q. pd_devname (dev_of k' q)) (mset (dev_list ?k)) =
      image_mset (\<lambda>q. pd_devname (dev_of ?k q)) (mset (dev_list ?k))"
    using k'(4) by (intro image_mset_cong) simp
  then have misc: "miscdevs (pci_dev_put pdev k') = miscdevs ?k"
    using k'(2,3) assms(3) by (simp add: kinv_def pci_dev_put_def)
  define u3 where "u3 = u\<lparr>up_objs := up_objs u + 1, up_next := up_next u + 1,
      up_kern := pci_dev_put pdev k'\<rparr>"
  have "(up_fds u)(?fd := None) = up_fds u" using fds_ok_fresh [OF assms(2)] by auto
  moreover have "u_open U (popdev_name reg) u3 = Inr (- 1, u3)"
    using assms(11) misc
    by (simp add: popdev_name_slot [OF assms(6)] u_open_def u3_def DEVPOP_def NR_HUGEPAGES_def)
  ultimately have "pop_mem_init (usys U) (Some dev) sz u = Inr (Inl None, u3)"
    using assms(1,5) ioctl control_listed [OF assms(3)]
    by (simp add: pop_mem_init_def init_device_def u_malloc_def u_open_def new_fd_def pop_open_def
        u_ioctl_def u_close_def pop_release_def u3_def del: pop_ioctl.simps)
  moreover have "registered k' = registered ?k" by (rule registered_same [OF k'(3,4)])
  ultimately show ?thesis by (simp add: u3_def)
qed

theorem init_reports_failed_registration_witness:
  "let U = lab_uenv\<lparr>ue_kenv := lab_env\<lparr>misc_register_ret := - 16\<rparr>\<rparr> in
   \<exists>u'. pop_mem_init (usys U) (Some ''17:00.0'') 0 lab_proc = Inr (Inl None, u') \<and>
     up_fds u' = up_fds lab_proc \<and> up_objs u' = 1"
proof -
  let ?U = "lab_uenv\<lparr>ue_kenv := lab_env\<lparr>misc_register_ret := - 16\<rparr>\<rparr>"
  have inv: "kinv (up_kern lab_proc)"
    using kreach_kinv [OF lab_kreach_loaded] by (simp add: lab_proc_def)
  have "\<exists>u'. pop_mem_init (usys ?U) (Some ''17:00.0'') 0 lab_proc = Inr (Inl None, u') \<and>
     up_fds u' = up_fds lab_proc \<and> up_objs u' = up_objs lab_proc + 1 \<and>
     registered (up_kern u') = registered (up_kern lab_proc)"
    by (rule init_reports_failed_registration [OF lab_parse(1) _ inv, where pdev = "0x1000"])
      (simp_all add: lab_proc_def fds_ok_def kmalloc_fresh_def pci_range_def target_def PCI_DEVFN_def
        registered_def register_fails_def lab_slot_name lab_states)
  then show ?thesis by (auto simp: Let_def lab_proc_def)
qed

text \<open>
  (C25) The slot argument of \<^verbatim>\<open>pop_mem_init\<close>: both forms in which PCI slots are written,
  \<^verbatim>\<open>DOMAIN:BUS:SLOT.FUNC\<close> and \<^verbatim>\<open>BUS:SLOT.FUNC\<close>, are read back to the numbers they were
  printed from, with domain 0 for the short form.
\<close>

theorem parse_slot_roundtrip:
  "parse_slot (print_dbsf (unat d) (unat b) (unat s) (unat f)) sz =
     Some \<lparr>reg_domain = d, reg_bus = b, reg_slot = s, reg_func = f, reg_size = sz\<rparr> \<and>
   parse_slot (hex_pad 2 (unat b) @ '':'' @ hex_pad 2 (unat s) @ ''.'' @ to_hex (unat f)) sz =
     Some \<lparr>reg_domain = 0, reg_bus = b, reg_slot = s, reg_func = f, reg_size = sz\<rparr>"
proof
  have x: "unat x < 2 ^ 64" for x :: u32 using unat_u32_less [of x] by simp
  show "parse_slot (print_dbsf (unat d) (unat b) (unat s) (unat f)) sz =
     Some \<lparr>reg_domain = d, reg_bus = b, reg_slot = s, reg_func = f, reg_size = sz\<rparr>"
    unfolding parse_slot_def scan_print_dbsf [OF x x x x] list.case u32_via_u64 by simp
  let ?s = "hex_pad 2 (unat b) @ '':'' @ hex_pad 2 (unat s) @ ''.'' @ to_hex (unat f)"
  have "scan_dbsf True ?s = [of_nat (unat b), of_nat (unat s)]"
    using x by (simp add: scan_dbsf_def scan_x_hex_pad separators)
  moreover have "scan_bsf True ?s = [of_nat (unat b), of_nat (unat s), of_nat (unat f)]"
    using x by (simp add: scan_bsf_def scan_x_hex_pad scan_x_to_hex separators)
  ultimately show "parse_slot ?s sz =
     Some \<lparr>reg_domain = 0, reg_bus = b, reg_slot = s, reg_func = f, reg_size = sz\<rparr>"
    unfolding parse_slot_def by (simp only: list.case u32_via_u64)
qed


lemma lab_hugepages:
  "get_nr_hugepages (usys lab_uenv) (lab_proc\<lparr>up_objs := 1\<rparr>)
     = Inr (512, lab_proc\<lparr>up_objs := 1, up_next := 4, up_fds := [3 \<mapsto> HugeFile]\<rparr>)"
proof -
  have "atoi_buf (chars_of [53, 49, 50, 10] @ replicate 12 (CHR ''7'')) = Inr 512"
    by code_simp
  then show ?thesis
    by (simp add: get_nr_hugepages_def u_open_def lab_uenv_def lab_proc_def new_fd_def u_read_def Let_def)
qed


text \<open>
  (C22) The two address translations of the library agree. On a region whose pages are physically
  contiguous from \<^verbatim>\<open>paddr\<close> on, \<^verbatim>\<open>virt_to_phys\<close>, which reads the page map, returns for every
  byte of the region what \<^verbatim>\<open>pop_virt_to_phys\<close> computes by subtraction, and leaves no descriptor
  open.
\<close>

theorem translations_agree_on_contiguous:
  assumes "fds_ok u" "4096 dvd unat (pm_mem m)" "unat i < unat (pm_size m)"
    and "unat (pm_mem m) + unat (pm_size m) < 2 ^ 64" "unat (pm_paddr m) + unat (pm_size m) < 2 ^ 64"
    and "\<And>j. j * 4096 < unat (pm_size m) \<Longrightarrow> ue_pagemap U (pm_mem m div 4096 + of_nat j) \<noteq> 0 \<and>
      (ue_pagemap U (pm_mem m div 4096 + of_nat j) AND mask 55) * 4096 = pm_paddr m + of_nat (j * 4096)"
  shows "\<exists>u'. virt_to_phys (usys U) (pm_mem m + i) u = Inr (pop_virt_to_phys m (pm_mem m + i), u') \<and>
    up_fds u' = up_fds u \<and> up_kern u' = up_kern u"
  using pmap.virt_to_phys_contiguous [OF assms] by (auto simp: same_proc_def)

theorem translations_agree_on_contiguous_witness:
  "\<exists>u'. virt_to_phys (usys lab_uenv) (0x7F0000000000 + 5000) lab_proc = Inr (0x880000000000 + 5000, u') \<and>
     up_fds u' = up_fds lab_proc"
proof -
  let ?m = "lab_mem\<lparr>pm_size := 0x2000, pm_paddr := 0x880000000000\<rparr>"
  have "(ue_pagemap lab_uenv (pm_mem ?m div 4096 + of_nat j) \<noteq> 0 \<and>
      (ue_pagemap lab_uenv (pm_mem ?m div 4096 + of_nat j) AND mask 55) * 4096
        = pm_paddr ?m + of_nat (j * 4096))" if "j * 4096 < unat (pm_size ?m)" for j
  proof -
    have "j = 0 \<or> j = 1" using that by auto
    then show ?thesis by (auto simp: lab_uenv_def mask_eq_exp_minus_1)
  qed
  moreover have "fds_ok lab_proc" by (simp add: fds_ok_def lab_proc_def)
  ultimately show ?thesis
    using translations_agree_on_contiguous [of lab_proc ?m 5000 lab_uenv]
    by (auto simp: pop_virt_to_phys_def)
qed

end
