(* ===== verification/Tools.thy ===== *)
theory Tools
  imports Pop_System C_Getopt
begin

text \<open>
  The command line tools: \<^verbatim>\<open>tools/pop-ioctl.c\<close> registers and unregisters a device with the kernel
  module, \<^verbatim>\<open>tools/pop-mmap.c\<close> maps a device file. Both are modelled from their arguments to their
  return value over the system calls of \<open>Pop_Mem\<close>; on the system of \<open>Pop_System\<close> they run the
  handlers of the kernel module.
\<close>

section \<open>pop-ioctl\<close>

text \<open>The variable \<^verbatim>\<open>cmd\<close> is 0 before a command was given.\<close>

record pi_param =
  pi_cmd :: "ioctl_cmd option"
  pi_reg :: pop_p2pmem_reg

definition pi_defaults :: pi_param where
  "pi_defaults = \<lparr>pi_cmd = None,
     pi_reg = \<lparr>reg_domain = 0, reg_bus = 0, reg_slot = 0, reg_func = 0, reg_size = 0\<rparr>\<rparr>"

definition pi_opt :: "pi_param \<Rightarrow> char \<times> string \<Rightarrow> int + pi_param" where
  "pi_opt p x = (let (ch, optarg) = x in
     if ch = CHR ''b'' then
       (case parse_slot optarg (reg_size (pi_reg p)) of None \<Rightarrow> Inl (- 1) | Some reg \<Rightarrow> Inr (p\<lparr>pi_reg := reg\<rparr>))
     else if ch = CHR ''c'' then
       (if strncmp_eq optarg ''register'' 8 then Inr (p\<lparr>pi_cmd := Some POP_P2PMEM_REG\<rparr>)
        else if strncmp_eq optarg ''unregister'' 10 then Inr (p\<lparr>pi_cmd := Some POP_P2PMEM_UNREG\<rparr>)
        else Inl (- 1))
     else Inl (- 1))"

definition pop_ioctl_main :: "'s sysif \<Rightarrow> string list \<Rightarrow> 's \<Rightarrow> (int \<times> 's) outcome" where
  "pop_ioctl_main S argv s =
     (case opt_loop pi_opt (getopts ''b:c:'' argv) pi_defaults of
        Inl r \<Rightarrow> Inr (r, s)
      | Inr p \<Rightarrow>
          (case pi_cmd p of
             None \<Rightarrow> Inr (- 1, s)
           | Some cmd \<Rightarrow>
               obind (sys_open S DEVPOP s) (\<lambda>(fd, s1).
                 if fd < 0 then Inr (fd, s1)
                 else obind (sys_ioctl S fd cmd (pi_reg p) s1) (\<lambda>(ret, reg, s2).
                   if ret \<noteq> 0 then Inr (ret, s2) else Inr (0, s2)))))"

text \<open>The size asked for is always 0, which stands for the whole device.\<close>

definition pi_ok :: "pi_param \<Rightarrow> bool" where
  "pi_ok p \<longleftrightarrow> reg_size (pi_reg p) = 0 \<and> pi_cmd p \<in> {None, Some POP_P2PMEM_REG, Some POP_P2PMEM_UNREG}"

lemma parse_slot_size: "parse_slot dev sz = Some reg \<Longrightarrow> reg_size reg = sz"
  by (auto simp: parse_slot_def split: list.splits)

interpretation pi_options: option_parser pi_opt pi_defaults pi_ok "- 1"
proof
  show "pi_ok pi_defaults" by (simp add: pi_ok_def pi_defaults_def)
  show "pi_ok p'" if "pi_ok p" "pi_opt p x = Inr p'" for p x p'
    using that by (auto simp: pi_opt_def pi_ok_def Let_def dest: parse_slot_size
        split: prod.splits if_splits option.splits)
  show "r = - 1" if "pi_opt p x = Inl r" for p x r
    using that by (simp add: pi_opt_def Let_def split: prod.splits if_splits option.splits)
qed

section \<open>pop-mmap\<close>

text \<open>The size is not set before the option was given: \<open>junk\<close> is what it holds then.\<close>

record pm_param =
  pmm_path :: "string option"
  pmm_size :: int
  pmm_offset :: u64

definition pmm_defaults :: "int \<Rightarrow> pm_param" where
  "pmm_defaults junk = \<lparr>pmm_path = None, pmm_size = junk, pmm_offset = 0\<rparr>"

definition pmm_opt :: "pm_param \<Rightarrow> char \<times> string \<Rightarrow> int + pm_param" where
  "pmm_opt p x = (let (ch, optarg) = x in
     if ch = CHR ''p'' then Inr (p\<lparr>pmm_path := Some optarg\<rparr>)
     else if ch = CHR ''s'' then Inr (p\<lparr>pmm_size := atoi optarg\<rparr>)
     else if ch = CHR ''o'' then Inr (p\<lparr>pmm_offset := word_of_int (atoi optarg)\<rparr>)
     else Inl 1)"

text \<open>
  The mapping with an offset is a further system call, \<open>mmap\<close>; opening without a path fails.
\<close>

definition pop_mmap_main :: "'s sysif \<Rightarrow> (u64 \<Rightarrow> int \<Rightarrow> u64 \<Rightarrow> 's \<Rightarrow> (addr option \<times> 's) outcome) \<Rightarrow> int \<Rightarrow> string list \<Rightarrow> 's
    \<Rightarrow> (int \<times> 's) outcome" where
  "pop_mmap_main S mmap junk argv s =
     (case opt_loop pmm_opt (getopts ''p:s:o:'' argv) (pmm_defaults junk) of
        Inl r \<Rightarrow> Inr (r, s)
      | Inr p \<Rightarrow>
          obind (case pmm_path p of None \<Rightarrow> Inr (- 1, s) | Some path \<Rightarrow> sys_open S path s) (\<lambda>(fd, s1).
            if fd < 0 then Inr (- 1, s1)
            else obind (mmap (word_of_int (pmm_size p)) fd (pmm_offset p) s1) (\<lambda>(a, s2).
              obind (sys_close S fd s2) (\<lambda>(_, s3). Inr (if a = None then 1 else 0, s3)))))"

interpretation pmm_options: option_parser pmm_opt "pmm_defaults junk" "\<lambda>_. True" 1 for junk
proof
  show "r = 1" if "pmm_opt p x = Inl r" for p x r
    using that by (simp add: pmm_opt_def Let_def split: prod.splits if_splits)
qed simp_all

section \<open>Registering a device from the command line\<close>

text \<open>
  The tool on the system with the kernel module: when the module can serve the request, the tool
  returns 0 and the device is registered with the size that the module gives it and has its node.
\<close>

lemma pop_ioctl_registers:
  assumes "parse_slot dev 0 = Some reg" "offers U u reg n"
  shows "\<exists>u'. pop_ioctl_main (usys U) [''-b'', dev, ''-c'', ''register''] u = Inr (0, u') \<and>
    (\<exists>p. p \<in> set (dev_list (up_kern u')) \<and> target (ue_kenv U) reg = Some (pd_pdev (dev_of (up_kern u') p)) \<and>
       pd_size (dev_of (up_kern u') p) = n) \<and>
    ''pop/'' @ slot_name reg \<in># miscdevs (up_kern u')"
proof -
  have o: "opt_loop pi_opt (getopts ''b:c:'' [''-b'', dev, ''-c'', ''register'']) pi_defaults
      = Inr \<lparr>pi_cmd = Some POP_P2PMEM_REG, pi_reg = reg\<rparr>"
    using assms(1) by (simp add: pi_opt_def pi_defaults_def strncmp_eq_def)
  have k: "kinv (up_kern u)" using assms(2) by (simp add: offers_def)
  obtain k' p where k': "pop_ioctl (ue_kenv U) POP_P2PMEM_REG reg (up_kern u) = Inr (0, reg\<lparr>reg_size := n\<rparr>, k')"
    "p \<in> set (dev_list k')" "target (ue_kenv U) reg = Some (pd_pdev (dev_of k' p))" "pd_size (dev_of k' p) = n"
    "''pop/'' @ slot_name reg \<in># miscdevs k'"
    by (rule register_ioctl [OF assms(2)])
  have "u_open U DEVPOP u = Inr (new_fd CtlFile u)"
    using control_listed [OF k] by (simp add: u_open_def pop_open_def)
  with o k' show ?thesis
    by (auto simp: pop_ioctl_main_def new_fd_def u_ioctl_def)
qed

end
