(* ===== verification/Lba_Walk.thy ===== *)
theory Lba_Walk
  imports Pop_Prelude
begin

text \<open>
  Choosing the next logical block address. \<^verbatim>\<open>apps/nvgen.c\<close>, \<^verbatim>\<open>apps/bench-nvme.c\<close> and
  \<^verbatim>\<open>apps/generator.c\<close> each have a function \<^verbatim>\<open>next_lba\<close> of their own, with a sequential, a
  random and (two of them) a fixed walk, and split the blocks of the device among the threads.

  The locale \<open>lba_walk\<close> is the contract that the thread bodies rely on: every command stays inside
  the range of the thread. It is interpreted on the walks that keep it.
\<close>

section \<open>The three functions\<close>

text \<open>
  \<^verbatim>\<open>rnd\<close> is the value of \<^verbatim>\<open>rand()\<close>; the remainder is taken in \<^verbatim>\<open>unsigned long\<close>.
\<close>

definition rand_lba :: "u64 \<Rightarrow> u64 \<Rightarrow> u64 \<Rightarrow> u64 \<Rightarrow> u64 outcome" where
  "rand_lba rnd lba_start lba_end nblocks =
     (if lba_end - lba_start - nblocks = 0 then Inl DivByZero
      else Inr (rnd mod (lba_end - lba_start - nblocks) + lba_start))"

definition NVGEN_WALK_MODE_SEQ :: int where "NVGEN_WALK_MODE_SEQ = 0"
definition NVGEN_WALK_MODE_RANDOM :: int where "NVGEN_WALK_MODE_RANDOM = 1"
definition NVGEN_WALK_MODE_SAME :: int where "NVGEN_WALK_MODE_SAME = 2"

definition nvgen_next_lba :: "int \<Rightarrow> u64 \<Rightarrow> u64 \<Rightarrow> u64 \<Rightarrow> u64 \<Rightarrow> u64 \<Rightarrow> u64 outcome" where
  "nvgen_next_lba walk rnd lba lba_start lba_end nblocks =
     (if walk = NVGEN_WALK_MODE_SEQ
      then Inr (if lba + push_bit 1 nblocks < lba_end then lba + nblocks else lba_start)
      else if walk = NVGEN_WALK_MODE_RANDOM then rand_lba rnd lba_start lba_end nblocks
      else if walk = NVGEN_WALK_MODE_SAME then Inr lba
      else Inr 0)"

datatype bench_walk = WALK_RANDOM | WALK_SEQ | WALK_SAME

fun bench_next_lba :: "bench_walk \<Rightarrow> u64 \<Rightarrow> u64 \<Rightarrow> u64 \<Rightarrow> u64 \<Rightarrow> u64 \<Rightarrow> u64 outcome" where
  "bench_next_lba WALK_RANDOM rnd lba lba_start lba_end nblocks = rand_lba rnd lba_start lba_end nblocks"
| "bench_next_lba WALK_SAME rnd lba lba_start lba_end nblocks = Inr lba"
| "bench_next_lba WALK_SEQ rnd lba lba_start lba_end nblocks =
     Inr (if lba + push_bit 1 nblocks < lba_end then lba + nblocks else lba_start)"

datatype gen_walk = WALK_MODE_SEQ | WALK_MODE_RANDOM

fun gen_next_lba :: "gen_walk \<Rightarrow> u64 \<Rightarrow> u64 \<Rightarrow> u64 \<Rightarrow> u64 \<Rightarrow> u64 \<Rightarrow> u64 outcome" where
  "gen_next_lba WALK_MODE_SEQ rnd lba lba_start lba_end nblocks =
     Inr (if lba + nblocks < lba_end then lba + nblocks else lba_start)"
| "gen_next_lba WALK_MODE_RANDOM rnd lba lba_start lba_end nblocks = rand_lba rnd lba_start lba_end nblocks"

section \<open>Splitting the device among threads\<close>

text \<open>
  \<^verbatim>\<open>lba_end / ncpus * cpu\<close> to \<^verbatim>\<open>lba_end / ncpus * (cpu + 1)\<close>, as \<^verbatim>\<open>nvgen_init_thread_body\<close>
  and \<^verbatim>\<open>bench-nvme\<close> (\<^verbatim>\<open>SPLIT_EQUAL\<close>) compute it; \<^verbatim>\<open>ncpus\<close> is converted to
  \<^verbatim>\<open>unsigned long\<close>.
\<close>

definition split_start :: "u64 \<Rightarrow> u64 \<Rightarrow> u64 \<Rightarrow> u64" where
  "split_start lba_end ncpus cpu = lba_end div ncpus * cpu"

definition split_end :: "u64 \<Rightarrow> u64 \<Rightarrow> u64 \<Rightarrow> u64" where
  "split_end lba_end ncpus cpu = lba_end div ncpus * (cpu + 1)"

text \<open>\<^verbatim>\<open>generator\<close> splits the length of the range and does not add its start.\<close>

definition gen_split_start :: "u64 \<Rightarrow> u64 \<Rightarrow> u64 \<Rightarrow> u64 \<Rightarrow> u64" where
  "gen_split_start lba_start lba_end ncpus n = (lba_end - lba_start) div ncpus * n"

definition gen_split_end :: "u64 \<Rightarrow> u64 \<Rightarrow> u64 \<Rightarrow> u64 \<Rightarrow> u64" where
  "gen_split_end lba_start lba_end ncpus n = (lba_end - lba_start) div ncpus * (n + 1)"

section \<open>Walks that stay in range\<close>

text \<open>The blocks of a command.\<close>

definition blocks :: "u64 \<Rightarrow> u64 \<Rightarrow> nat set" where
  "blocks lba nblocks = {unat lba ..< unat lba + unat nblocks}"

text \<open>A sequence of commands: the addresses used, one random number per command.\<close>

fun lba_run :: "(u64 \<Rightarrow> u64 \<Rightarrow> u64 outcome) \<Rightarrow> u64 list \<Rightarrow> u64 \<Rightarrow> (u64 list \<times> u64) outcome" where
  "lba_run next [] lba = Inr ([], lba)"
| "lba_run next (r # rs) lba =
     obind (next r lba) (\<lambda>lba'. obind (lba_run next rs lba') (\<lambda>(ls, l). Inr (lba # ls, l)))"

locale lba_walk =
  fixes next_lba :: "u64 \<Rightarrow> u64 \<Rightarrow> u64 \<Rightarrow> u64 \<Rightarrow> u64 \<Rightarrow> u64 outcome"
    and ok :: "u64 \<Rightarrow> u64 \<Rightarrow> u64 \<Rightarrow> bool"
    and at :: "u64 \<Rightarrow> u64 \<Rightarrow> u64 \<Rightarrow> u64 \<Rightarrow> bool"
  assumes start_at: "ok s e n \<Longrightarrow> at s e n s"
    and next_at: "ok s e n \<Longrightarrow> at s e n lba \<Longrightarrow> \<exists>lba'. next_lba rnd lba s e n = Inr lba' \<and> at s e n lba'"
    and at_range: "ok s e n \<Longrightarrow> at s e n lba \<Longrightarrow> blocks lba n \<subseteq> {unat s ..< unat e}"
begin

lemma run_in_range:
  assumes "ok s e n" "at s e n lba"
  shows "\<exists>ls l. lba_run (\<lambda>r l. next_lba r l s e n) rs lba = Inr (ls, l) \<and> length ls = length rs \<and>
    at s e n l \<and> (\<forall>x \<in> set ls. blocks x n \<subseteq> {unat s ..< unat e})"
  using assms(2)
proof (induction rs arbitrary: lba)
  case (Cons r rs)
  from next_at [OF assms(1) Cons.prems] obtain lba' where
    l: "next_lba r lba s e n = Inr lba'" "at s e n lba'" by blast
  from Cons.IH [OF l(2)] obtain ls l' where "lba_run (\<lambda>r l. next_lba r l s e n) rs lba' = Inr (ls, l')"
    "length ls = length rs" "at s e n l'" "\<forall>x \<in> set ls. blocks x n \<subseteq> {unat s ..< unat e}" by blast
  with l(1) at_range [OF assms(1) Cons.prems] show ?case by simp
qed (simp)

lemma run_from_start:
  assumes "ok s e n"
  shows "\<exists>ls l. lba_run (\<lambda>r l. next_lba r l s e n) rs s = Inr (ls, l) \<and> length ls = length rs \<and>
    (\<forall>x \<in> set ls. blocks x n \<subseteq> {unat s ..< unat e})"
  using run_in_range [OF assms start_at [OF assms]] by blast

end

text \<open>
  The conditions: the range holds more than one command and its end is far enough from the end of
  the 64-bit addresses that the look-ahead of the sequential walk does not wrap.
\<close>

definition lba_ok :: "u64 \<Rightarrow> u64 \<Rightarrow> u64 \<Rightarrow> bool" where
  "lba_ok s e n \<longleftrightarrow> unat s + unat n < unat e \<and> unat e + 2 * unat n < 2 ^ 64"

definition lba_inside :: "u64 \<Rightarrow> u64 \<Rightarrow> u64 \<Rightarrow> u64 \<Rightarrow> bool" where
  "lba_inside s e n lba \<longleftrightarrow> unat s \<le> unat lba \<and> unat lba + unat n \<le> unat e"

lemma lba_inside_start: "lba_ok s e n \<Longrightarrow> lba_inside s e n s"
  by (simp add: lba_ok_def lba_inside_def)

lemma lba_inside_range: "lba_inside s e n lba \<Longrightarrow> blocks lba n \<subseteq> {unat s ..< unat e}"
  by (auto simp: lba_inside_def blocks_def)

lemma seq_inside:
  assumes "lba_ok s e n" "lba_inside s e n lba"
  shows "lba_inside s e n (if lba + push_bit 1 n < e then lba + n else s)"
proof -
  have "unat (push_bit 1 n) = 2 * unat n"
    using assms(1) by (simp add: lba_ok_def push_bit_eq_mult unat_word_ariths)
  then have "unat (lba + push_bit 1 n) = unat lba + 2 * unat n"
    using assms by (simp add: lba_ok_def lba_inside_def nowrap)
  moreover have "unat (lba + n) = unat lba + unat n"
    using assms by (simp add: lba_ok_def lba_inside_def nowrap)
  ultimately show ?thesis
    using assms by (auto simp: lba_ok_def lba_inside_def word_nat)
qed

lemmas seq_inside_cases = seq_inside [simplified, unfolded if_split, simplified]

lemma random_inside:
  assumes "lba_ok s e n"
  shows "\<exists>lba'. rand_lba rnd s e n = Inr lba' \<and> lba_inside s e n lba'"
proof -
  let ?w = "e - s - n"
  have "unat (e - s) = unat e - unat s"
    using assms by (simp add: lba_ok_def nowrap)
  moreover from this have "unat n \<le> unat (e - s)"
    using assms by (auto simp: lba_ok_def)
  ultimately have w: "unat ?w = unat e - unat s - unat n"
    by (simp only: unat_sub_nowrap)
  then have pos: "0 < unat ?w" using assms by (simp add: lba_ok_def)
  then have "?w \<noteq> 0" by (auto simp: word_nat)
  moreover have "unat (rnd mod ?w) < unat ?w" using pos by (simp add: unat_mod)
  moreover from this have "unat (rnd mod ?w + s) = unat (rnd mod ?w) + unat s"
    using w unat_u64_less [of e] by (simp add: nowrap)
  ultimately show ?thesis
    using w by (auto simp: rand_lba_def lba_inside_def)
qed

interpretation nv_seq: lba_walk "nvgen_next_lba NVGEN_WALK_MODE_SEQ" lba_ok lba_inside
  by unfold_locales (simp_all add: lba_inside_start seq_inside_cases lba_inside_range nvgen_next_lba_def)

interpretation nv_random: lba_walk "nvgen_next_lba NVGEN_WALK_MODE_RANDOM" lba_ok lba_inside
  by unfold_locales (simp_all add: lba_inside_start random_inside lba_inside_range nvgen_next_lba_def
      NVGEN_WALK_MODE_SEQ_def NVGEN_WALK_MODE_RANDOM_def)

interpretation bench: lba_walk "bench_next_lba w" lba_ok lba_inside for w
  by (unfold_locales; cases w) (simp_all add: lba_inside_start random_inside seq_inside_cases lba_inside_range)

interpretation gen_random: lba_walk "gen_next_lba WALK_MODE_RANDOM" lba_ok lba_inside
  by unfold_locales (simp_all add: lba_inside_start random_inside lba_inside_range)

text \<open>
  The sequential walk of \<^verbatim>\<open>generator\<close> looks only one command ahead; it stays inside when the
  range is a whole number of commands.
\<close>

definition lba_whole :: "u64 \<Rightarrow> u64 \<Rightarrow> u64 \<Rightarrow> bool" where
  "lba_whole s e n \<longleftrightarrow> unat s < unat e \<and> 0 < unat n \<and> unat n dvd unat e - unat s \<and>
     unat e + unat n < 2 ^ 64"

definition lba_aligned :: "u64 \<Rightarrow> u64 \<Rightarrow> u64 \<Rightarrow> u64 \<Rightarrow> bool" where
  "lba_aligned s e n lba \<longleftrightarrow> unat s \<le> unat lba \<and> unat lba < unat e \<and> unat n dvd unat lba - unat s"

lemma aligned_range:
  assumes "lba_whole s e n" "lba_aligned s e n lba"
  shows "unat lba + unat n \<le> unat e"
proof -
  let ?d = "unat lba - unat s" and ?w = "unat e - unat s"
  have "unat n dvd ?w - ?d"
    by (rule dvd_diff_nat) (use assms in \<open>simp_all add: lba_whole_def lba_aligned_def\<close>)
  moreover have "0 < ?w - ?d" using assms(2) by (simp add: lba_aligned_def)
  ultimately have "unat n \<le> ?w - ?d" by (rule dvd_imp_le)
  moreover have "unat s \<le> unat lba" "unat lba < unat e" using assms(2) by (simp_all add: lba_aligned_def)
  ultimately show ?thesis by linarith
qed

interpretation gen_seq: lba_walk "gen_next_lba WALK_MODE_SEQ" lba_whole lba_aligned
proof
  show "lba_aligned s e n s" if "lba_whole s e n" for s e n
    using that by (simp add: lba_whole_def lba_aligned_def)
next
  fix s e n lba rnd
  assume a: "lba_whole s e n" "lba_aligned s e n lba"
  have "unat (lba + n) = unat lba + unat n"
    using a by (simp add: lba_whole_def lba_aligned_def nowrap)
  moreover have "unat n dvd (unat lba - unat s) + unat n"
    using a by (intro dvd_add dvd_refl) (simp add: lba_aligned_def)
  then have "unat n dvd unat lba + unat n - unat s"
    using a(2) unfolding lba_aligned_def by (metis Nat.add_diff_assoc2)
  ultimately have "lba_aligned s e n (if lba + n < e then lba + n else s)"
    using a by (simp add: lba_whole_def lba_aligned_def word_nat)
  then show "\<exists>lba'. gen_next_lba WALK_MODE_SEQ rnd lba s e n = Inr lba' \<and> lba_aligned s e n lba'"
    by simp
next
  show "blocks lba n \<subseteq> {unat s ..< unat e}" if "lba_whole s e n" "lba_aligned s e n lba" for s e n lba
    using aligned_range [OF that] that(2) by (auto simp: blocks_def lba_aligned_def)
qed

section \<open>The ranges of the threads\<close>

lemma split_nat:
  assumes "0 < unat ncpus" "unat cpu < unat ncpus"
  shows "unat (split_start lba_end ncpus cpu) = unat lba_end div unat ncpus * unat cpu"
    and "unat (split_end lba_end ncpus cpu) = unat lba_end div unat ncpus * Suc (unat cpu)"
    and "unat lba_end div unat ncpus * Suc (unat cpu) \<le> unat lba_end"
proof -
  let ?q = "unat lba_end div unat ncpus"
  have "?q * Suc (unat cpu) \<le> ?q * unat ncpus" using assms(2) by (intro mult_le_mono2) simp
  also have "\<dots> \<le> unat lba_end" by simp
  finally show le: "?q * Suc (unat cpu) \<le> unat lba_end" .
  moreover have "?q * unat cpu \<le> ?q * Suc (unat cpu)" by (intro mult_le_mono2) simp
  ultimately have less: "?q * Suc (unat cpu) < 2 ^ 64" "?q * unat cpu < 2 ^ 64"
    using unat_u64_less [of lba_end] by linarith+
  have c: "unat (cpu + 1) = Suc (unat cpu)"
    using assms(2) unat_u64_less [of ncpus] by (simp add: nowrap)
  show "unat (split_start lba_end ncpus cpu) = ?q * unat cpu"
    using less(2) by (simp add: split_start_def unat_mult_nowrap unat_div)
  show "unat (split_end lba_end ncpus cpu) = ?q * Suc (unat cpu)"
    using less(1) c unfolding split_end_def by (subst unat_mult_nowrap) (simp_all add: unat_div)
qed

lemma split_disjoint:
  assumes "unat c < unat ncpus" "unat d < unat ncpus" "c \<noteq> d"
  shows "{unat (split_start e ncpus c) ..< unat (split_end e ncpus c)} \<inter>
         {unat (split_start e ncpus d) ..< unat (split_end e ncpus d)} = {}"
proof -
  let ?q = "unat e div unat ncpus"
  have "Suc (unat c) \<le> unat d \<or> Suc (unat d) \<le> unat c"
    using assms(3) by (auto simp: word_nat)
  then have "?q * Suc (unat c) \<le> ?q * unat d \<or> ?q * Suc (unat d) \<le> ?q * unat c"
    using mult_le_mono2 by blast
  with split_nat(1,2) [OF _ assms(1), of e] split_nat(1,2) [OF _ assms(2), of e] assms(1,2)
  show ?thesis by auto
qed

end
