(* ===== verification/Nvme_Io.thy ===== *)
theory Nvme_Io
  imports Lba_Walk Pop_Buf
begin

text \<open>
  Commands to an NVMe device. The programs send them through the functions \<^verbatim>\<open>unvme_aread\<close>,
  \<^verbatim>\<open>unvme_awrite\<close>, \<^verbatim>\<open>unvme_read\<close> and \<^verbatim>\<open>unvme_write\<close> of a library that is not part of
  the sources; what matters here is which blocks a command addresses and which memory the device
  reads or writes. The size of a block and the answers of \<^verbatim>\<open>unvme_apoll\<close> are parameters.
\<close>

record nvme_ns =
  ns_blocksize :: nat
  ns_blockshift :: nat

text \<open>The block size is the power of two given by the shift, at most a memory page of 64 KB.\<close>

definition ns_documented :: "nvme_ns \<Rightarrow> bool" where
  "ns_documented ns \<longleftrightarrow> ns_blocksize ns = 2 ^ ns_blockshift ns \<and> ns_blockshift ns \<le> 16"

text \<open>
  The calls of \<^verbatim>\<open>main\<close> on the library: a device is opened by name (\<^const>\<open>None\<close> for a null pointer), the region
  of pop memory is registered with it. \<open>'u\<close> is the state of the library.
\<close>

record ('m, 'u) unvme_api =
  unvme_open :: "string option \<Rightarrow> 'u \<Rightarrow> nvme_ns option \<times> 'u"
  unvme_register_pop_mem :: "'m \<Rightarrow> 'u \<Rightarrow> 'u"

datatype nvme_mode = NVME_CMD_READ | NVME_CMD_WRITE

record nvme_cmd =
  cmd_mode :: nvme_mode
  cmd_qid :: int
  cmd_buf :: addr
  cmd_lba :: u64
  cmd_nblocks :: u32

definition cmd_blocks :: "nvme_cmd \<Rightarrow> nat set" where
  "cmd_blocks c = blocks (cmd_lba c) (ucast (cmd_nblocks c))"

definition cmd_dma :: "nvme_ns \<Rightarrow> nvme_cmd \<Rightarrow> nat set" where
  "cmd_dma ns c = {unat (cmd_buf c) ..< unat (cmd_buf c) + unat (cmd_nblocks c) * 2 ^ ns_blockshift ns}"

text \<open>The memory given to one command: a buffer of the region that is filled up to the command's size.\<close>

lemma alloc_put_data:
  assumes "mem_ok m" "pop_buf_alloc mo mp m sz = Some (Inr b, m')"
  shows "pop_buf_data (snd (pop_buf_put b sz)) = pb_vaddr b" "span (pb_vaddr b) sz \<subseteq> buf_bytes b"
proof -
  from pop_buf_alloc_granted [OF assms] obtain n where n: "unat n \<le> free_pages m" "b = fill_buf mp m n"
    "unat n = pages_needed (unat sz)" by metis
  show "pop_buf_data (snd (pop_buf_put b sz)) = pb_vaddr b"
    using n(2) by (simp add: pop_buf_put_def pop_buf_data_def fill_buf_def Let_def)
  have "unat sz \<le> unat n * 4096"
    using n(3) by (simp add: pages_needed_def)
  moreover have "unat (pb_size b) = unat n * 4096"
    using n(2) unat_granted_size [OF assms(1) n(1)] by (simp add: fill_buf_def)
  ultimately show "span (pb_vaddr b) sz \<subseteq> buf_bytes b"
    by (auto simp: buf_bytes_def span_def)
qed

text \<open>The packet buffers of 2048 bytes in a buffer of the region.\<close>

lemma packet_slot:
  assumes "mem_ok m" "buf_of_mem m b"
    and "unat (pm_num_pages m) * 4096 \<le> unat (pm_size m)" "unat (pm_mem m) + unat (pm_size m) < 2 ^ 64"
    and "i < k" "2048 * k \<le> unat (pb_size b)"
  shows "pop_virt_to_phys m (pb_vaddr b + of_nat (2048 * i)) = pb_paddr b + of_nat (2048 * i) \<and>
    span (pb_vaddr b + of_nat (2048 * i)) 2048 \<subseteq> buf_bytes b"
proof -
  have le: "2048 * i + 2048 \<le> unat (pb_size b)" using assms(5,6) by simp
  then have u: "unat (of_nat (2048 * i) :: u64) = 2048 * i"
    using unat_u64_less [of "pb_size b"] by (intro unat_of_nat_nowrap) simp
  have "unat (pb_vaddr b) + unat (pb_size b) < 2 ^ 64"
    using assms(2-4) by (auto simp: buf_of_mem_def nowrap)
  then have "unat (pb_vaddr b + of_nat (2048 * i)) = unat (pb_vaddr b) + 2048 * i"
    using u le by (subst unat_add_nowrap) simp_all
  then have "span (pb_vaddr b + of_nat (2048 * i)) 2048 \<subseteq> buf_bytes b"
    using le by (auto simp: span_def buf_bytes_def)
  moreover have "pop_virt_to_phys m (pb_vaddr b + of_nat (2048 * i)) = pb_paddr b + of_nat (2048 * i)"
    by (rule pop_virt_to_phys_buf [OF assms(1,2) _ assms(3,4)]) (use u le in simp)
  ultimately show ?thesis by blast
qed

end
