(* ===== verification/Counters.thy ===== *)
theory Counters
  imports Pop_Prelude
begin

text \<open>
  The reporting threads of the generators (\<^verbatim>\<open>count_thread\<close> in \<^verbatim>\<open>apps/nvgen.c\<close> and
  \<^verbatim>\<open>apps/nmgen.c\<close>). Until a signal arrives they copy the counters of all threads, sleep, copy
  them again and report the sums of the differences; then they ask the threads to stop.

  What a report thread sees is a list of observations, one for each turn of its loop; the list ends
  when the signal is seen at the head of the loop. The totals are \<^verbatim>\<open>double\<close>s in the code and
  integers here: they agree below \<open>2 ^ 53\<close>. The division by the elapsed time is left to the printer.
\<close>

section \<open>The report loop\<close>

record timeval =
  tv_sec :: int
  tv_usec :: int

record 't observation =
  ob_before :: "'t list"
  ob_start :: timeval
  ob_after :: "'t list"
  ob_stop :: timeval
  ob_caught :: bool

definition elapsed_usec :: "timeval \<Rightarrow> timeval \<Rightarrow> int" where
  "elapsed_usec b a = tv_sec a * 1000000 + tv_usec a - (tv_sec b * 1000000 + tv_usec b)"

definition counter_total :: "('t \<Rightarrow> u64) \<Rightarrow> nat \<Rightarrow> 't list \<Rightarrow> 't list \<Rightarrow> int" where
  "counter_total f n b a = sum_list (map (\<lambda>i. uint (f (a ! i) - f (b ! i))) [0..<n])"

text \<open>The copies are arrays of 32 elements, as are the structures of the threads.\<close>

fun count_loop :: "('t \<Rightarrow> u64) list \<Rightarrow> int \<Rightarrow> 't observation list \<Rightarrow> (int list \<times> int) list outcome" where
  "count_loop fs ncpus [] = Inr []"
| "count_loop fs ncpus (x # xs) =
     (let n = nat ncpus in
      if n \<le> 32 \<and> n \<le> length (ob_before x) \<and> n \<le> length (ob_after x)
      then if ob_caught x then Inr []
           else obind (count_loop fs ncpus xs) (\<lambda>rs.
             Inr ((map (\<lambda>f. counter_total f n (ob_before x) (ob_after x)) fs,
                   elapsed_usec (ob_start x) (ob_stop x)) # rs))
      else Inl OutOfBounds)"

definition stop_threads :: "('t \<Rightarrow> 't) \<Rightarrow> int \<Rightarrow> 't list \<Rightarrow> 't list outcome" where
  "stop_threads cancel ncpus ths =
     (if nat ncpus \<le> length ths then Inr (map cancel (take (nat ncpus) ths) @ drop (nat ncpus) ths)
      else Inl OutOfBounds)"

definition count_thread :: "('t \<Rightarrow> u64) list \<Rightarrow> ('t \<Rightarrow> 't) \<Rightarrow> int \<Rightarrow> 't observation list \<Rightarrow> 't list
    \<Rightarrow> ((int list \<times> int) list \<times> 't list) outcome" where
  "count_thread fs cancel ncpus obs ths =
     obind (count_loop fs ncpus obs) (\<lambda>rs.
     obind (stop_threads cancel ncpus ths) (\<lambda>ths'. Inr (rs, ths')))"

section \<open>The reported totals\<close>

text \<open>
  A counter of 64 bits that has counted \<open>d\<close> events since the first copy, possibly wrapping around,
  gives the difference \<open>d\<close>; the total of a report is the number of events in its interval.
\<close>

lemma counter_total_exact:
  assumes "\<And>i. i < n \<Longrightarrow> f (a ! i) = f (b ! i) + of_nat (d i)" "\<And>i. i < n \<Longrightarrow> d i < 2 ^ 64"
  shows "counter_total f n b a = int (\<Sum>i < n. d i)"
proof -
  have "uint (f (a ! i) - f (b ! i)) = int (d i)" if "i < n" for i
    using assms [OF that] by (simp add: uint_nat nowrap)
  then have "map (\<lambda>i. uint (f (a ! i) - f (b ! i))) [0..<n] = map (\<lambda>i. int (d i)) [0..<n]" by simp
  then show ?thesis
    by (simp only: counter_total_def interv_sum_list_conv_sum_set_nat) (simp add: atLeast0LessThan)
qed

text \<open>With at most 32 threads a report thread never leaves its arrays and stops every thread.\<close>

lemma count_loop_returns:
  assumes "ncpus \<le> 32" "\<forall>x \<in> set obs. length (ob_before x) = 32 \<and> length (ob_after x) = 32"
  shows "\<exists>rs. count_loop fs ncpus obs = Inr rs \<and> length rs = length (takeWhile (\<lambda>x. \<not> ob_caught x) obs)"
  using assms(2) by (induction obs) (use assms(1) in \<open>auto simp: Let_def\<close>)

lemma count_thread_stops:
  assumes "ncpus \<le> 32" "\<forall>x \<in> set obs. length (ob_before x) = 32 \<and> length (ob_after x) = 32" "length ths = 32"
  shows "\<exists>rs ths'. count_thread fs cancel ncpus obs ths = Inr (rs, ths') \<and>
    (\<forall>i < 32. ths' ! i = (if int i < ncpus then cancel (ths ! i) else ths ! i))"
proof -
  have "nat ncpus \<le> 32" using assms(1) by simp
  with assms(3) have "stop_threads cancel ncpus ths = Inr (map cancel (take (nat ncpus) ths) @ drop (nat ncpus) ths)"
    by (simp add: stop_threads_def)
  moreover have "(map cancel (take (nat ncpus) ths) @ drop (nat ncpus) ths) ! i
      = (if int i < ncpus then cancel (ths ! i) else ths ! i)" if "i < 32" for i
    using that assms(3) \<open>nat ncpus \<le> 32\<close> by (auto simp: nth_append)
  ultimately show ?thesis
    using count_loop_returns [OF assms(1,2), of fs] unfolding count_thread_def by auto
qed

text \<open>With more threads, as the receivers may have, the arrays overflow in the first turn.\<close>

lemma count_thread_overflows:
  "32 < ncpus \<Longrightarrow> obs \<noteq> [] \<Longrightarrow> count_thread fs cancel ncpus obs ths = Inl OutOfBounds"
  by (cases obs) (auto simp: count_thread_def Let_def)

end
