(* ===== verification/Bench_Nvme.thy ===== *)
theory Bench_Nvme
  imports Nvme_Io C_Getopt Counters
begin

text \<open>
  \<^verbatim>\<open>apps/bench-nvme.c\<close>: threads that keep a queue of NVMe commands filled, each on its own
  queue, its own range of blocks and its own buffers.

  Modelled are the command line, the split of the device, the body of a thread with its buffers,
  its rounds of commands and its counters, and the time and sums of the reports. The
  reports themselves and \<^verbatim>\<open>main\<close> are in the theory \<open>Bench_Main\<close>.
\<close>

section \<open>Parameters\<close>

datatype bench_split = SPLIT_EQUAL | SPLIT_NOSPLIT

definition MAX_BATCH_SIZE :: int where "MAX_BATCH_SIZE = 64"

record bench_param =
  p_mode :: nvme_mode
  p_walk :: bench_walk
  p_split :: bench_split
  p_size :: int
  p_batch :: int
  p_ncpus :: int
  p_time :: int
  p_nvme :: "string option"
  p_p2p :: "string option"
  p_lba_end :: u64
  p_interval :: int

record bench_thread =
  bt_lba_start :: u64
  bt_lba_end :: u64
  bt_cpu :: int
  bt_count :: u64
  bt_bytes :: u64
  bt_start :: timeval
  bt_end :: timeval

definition bench_defaults :: bench_param where
  "bench_defaults = \<lparr>p_mode = NVME_CMD_READ, p_walk = WALK_RANDOM, p_split = SPLIT_EQUAL,
     p_size = 64, p_batch = 1, p_ncpus = 1, p_time = 1, p_nvme = None, p_p2p = None,
     p_lba_end = 0xe8e088b0, p_interval = 250000\<rparr>"

text \<open>
  The options. \<open>cpus\<close> is the result of \<^verbatim>\<open>count_online_cpus\<close>; \<open>scan_usec\<close> reads a number with
  \<^verbatim>\<open>%f\<close> and gives it in microseconds. Options that set a flag of the library only
  (\<^verbatim>\<open>-v\<close>) leave the parameters alone.
\<close>

definition bench_opt ::
    "int \<Rightarrow> (string \<Rightarrow> int option) \<Rightarrow> bench_param \<Rightarrow> char \<times> string \<Rightarrow> int + bench_param" where
  "bench_opt cpus scan_usec p x = (let (ch, optarg) = x in
     if ch = CHR ''m'' then
       (if strncmp_eq optarg ''read'' 4 then Inr (p\<lparr>p_mode := NVME_CMD_READ\<rparr>)
        else if strncmp_eq optarg ''write'' 5 then Inr (p\<lparr>p_mode := NVME_CMD_WRITE\<rparr>)
        else Inl (- 1))
     else if ch = CHR ''w'' then
       (if strncmp_eq optarg ''random'' 6 then Inr (p\<lparr>p_walk := WALK_RANDOM\<rparr>)
        else if strncmp_eq optarg ''seq'' 3 then Inr (p\<lparr>p_walk := WALK_SEQ\<rparr>)
        else if strncmp_eq optarg ''same'' 4 then Inr (p\<lparr>p_walk := WALK_SAME\<rparr>)
        else Inl (- 1))
     else if ch = CHR ''S'' then
       (if strncmp_eq optarg ''equal'' 5 then Inr (p\<lparr>p_split := SPLIT_EQUAL\<rparr>)
        else if strncmp_eq optarg ''nosplit'' 7 then Inr (p\<lparr>p_split := SPLIT_NOSPLIT\<rparr>)
        else Inl (- 1))
     else if ch = CHR ''s'' then
       (if atoi optarg < 0 then Inl (- 1) else Inr (p\<lparr>p_size := atoi optarg\<rparr>))
     else if ch = CHR ''b'' then
       (if atoi optarg < 0 \<or> atoi optarg > MAX_BATCH_SIZE then Inl (- 1)
        else Inr (p\<lparr>p_batch := atoi optarg\<rparr>))
     else if ch = CHR ''n'' then
       (if atoi optarg < 1 \<or> atoi optarg > cpus then Inl (- 1) else Inr (p\<lparr>p_ncpus := atoi optarg\<rparr>))
     else if ch = CHR ''e'' then
       (case scan_0x optarg of None \<Rightarrow> Inl (- 1) | Some v \<Rightarrow> Inr (p\<lparr>p_lba_end := v\<rparr>))
     else if ch = CHR ''t'' then Inr (p\<lparr>p_time := atoi optarg\<rparr>)
     else if ch = CHR ''i'' then
       (case scan_usec optarg of None \<Rightarrow> Inl (- 1) | Some v \<Rightarrow> Inr (p\<lparr>p_interval := v\<rparr>))
     else if ch = CHR ''u'' then Inr (p\<lparr>p_nvme := Some optarg\<rparr>)
     else if ch = CHR ''p'' then
       (if strncmp_eq ''hugepage'' optarg 8 then Inr (p\<lparr>p_p2p := None\<rparr>)
        else Inr (p\<lparr>p_p2p := Some optarg\<rparr>))
     else if ch = CHR ''v'' then Inr p
     else Inl (- 1))"

text \<open>The start of \<^verbatim>\<open>main\<close>, up to the check that a device was given.\<close>

definition bench_args ::
    "int \<Rightarrow> (string \<Rightarrow> int option) \<Rightarrow> string list \<Rightarrow> int + bench_param" where
  "bench_args cpus scan_usec argv =
     (case opt_loop (bench_opt cpus scan_usec) (getopts ''m:w:S:s:b:u:p:n:e:t:i:v'' argv) bench_defaults of
        Inl r \<Rightarrow> Inl r
      | Inr p \<Rightarrow> if p_nvme p = None then Inl (- 1) else Inr p)"

text \<open>The thread structure of cpu \<open>n\<close>, zeroed and filled by the loop of \<^verbatim>\<open>main\<close>.\<close>

definition bench_thread_init :: "bench_param \<Rightarrow> int \<Rightarrow> bench_thread" where
  "bench_thread_init p n =
     (let z = \<lparr>tv_sec = 0, tv_usec = 0\<rparr>;
          th = \<lparr>bt_lba_start = 0, bt_lba_end = 0, bt_cpu = n, bt_count = 0, bt_bytes = 0,
                bt_start = z, bt_end = z\<rparr>
      in case p_split p of
           SPLIT_EQUAL \<Rightarrow>
             th\<lparr>bt_lba_start := split_start (p_lba_end p) (word_of_int (p_ncpus p)) (word_of_int n),
                bt_lba_end := split_end (p_lba_end p) (word_of_int (p_ncpus p)) (word_of_int n)\<rparr>
         | SPLIT_NOSPLIT \<Rightarrow> th\<lparr>bt_lba_start := 0, bt_lba_end := p_lba_end p\<rparr>)"

section \<open>A thread\<close>

definition bench_nblocks :: "nvme_ns \<Rightarrow> int \<Rightarrow> u64" where
  "bench_nblocks ns sz =
     (if sz mod int (ns_blocksize ns) \<noteq> 0 then word_of_int (drop_bit (ns_blockshift ns) sz + 1)
      else word_of_int (drop_bit (ns_blockshift ns) sz))"

definition bench :: "nvme_mode \<Rightarrow> int \<Rightarrow> addr \<Rightarrow> u64 \<Rightarrow> u32 \<Rightarrow> nvme_cmd" where
  "bench mode qid buf lba nblocks =
     \<lparr>cmd_mode = mode, cmd_qid = qid, cmd_buf = buf, cmd_lba = lba, cmd_nblocks = nblocks\<rparr>"

text \<open>
  The buffers of a thread, for the \<open>n\<close> iterations that are left; \<open>mo\<close> gives the answers of
  \<^verbatim>\<open>malloc\<close>. A refused buffer ends the process with \<^verbatim>\<open>exit(0)\<close>.
\<close>

fun bench_bufs ::
    "(nat \<Rightarrow> bool) \<Rightarrow> addr \<Rightarrow> u64 \<Rightarrow> nat \<Rightarrow> pop_mem \<Rightarrow> ((int + pop_buf list) \<times> pop_mem) option" where
  "bench_bufs mo mp sz 0 m = Some (Inr [], m)"
| "bench_bufs mo mp sz (Suc n) m =
     (case pop_buf_alloc (mo n) mp m sz of
        None \<Rightarrow> None
      | Some (Inl e, m1) \<Rightarrow> Some (Inl 0, m1)
      | Some (Inr b, m1) \<Rightarrow>
          (case bench_bufs mo mp sz n m1 of
             None \<Rightarrow> None
           | Some (Inl r, m2) \<Rightarrow> Some (Inl r, m2)
           | Some (Inr bs, m2) \<Rightarrow> Some (Inr (snd (pop_buf_put b sz) # bs), m2)))"

text \<open>One command per buffer, with one value of \<^verbatim>\<open>rand()\<close> each.\<close>

fun bench_issue ::
    "bench_param \<Rightarrow> bench_thread \<Rightarrow> u64 \<Rightarrow> pop_buf list \<Rightarrow> u64 list \<Rightarrow> u64 \<Rightarrow>
     (nvme_cmd list \<times> u64) outcome" where
  "bench_issue p th nblocks (b # bs) (r # rs) lba =
     (let c = bench (p_mode p) (bt_cpu th) (pop_buf_data b) lba (ucast nblocks) in
      obind (bench_next_lba (p_walk p) r lba (bt_lba_start th) (bt_lba_end th) nblocks) (\<lambda>lba'.
      obind (bench_issue p th nblocks bs rs lba') (\<lambda>(cs, l). Inr (c # cs, l))))"
| "bench_issue p th nblocks _ _ lba = Inr ([], lba)"

text \<open>Polling: the results of \<^verbatim>\<open>unvme_apoll\<close> in order.\<close>

fun bench_poll :: "bench_param \<Rightarrow> int list \<Rightarrow> bench_thread \<Rightarrow> bench_thread" where
  "bench_poll p [] th = th"
| "bench_poll p (ret # rets) th =
     bench_poll p rets
       (if ret = 0
        then th\<lparr>bt_bytes := bt_bytes th + word_of_int (p_size p), bt_count := bt_count th + 1\<rparr>
        else th)"

text \<open>The loop until the signal: one pair of random numbers and poll results per round.\<close>

fun bench_loop ::
    "bench_param \<Rightarrow> u64 \<Rightarrow> pop_buf list \<Rightarrow> (u64 list \<times> int list) list \<Rightarrow> u64 \<Rightarrow> bench_thread \<Rightarrow>
     (nvme_cmd list \<times> bench_thread) outcome" where
  "bench_loop p nblocks bufs [] lba th = Inr ([], th)"
| "bench_loop p nblocks bufs ((rs, rets) # rounds) lba th =
     obind (bench_issue p th nblocks bufs rs lba) (\<lambda>(cs, lba').
     obind (bench_loop p nblocks bufs rounds lba' (bench_poll p rets th)) (\<lambda>(ds, th').
     Inr (cs @ ds, th')))"

definition bench_start ::
    "nvme_ns \<Rightarrow> bench_param \<Rightarrow> (nat \<Rightarrow> bool) \<Rightarrow> addr \<Rightarrow> timeval \<times> timeval \<Rightarrow> (u64 list \<times> int list) list \<Rightarrow>
     bench_thread \<Rightarrow> pop_mem \<Rightarrow> ((int + (nvme_cmd list \<times> bench_thread) outcome) \<times> pop_mem) option" where
  "bench_start ns p mo mp ts rounds th m =
     (let nblocks = bench_nblocks ns (p_size p) in
      case bench_bufs mo mp (push_bit (ns_blockshift ns) nblocks) (nat (p_batch p)) m of
        None \<Rightarrow> None
      | Some (Inl r, m1) \<Rightarrow> Some (Inl r, m1)
      | Some (Inr bufs, m1) \<Rightarrow>
          Some (Inr (obind
            (bench_loop p nblocks bufs rounds (bt_lba_start th) (th\<lparr>bt_start := fst ts\<rparr>))
            (\<lambda>(cs, th'). Inr (cs, th'\<lparr>bt_end := snd ts\<rparr>))), m1))"

section \<open>Reports\<close>

text \<open>
  The numbers of microseconds between two times. The difference of the signed fields is converted
  to \<^verbatim>\<open>unsigned long\<close>.
\<close>

definition get_usec_elapsed :: "timeval \<Rightarrow> timeval \<Rightarrow> u64" where
  "get_usec_elapsed start end =
     (let end1 = (if tv_usec end < tv_usec start
                  then end\<lparr>tv_usec := tv_usec end + 1000000, tv_sec := tv_sec end - 1\<rparr> else end)
      in word_of_int ((tv_sec end1 - tv_sec start) * 1000000 + tv_usec end1 - tv_usec start))"

text \<open>The sums over the threads before and after the sleep of \<^verbatim>\<open>print_interval_result\<close>, as differences.\<close>

definition print_interval_result :: "bench_thread list \<Rightarrow> bench_thread list \<Rightarrow> u64 \<times> u64" where
  "print_interval_result before after =
     (sum_list (map bt_count after) - sum_list (map bt_count before),
      sum_list (map bt_bytes after) - sum_list (map bt_bytes before))"

section \<open>The command line\<close>

text \<open>What the accepted parameters satisfy: the number of commands fits the arrays of a thread.\<close>

definition bench_param_ok :: "int \<Rightarrow> bench_param \<Rightarrow> bool" where
  "bench_param_ok cpus p \<longleftrightarrow> 0 \<le> p_size p \<and> p_size p < 2 ^ 31 \<and> 0 \<le> p_batch p \<and>
     p_batch p \<le> MAX_BATCH_SIZE \<and> 1 \<le> p_ncpus p \<and> p_ncpus p \<le> max 1 cpus"

lemma bench_opt_keeps:
  assumes "bench_param_ok cpus p" "bench_opt cpus su p x = Inr p'"
  shows "bench_param_ok cpus p'"
  using assms atoi_range [of "snd x"]
  by (auto simp: bench_opt_def bench_param_ok_def Let_def split: prod.splits if_splits option.splits)

interpretation bench_options: option_parser "bench_opt cpus su" bench_defaults "bench_param_ok cpus" "- 1" for cpus su
proof
  show "bench_param_ok cpus bench_defaults" for cpus
    by (simp add: bench_param_ok_def bench_defaults_def MAX_BATCH_SIZE_def)
  show "r = - 1" if "bench_opt cpus su p x = Inl r" for cpus su p x r
    using that by (simp add: bench_opt_def Let_def split: prod.splits if_splits option.splits)
qed (rule bench_opt_keeps)

section \<open>Lemmas on a thread\<close>

lemma bench_nblocks_nat:
  assumes "ns_documented ns" "0 \<le> sz" "sz < 2 ^ 31"
  shows "unat (bench_nblocks ns sz) = (nat sz + 2 ^ ns_blockshift ns - 1) div 2 ^ ns_blockshift ns"
proof -
  let ?b = "2 ^ ns_blockshift ns :: nat"
  obtain k where k: "sz = int k" "k < 2 ^ 31"
    using assms(2,3) by (metis nat_less_numeral_power_cancel_iff zero_le_imp_eq_int nat_int)
  have d: "drop_bit (ns_blockshift ns) sz = int (k div ?b)"
    by (simp add: k drop_bit_eq_div zdiv_int)
  have q: "k div ?b \<le> k" by simp
  have up: "(k + ?b - 1) div ?b = (if k mod ?b = 0 then k div ?b else Suc (k div ?b))"
    by (rule ceil_div) simp
  have "sz mod int (ns_blocksize ns) = int (k mod ?b)"
    using assms(1) unfolding ns_documented_def k zmod_int by simp
  then have "sz mod int (ns_blocksize ns) \<noteq> 0 \<longleftrightarrow> k mod ?b \<noteq> 0"
    by (simp only: of_nat_eq_0_iff)
  then have n: "bench_nblocks ns sz = of_nat (if k mod ?b = 0 then k div ?b else Suc (k div ?b))"
    unfolding bench_nblocks_def d by (simp del: of_nat_div)
  have "(if k mod ?b = 0 then k div ?b else Suc (k div ?b)) < 2 ^ 64"
    using q k(2) by (simp del: div_le_dividend)
  then have "unat (bench_nblocks ns sz) = (k + ?b - 1) div ?b"
    unfolding n up by (intro unat_of_nat_nowrap) simp
  then show ?thesis by (simp add: k)
qed

lemma bench_size_nat:
  assumes "ns_documented ns" "0 \<le> sz" "sz < 2 ^ 31"
  shows "unat (bench_nblocks ns sz) < 2 ^ 32"
    and "unat (push_bit (ns_blockshift ns) (bench_nblocks ns sz))
      = unat (bench_nblocks ns sz) * 2 ^ ns_blockshift ns"
proof -
  let ?b = "2 ^ ns_blockshift ns :: nat" and ?n = "unat (bench_nblocks ns sz)"
  have "?b \<le> 2 ^ 16" using assms(1) by (intro power_increasing) (simp_all add: ns_documented_def)
  then have b: "?b \<le> 65536" by simp
  have "?n * ?b \<le> nat sz + ?b - 1"
    unfolding bench_nblocks_nat [OF assms] by (rule div_times_less_eq_dividend)
  moreover have "nat sz < 2147483648" using assms(2,3) by simp
  ultimately have less: "?n * ?b < 4294967296" using b by linarith
  moreover have "?n * 1 \<le> ?n * ?b" by (intro mult_le_mono2) simp
  ultimately have "?n < 4294967296" by linarith
  then show "?n < 2 ^ 32" by simp
  show "unat (push_bit (ns_blockshift ns) (bench_nblocks ns sz)) = ?n * ?b"
    using less assms(1)
    by (simp add: push_bit_eq_mult ns_documented_def unat_mult_nowrap unat_pow2)
qed

text \<open>The buffers of a thread are disjoint, inside the free part of the region, and taken from it.\<close>

lemma bench_bufs_taken:
  assumes "mem_ok m" "bench_bufs mo mp sz n m = Some (Inr bs, m')"
  shows "mem_ok m' \<and> length bs = n \<and> free_bytes m' \<subseteq> free_bytes m \<and>
    (\<forall>b \<in> set bs. span (pop_buf_data b) sz \<subseteq> free_bytes m - free_bytes m') \<and>
    sorted_wrt (\<lambda>b c. span (pop_buf_data b) sz \<inter> span (pop_buf_data c) sz = {}) bs"
  using assms
proof (induction n arbitrary: m bs)
  case (Suc n)
  from Suc.prems(2) obtain b m1 cs where a: "pop_buf_alloc (mo n) mp m sz = Some (Inr b, m1)"
    and rest: "bench_bufs mo mp sz n m1 = Some (Inr cs, m')" and bs: "bs = snd (pop_buf_put b sz) # cs"
    by (auto split: option.splits sum.splits)
  have g: "mem_ok m1 \<and> buf_bytes b \<subseteq> free_bytes m \<and> free_bytes m1 = free_bytes m - buf_bytes b"
    by (rule virt.grant [OF Suc.prems(1), of "(mo n, mp, sz)"]) (simp add: a)
  have "mem_ok m1" using g by blast
  note ih = Suc.IH [OF this rest] and d = alloc_put_data [OF Suc.prems(1) a]
  have "span (pop_buf_data c) sz \<subseteq> free_bytes m - free_bytes m' \<and>
      span (pb_vaddr b) sz \<inter> span (pop_buf_data c) sz = {}" if "c \<in> set cs" for c
    using ih g d(2) that by blast
  moreover have "span (pb_vaddr b) sz \<subseteq> free_bytes m - free_bytes m'"
    using ih g d(2) by blast
  ultimately show ?case
    using ih g by (auto simp: bs d(1))
qed (simp)

text \<open>The commands of one round are a run of the walk.\<close>

lemma bench_issue_run:
  "bench_issue p th nb bs rs lba =
     obind (lba_run (\<lambda>r l. bench_next_lba (p_walk p) r l (bt_lba_start th) (bt_lba_end th) nb)
              (map snd (zip bs rs)) lba)
       (\<lambda>(ls, l). Inr (map2 (\<lambda>b l. bench (p_mode p) (bt_cpu th) (pop_buf_data b) l (ucast nb)) bs ls, l))"
  by (induction p th nb bs rs lba rule: bench_issue.induct)
    (auto simp: obind_def Let_def split: sum.splits prod.splits)

definition bench_cmd_ok :: "bench_thread \<Rightarrow> u64 \<Rightarrow> pop_buf list \<Rightarrow> nvme_cmd \<Rightarrow> bool" where
  "bench_cmd_ok th nb bs c \<longleftrightarrow> cmd_nblocks c = ucast nb \<and> cmd_buf c \<in> pop_buf_data ` set bs \<and>
     blocks (cmd_lba c) nb \<subseteq> {unat (bt_lba_start th) ..< unat (bt_lba_end th)}"

lemma bench_issue_ok:
  assumes "lba_ok (bt_lba_start th) (bt_lba_end th) nb"
    and "lba_inside (bt_lba_start th) (bt_lba_end th) nb lba"
  shows "\<exists>cs l. bench_issue p th nb bs rs lba = Inr (cs, l) \<and>
    lba_inside (bt_lba_start th) (bt_lba_end th) nb l \<and> (\<forall>c \<in> set cs. bench_cmd_ok th nb bs c)"
proof -
  from bench.run_in_range [OF assms, of "p_walk p" "map snd (zip bs rs)"] obtain ls l where ls:
    "lba_run (\<lambda>r l. bench_next_lba (p_walk p) r l (bt_lba_start th) (bt_lba_end th) nb)
       (map snd (zip bs rs)) lba = Inr (ls, l)"
    "lba_inside (bt_lba_start th) (bt_lba_end th) nb l"
    "\<forall>x \<in> set ls. blocks x nb \<subseteq> {unat (bt_lba_start th) ..< unat (bt_lba_end th)}" by blast
  have "bench_cmd_ok th nb bs (bench (p_mode p) (bt_cpu th) (pop_buf_data b) x (ucast nb))"
    if "(b, x) \<in> set (zip bs ls)" for b x
    using set_zip_leftD [OF that] set_zip_rightD [OF that] ls(3) by (simp add: bench_cmd_ok_def bench_def)
  with ls(1,2) show ?thesis
    by (auto simp: bench_issue_run)
qed

lemma bench_poll_fields:
  "bt_lba_start (bench_poll p rets th) = bt_lba_start th \<and> bt_lba_end (bench_poll p rets th) = bt_lba_end th"
  by (induction p rets th rule: bench_poll.induct) simp_all

lemma bench_poll_counts:
  "bt_count (bench_poll p rets th) = bt_count th + of_nat (length (filter ((=) 0) rets)) \<and>
   bt_bytes (bench_poll p rets th)
     = bt_bytes th + of_nat (length (filter ((=) 0) rets)) * word_of_int (p_size p)"
  by (induction p rets th rule: bench_poll.induct) (auto simp: algebra_simps)

definition bench_done :: "(u64 list \<times> int list) list \<Rightarrow> nat" where
  "bench_done rounds = length (filter ((=) 0) (concat (map snd rounds)))"

lemma bench_loop_ok:
  assumes "lba_ok (bt_lba_start th) (bt_lba_end th) nb"
    and "lba_inside (bt_lba_start th) (bt_lba_end th) nb lba"
  shows "\<exists>cs th'. bench_loop p nb bs rounds lba th = Inr (cs, th') \<and>
    (\<forall>c \<in> set cs. bench_cmd_ok th nb bs c) \<and>
    bt_count th' = bt_count th + of_nat (bench_done rounds) \<and>
    bt_bytes th' = bt_bytes th + of_nat (bench_done rounds) * word_of_int (p_size p)"
  using assms
proof (induction rounds arbitrary: lba th)
  case (Cons x rounds)
  obtain rs rets where x: "x = (rs, rets)" by (cases x)
  from bench_issue_ok [OF Cons.prems, of p bs rs] obtain cs l where
    cs: "bench_issue p th nb bs rs lba = Inr (cs, l)" "\<forall>c \<in> set cs. bench_cmd_ok th nb bs c"
    and l: "lba_inside (bt_lba_start th) (bt_lba_end th) nb l" by blast
  let ?th = "bench_poll p rets th"
  have ok: "bench_cmd_ok ?th nb bs c = bench_cmd_ok th nb bs c" for c
    by (simp add: bench_cmd_ok_def bench_poll_fields)
  from Cons.IH [of ?th l] Cons.prems(1) l obtain ds th' where
    "bench_loop p nb bs rounds l ?th = Inr (ds, th')" "\<forall>c \<in> set ds. bench_cmd_ok th nb bs c"
    "bt_count th' = bt_count ?th + of_nat (bench_done rounds)"
    "bt_bytes th' = bt_bytes ?th + of_nat (bench_done rounds) * word_of_int (p_size p)"
    unfolding ok by (auto simp: bench_poll_fields)
  with cs show ?case
    by (auto simp: x bench_poll_counts bench_done_def algebra_simps)
qed (simp add: bench_done_def)

lemma bench_cmd_extent:
  assumes "ns_documented ns" "0 \<le> p_size p" "p_size p < 2 ^ 31"
    and "bench_cmd_ok th (bench_nblocks ns (p_size p)) bs c"
  shows "cmd_blocks c \<subseteq> {unat (bt_lba_start th) ..< unat (bt_lba_end th)} \<and>
    (\<exists>b \<in> set bs. cmd_dma ns c
       = span (pop_buf_data b) (push_bit (ns_blockshift ns) (bench_nblocks ns (p_size p))))"
proof -
  let ?n = "bench_nblocks ns (p_size p)"
  note n = bench_size_nat [OF assms(1-3)]
  have u: "unat (cmd_nblocks c) = unat ?n" "ucast (cmd_nblocks c) = ?n"
    using assms(4) take_bit_nat_eq_self [OF n(1)]
    by (simp_all add: bench_cmd_ok_def unat_ucast_u32 word_nat unsigned_ucast_eq)
  show ?thesis
    using assms(4) u n(2) by (auto simp: bench_cmd_ok_def cmd_blocks_def cmd_dma_def span_def)
qed

text \<open>One thread: its commands stay in its range of blocks and in memory it took from the region.\<close>

lemma bench_start_ok:
  assumes "ns_documented ns" "bench_param_ok cpus p" "mem_ok m"
    and "lba_ok (bt_lba_start th) (bt_lba_end th) (bench_nblocks ns (p_size p))"
    and "bench_start ns p mo mp ts rounds th m = Some (Inr r, m')"
  shows "\<exists>cs th'. r = Inr (cs, th') \<and> mem_ok m' \<and> free_bytes m' \<subseteq> free_bytes m \<and>
    (\<forall>c \<in> set cs. cmd_blocks c \<subseteq> {unat (bt_lba_start th) ..< unat (bt_lba_end th)} \<and>
       cmd_dma ns c \<subseteq> free_bytes m - free_bytes m') \<and>
    bt_count th' = bt_count th + of_nat (bench_done rounds) \<and>
    bt_bytes th' = bt_bytes th + of_nat (bench_done rounds) * word_of_int (p_size p)"
proof -
  let ?n = "bench_nblocks ns (p_size p)" and ?th = "th\<lparr>bt_start := fst ts\<rparr>"
  let ?sz = "push_bit (ns_blockshift ns) ?n"
  obtain bs where bs: "bench_bufs mo mp ?sz (nat (p_batch p)) m = Some (Inr bs, m')"
    and r: "r = obind (bench_loop p ?n bs rounds (bt_lba_start th) ?th)
      (\<lambda>(cs, th'). Inr (cs, th'\<lparr>bt_end := snd ts\<rparr>))"
    using assms(5) unfolding bench_start_def Let_def by (auto split: option.splits sum.splits)
  from bench_loop_ok [of ?th ?n "bt_lba_start th" p bs rounds] lba_inside_start [OF assms(4)] assms(4)
  obtain cs th' where cs: "bench_loop p ?n bs rounds (bt_lba_start th) ?th = Inr (cs, th')"
    "\<forall>c \<in> set cs. bench_cmd_ok ?th ?n bs c" "bt_count th' = bt_count th + of_nat (bench_done rounds)"
    "bt_bytes th' = bt_bytes th + of_nat (bench_done rounds) * word_of_int (p_size p)" by auto
  have sz: "0 \<le> p_size p" "p_size p < 2 ^ 31" using assms(2) by (simp_all add: bench_param_ok_def)
  note t = bench_bufs_taken [OF assms(3) bs]
  have "cmd_blocks c \<subseteq> {unat (bt_lba_start th) ..< unat (bt_lba_end th)} \<and>
      cmd_dma ns c \<subseteq> free_bytes m - free_bytes m'" if "c \<in> set cs" for c
  proof -
    from cs(2) that have "bench_cmd_ok ?th ?n bs c" by blast
    from bench_cmd_extent [OF assms(1) sz this] t show ?thesis by simp blast
  qed
  with cs t show ?thesis by (auto simp: r)
qed

section \<open>Properties of the benchmark\<close>

lemma bench_split_ok:
  assumes "bench_param_ok cpus p" "p_split p = SPLIT_EQUAL" "0 \<le> t" "t < p_ncpus p" "cpus < 2 ^ 31"
    and "unat nb < unat (p_lba_end p) div nat (p_ncpus p)" "unat (p_lba_end p) < 2 ^ 62"
  shows "unat (word_of_int t :: u64) = nat t" "unat (word_of_int (p_ncpus p) :: u64) = nat (p_ncpus p)"
    and "lba_ok (bt_lba_start (bench_thread_init p t)) (bt_lba_end (bench_thread_init p t)) nb"
proof -
  have "p_ncpus p < 2 ^ 31" using assms(1,5) by (auto simp: bench_param_ok_def)
  then show t: "unat (word_of_int t :: u64) = nat t"
    and n: "unat (word_of_int (p_ncpus p) :: u64) = nat (p_ncpus p)"
    using assms(3,4) by (simp_all add: unat_word_of_int_nowrap)
  let ?q = "unat (p_lba_end p) div nat (p_ncpus p)"
  have less: "unat (word_of_int t :: u64) < unat (word_of_int (p_ncpus p) :: u64)"
    unfolding t n using assms(3,4) by simp
  then have "0 < unat (word_of_int (p_ncpus p) :: u64)" by simp
  note s = split_nat [OF this less, of "p_lba_end p", unfolded t n]
  have "unat nb < unat (p_lba_end p)" using assms(6) by (meson div_le_dividend order_less_le_trans)
  then show "lba_ok (bt_lba_start (bench_thread_init p t)) (bt_lba_end (bench_thread_init p t)) nb"
    using s assms(2,6,7) by (simp add: lba_ok_def bench_thread_init_def Let_def)
qed

lemma bench_split_end:
  assumes "p_split p = SPLIT_EQUAL"
    and "unat (word_of_int t :: u64) < unat (word_of_int (p_ncpus p) :: u64)"
  shows "{unat (bt_lba_start (bench_thread_init p t)) ..< unat (bt_lba_end (bench_thread_init p t))}
    \<subseteq> {..< unat (p_lba_end p)}"
  using split_nat(2,3) [OF _ assms(2), of "p_lba_end p"] assms
  by (auto simp: bench_thread_init_def Let_def)


definition lab_ns :: nvme_ns where
  "lab_ns = \<lparr>ns_blocksize = 512, ns_blockshift = 9\<rparr>"

definition lab_bench :: bench_param where
  "lab_bench = bench_defaults\<lparr>p_ncpus := 2, p_nvme := Some ''01:00.0''\<rparr>"

lemma lab_bench_sel:
  "ns_documented lab_ns" "bench_param_ok 4 lab_bench" "p_split lab_bench = SPLIT_EQUAL"
  "p_ncpus lab_bench = 2" "p_lba_end lab_bench = 0xe8e088b0" "p_batch lab_bench = 1"
  "bench_nblocks lab_ns (p_size lab_bench) = 1" "ns_blockshift lab_ns = 9"
  by (simp_all add: lab_ns_def lab_bench_def ns_documented_def bench_param_ok_def bench_defaults_def
      MAX_BATCH_SIZE_def bench_nblocks_def drop_bit_eq_div)

lemma lab_bench_start:
  assumes "mem_ok m" "\<not> pm_mutex m" "1 \<le> free_pages m"
  shows "\<exists>r. bench_start lab_ns lab_bench (\<lambda>_. True) 0x1000 ts rounds th m
    = Some (Inr r, m\<lparr>pm_alloced_pages := pm_alloced_pages m + 1\<rparr>)"
proof -
  have "pop_buf_alloc True 0x1000 m 512
      = Some (Inr (fill_buf 0x1000 m 1), m\<lparr>pm_alloced_pages := pm_alloced_pages m + 1\<rparr>)"
    using assms by (simp add: pop_buf_alloc_cases pages_needed_def)
  then show ?thesis
    by (simp add: bench_start_def Let_def lab_bench_sel push_bit_eq_mult)
qed


text \<open>
  Between two times with normalised microseconds the function returns the
  number of microseconds, also when the microseconds of the end are smaller.
\<close>

lemma get_usec_elapsed_exact:
  assumes "0 \<le> tv_usec s" "tv_usec s < 1000000" "0 \<le> tv_usec e" "tv_usec e < 1000000"
    and "tv_sec s * 1000000 + tv_usec s \<le> tv_sec e * 1000000 + tv_usec e"
    and "tv_sec e - tv_sec s < 2 ^ 40"
  shows "uint (get_usec_elapsed s e) = (tv_sec e * 1000000 + tv_usec e) - (tv_sec s * 1000000 + tv_usec s)"
proof -
  have "get_usec_elapsed s e
      = word_of_int ((tv_sec e * 1000000 + tv_usec e) - (tv_sec s * 1000000 + tv_usec s))"
    unfolding get_usec_elapsed_def Let_def by (auto simp: algebra_simps intro!: arg_cong [where f = word_of_int])
  then have "uint (get_usec_elapsed s e)
      = ((tv_sec e * 1000000 + tv_usec e) - (tv_sec s * 1000000 + tv_usec s)) mod 2 ^ 64"
    by (simp only: uint_of_int_u64)
  also have "\<dots> = (tv_sec e * 1000000 + tv_usec e) - (tv_sec s * 1000000 + tv_usec s)"
    by (rule mod_pos_pos_trivial) (use assms in simp_all)
  finally show ?thesis .
qed

end
