(* ===== verification/Lifecycle.thy ===== *)
theory Lifecycle
  imports Pop_Prelude
begin

text \<open>
  The life of the programs with threads (\<^verbatim>\<open>apps/nmgen.c\<close>, \<^verbatim>\<open>apps/nvgen.c\<close>, \<^verbatim>\<open>apps/generator.c\<close>,
  \<^verbatim>\<open>apps/bench-nvme.c\<close>): how \<^verbatim>\<open>main\<close> creates its threads, waits for them and takes down what they
  use, interleaved with the threads themselves and with the arrival of \<^verbatim>\<open>SIGINT\<close>.

  What a thread computes is in the theory of its program; here a thread is the name of its body and
  its position: at work (in its set-up or in the body of its loop, where it uses the region, its port
  and the NVMe device), at the test at the head of its loop, or ended. What \<^verbatim>\<open>main\<close> does from the
  creation of the first thread on is a list of calls, which the theories of the programs compute from
  the configuration.

  The locale \<open>joined_program\<close> is the contract of such a list, that every thread is joined before what
  it uses is taken down and that someone asks it to stop. Its lemmas show that no execution touches
  what was taken down, that none is stuck, and that every fair execution ends after the signal.
\<close>

section \<open>Signals and CPUs\<close>

text \<open>
  \<^verbatim>\<open>sig_handler\<close> on the flag \<^verbatim>\<open>caught_signal\<close>, and \<^verbatim>\<open>count_online_cpus\<close> for the answer of
  \<^verbatim>\<open>sched_getaffinity\<close> (\<^const>\<open>None\<close> when it fails); the programs have the same functions.
\<close>

definition SIGINT :: int where "SIGINT = 2"

definition sig_handler :: "int \<Rightarrow> bool \<Rightarrow> bool" where
  "sig_handler sig caught = (if sig = SIGINT then True else caught)"

lemma sig_handler_SIGINT [simp]: "sig_handler SIGINT caught = True"
  by (simp add: sig_handler_def)

definition count_online_cpus :: "nat option \<Rightarrow> int" where
  "count_online_cpus affinity = (case affinity of Some n \<Rightarrow> int n | None \<Rightarrow> - 1)"

section \<open>Threads\<close>

datatype body =
    Nmgen_sender_body nat | Nmgen_receiver_body nat
  | Nvgen_sender_netmap_body nat | Nvgen_sender_unvme_body nat | Nvgen_receiver_body nat
  | Thread_body nat | Bench_start nat
  | Count_thread int | Gen_count_thread | Report_interval

text \<open>The thread structure whose \<^verbatim>\<open>cancel\<close> the loop tests; the other bodies test \<^verbatim>\<open>caught_signal\<close>.\<close>

fun cancel_of :: "body \<Rightarrow> nat option" where
  "cancel_of (Nmgen_sender_body n) = Some n"
| "cancel_of (Nmgen_receiver_body n) = Some n"
| "cancel_of (Nvgen_sender_netmap_body n) = Some n"
| "cancel_of (Nvgen_sender_unvme_body n) = Some n"
| "cancel_of (Nvgen_receiver_body n) = Some n"
| "cancel_of _ = None"

text \<open>What the bodies use: the region of pop memory, a netmap port, the NVMe device.\<close>

fun uses_region :: "body \<Rightarrow> bool" where
  "uses_region (Count_thread m) = False"
| "uses_region Gen_count_thread = False"
| "uses_region Report_interval = False"
| "uses_region _ = True"

fun port_of :: "body \<Rightarrow> nat option" where
  "port_of (Nmgen_sender_body n) = Some n"
| "port_of (Nmgen_receiver_body n) = Some n"
| "port_of (Nvgen_sender_netmap_body n) = Some n"
| "port_of (Nvgen_receiver_body n) = Some n"
| "port_of (Thread_body n) = Some n"
| "port_of _ = None"

fun uses_nvme :: "body \<Rightarrow> bool" where
  "uses_nvme (Nvgen_sender_unvme_body n) = True"
| "uses_nvme (Thread_body n) = True"
| "uses_nvme (Bench_start n) = True"
| "uses_nvme _ = False"

datatype phase = Working | Testing | Ended

record thread =
  t_body :: body
  t_phase :: phase
  t_joined :: bool

section \<open>The process\<close>

text \<open>The variables of type \<^verbatim>\<open>pthread_t\<close>: the one in thread structure \<open>n\<close> and that of the report thread.\<close>

datatype tid_field = Ths nat | Ctid

text \<open>
  The calls of \<^verbatim>\<open>main\<close>: \<^verbatim>\<open>pthread_create\<close>, \<^verbatim>\<open>pthread_join\<close>, \<^verbatim>\<open>usleep\<close> or \<^verbatim>\<open>sleep\<close>, setting
  \<^verbatim>\<open>caught_signal\<close>, \<^verbatim>\<open>nvgen_init_thread_body\<close>, \<^verbatim>\<open>nm_close\<close>, \<^verbatim>\<open>unvme_close\<close>, \<^verbatim>\<open>pop_mem_exit\<close> and the
  final \<^verbatim>\<open>return\<close>, up to which the threads run.
\<close>

datatype op = Create tid_field body | Join tid_field | Pause | Raise | Init nat
  | Close_port nat | Close_nvme | Exit_region | Return

record proc =
  pr_ops :: "op list"
  pr_threads :: "thread list"
  pr_tid :: "tid_field \<Rightarrow> nat option"
  pr_cancel :: "nat \<Rightarrow> bool"
  pr_caught :: bool
  pr_region :: bool
  pr_nvme :: bool
  pr_closed :: "nat set"

text \<open>
  The environment: whether the creation of a thread succeeds, and which port's mapping of the netmap
  memory a port uses (its own, or that of the port it was opened after).
\<close>

record penv =
  can_create :: "body \<Rightarrow> bool"
  map_owner :: "nat \<Rightarrow> nat"

definition all_created :: "(nat \<Rightarrow> nat) \<Rightarrow> penv" where
  "all_created owner = \<lparr>can_create = (\<lambda>_. True), map_owner = owner\<rparr>"

abbreviation own_maps :: penv where
  "own_maps \<equiv> all_created (\<lambda>n. n)"

abbreviation shared_map :: penv where
  "shared_map \<equiv> all_created (\<lambda>n. 0)"

lemma all_created_simps [simp]: "can_create (all_created owner) b" "map_owner (all_created owner) = owner"
  by (simp_all add: all_created_def)

definition proc_start :: "op list \<Rightarrow> bool \<Rightarrow> proc" where
  "proc_start ops caught = \<lparr>pr_ops = ops, pr_threads = [], pr_tid = (\<lambda>_. None), pr_cancel = (\<lambda>_. False),
     pr_caught = caught, pr_region = True, pr_nvme = True, pr_closed = {}\<rparr>"

text \<open>
  One call of \<^verbatim>\<open>main\<close>; \<^const>\<open>None\<close> means that it waits. A failed \<^verbatim>\<open>pthread_create\<close> leaves the variable
  as it was. Joining a variable that was never set, or a thread for the second time, is a fault.
\<close>

fun main_op :: "penv \<Rightarrow> op \<Rightarrow> proc \<Rightarrow> proc outcome option" where
  "main_op E (Create f b) s = Some (Inr (if can_create E b
     then s\<lparr>pr_threads := pr_threads s @ [\<lparr>t_body = b, t_phase = Working, t_joined = False\<rparr>],
            pr_tid := (pr_tid s)(f \<mapsto> length (pr_threads s))\<rparr>
     else s))"
| "main_op E (Join f) s =
     (case pr_tid s f of
        None \<Rightarrow> Some (Inl NullDeref)
      | Some t \<Rightarrow> (let th = pr_threads s ! t in
          if t_joined th then Some (Inl UseAfterFree)
          else if t_phase th = Ended
          then Some (Inr (s\<lparr>pr_threads := (pr_threads s)[t := th\<lparr>t_joined := True\<rparr>]\<rparr>))
          else None))"
| "main_op E Pause s = Some (Inr s)"
| "main_op E Raise s = Some (Inr (s\<lparr>pr_caught := True\<rparr>))"
| "main_op E (Init n) s = Some (Inr s)"
| "main_op E (Close_port n) s = Some (Inr (s\<lparr>pr_closed := insert n (pr_closed s)\<rparr>))"
| "main_op E Close_nvme s = Some (Inr (s\<lparr>pr_nvme := False\<rparr>))"
| "main_op E Exit_region s = Some (Inr (s\<lparr>pr_region := False\<rparr>))"
| "main_op E Return s = Some (Inr s)"

text \<open>
  The steps of a thread. At work it touches what its body uses; the report threads of \<^verbatim>\<open>nvgen\<close> and
  \<^verbatim>\<open>nmgen\<close> read \<^verbatim>\<open>ths[0].gen\<close>, which no one has set when there are no threads. At the test it ends or
  goes on; the report threads of these programs then set \<^verbatim>\<open>cancel\<close> of all threads.
\<close>

definition body_accessible :: "penv \<Rightarrow> body \<Rightarrow> proc \<Rightarrow> bool" where
  "body_accessible E b s \<longleftrightarrow> (uses_region b \<longrightarrow> pr_region s) \<and> (uses_nvme b \<longrightarrow> pr_nvme s) \<and>
     (\<forall>n \<in> set_option (port_of b). map_owner E n \<notin> pr_closed s)"

definition body_stops :: "body \<Rightarrow> proc \<Rightarrow> bool" where
  "body_stops b s = (case cancel_of b of Some n \<Rightarrow> pr_cancel s n | None \<Rightarrow> pr_caught s)"

fun last_words :: "body \<Rightarrow> proc \<Rightarrow> proc" where
  "last_words (Count_thread m) s = s\<lparr>pr_cancel := (\<lambda>n. pr_cancel s n \<or> int n < m)\<rparr>"
| "last_words b s = s"

fun body_ready :: "body \<Rightarrow> bool" where
  "body_ready (Count_thread m) \<longleftrightarrow> 0 < m"
| "body_ready b \<longleftrightarrow> True"

definition set_phase :: "nat \<Rightarrow> phase \<Rightarrow> proc \<Rightarrow> proc" where
  "set_phase t p s = s\<lparr>pr_threads := (pr_threads s)[t := (pr_threads s ! t)\<lparr>t_phase := p\<rparr>]\<rparr>"

definition thread_turn :: "penv \<Rightarrow> nat \<Rightarrow> proc \<Rightarrow> proc outcome option" where
  "thread_turn E t s = (let b = t_body (pr_threads s ! t) in
     case t_phase (pr_threads s ! t) of
       Working \<Rightarrow> Some (if \<not> body_ready b then Inl NullDeref
                        else if \<not> body_accessible E b s then Inl UseAfterFree
                        else Inr (set_phase t Testing s))
     | Testing \<Rightarrow> Some (Inr (if body_stops b s then last_words b (set_phase t Ended s) else set_phase t Working s))
     | Ended \<Rightarrow> None)"

text \<open>
  A thread leaves its work early when a buffer is refused or a synchronisation fails; in
  \<^verbatim>\<open>bench_start\<close> this ends the process with \<^verbatim>\<open>exit(0)\<close>. The report threads have no such exit.
\<close>

definition thread_fails :: "nat \<Rightarrow> proc \<Rightarrow> proc option" where
  "thread_fails t s = (let b = t_body (pr_threads s ! t) in
     if t_phase (pr_threads s ! t) = Working \<and> uses_region b
     then Some (case b of Bench_start n \<Rightarrow> s\<lparr>pr_ops := []\<rparr> | _ \<Rightarrow> set_phase t Ended s)
     else None)"

datatype event = Main | Turn nat | Fail nat | Sigint

text \<open>One step of the process; \<^const>\<open>None\<close> means that the event cannot happen. It ends with \<^verbatim>\<open>main\<close>.\<close>

fun proc_exec :: "penv \<Rightarrow> event \<Rightarrow> proc \<Rightarrow> proc outcome option" where
  "proc_exec E Main s = (case pr_ops s of [] \<Rightarrow> None | x # xs \<Rightarrow> main_op E x (s\<lparr>pr_ops := xs\<rparr>))"
| "proc_exec E (Turn t) s = (if pr_ops s \<noteq> [] \<and> t < length (pr_threads s) then thread_turn E t s else None)"
| "proc_exec E (Fail t) s =
     (if pr_ops s \<noteq> [] \<and> t < length (pr_threads s) then map_option Inr (thread_fails t s) else None)"
| "proc_exec E Sigint s = (if pr_ops s \<noteq> [] then Some (Inr (s\<lparr>pr_caught := sig_handler SIGINT (pr_caught s)\<rparr>)) else None)"

inductive proc_reach :: "penv \<Rightarrow> proc \<Rightarrow> proc \<Rightarrow> bool" for E s0 where
  proc_reach_start: "proc_reach E s0 s0"
| proc_reach_step: "proc_reach E s0 s \<Longrightarrow> proc_exec E e s = Some (Inr s') \<Longrightarrow> proc_reach E s0 s'"

text \<open>A sequence of events, for concrete executions.\<close>

fun proc_run :: "penv \<Rightarrow> event list \<Rightarrow> proc \<Rightarrow> proc outcome option" where
  "proc_run E [] s = Some (Inr s)"
| "proc_run E (e # es) s =
     (case proc_exec E e s of Some (Inr s') \<Rightarrow> proc_run E es s' | r \<Rightarrow> r)"

lemma proc_reach_run: "proc_run E es s = Some (Inr s') \<Longrightarrow> proc_reach E s0 s \<Longrightarrow> proc_reach E s0 s'"
  by (induction es arbitrary: s) (auto split: option.splits sum.splits intro: proc_reach_step)

section \<open>Disciplined lists of calls\<close>

text \<open>
  What is known between two calls of \<^verbatim>\<open>main\<close> whatever the threads did: the threads that were created
  and not joined, what is still there, and the number of threads that have been asked to stop.
\<close>

record live =
  lv_map :: "tid_field \<Rightarrow> body option"
  lv_region :: bool
  lv_nvme :: bool
  lv_closed :: "nat set"
  lv_bound :: int

definition live_start :: live where
  "live_start = \<lparr>lv_map = (\<lambda>_. None), lv_region = True, lv_nvme = True, lv_closed = {}, lv_bound = 0\<rparr>"

definition may_use :: "penv \<Rightarrow> body \<Rightarrow> live \<Rightarrow> bool" where
  "may_use E b l \<longleftrightarrow> (uses_region b \<longrightarrow> lv_region l) \<and> (uses_nvme b \<longrightarrow> lv_nvme l) \<and>
     (\<forall>n \<in> set_option (port_of b). map_owner E n \<notin> lv_closed l)"

text \<open>A thread that main waits for has been asked to stop or will be.\<close>

definition will_stop :: "body \<Rightarrow> live \<Rightarrow> bool" where
  "will_stop b l \<longleftrightarrow> (\<forall>n. cancel_of b = Some n \<longrightarrow>
     int n < lv_bound l \<or> (\<exists>f m. lv_map l f = Some (Count_thread m) \<and> int n < m))"

text \<open>The effect of a call on this knowledge, and the condition under which it is harmless.\<close>

fun live_op :: "op \<Rightarrow> live \<Rightarrow> live" where
  "live_op (Create f b) l = l\<lparr>lv_map := (lv_map l)(f \<mapsto> b)\<rparr>"
| "live_op (Join f) l = l\<lparr>lv_map := (lv_map l)(f := None),
     lv_bound := (case lv_map l f of Some (Count_thread m) \<Rightarrow> max m (lv_bound l) | _ \<Rightarrow> lv_bound l)\<rparr>"
| "live_op (Close_port n) l = l\<lparr>lv_closed := insert n (lv_closed l)\<rparr>"
| "live_op Close_nvme l = l\<lparr>lv_nvme := False\<rparr>"
| "live_op Exit_region l = l\<lparr>lv_region := False\<rparr>"
| "live_op _ l = l"

fun harmless :: "penv \<Rightarrow> op \<Rightarrow> live \<Rightarrow> bool" where
  "harmless E (Create f b) l \<longleftrightarrow> lv_map l f = None \<and> body_ready b \<and> may_use E b l"
| "harmless E (Join f) l \<longleftrightarrow> (\<exists>b. lv_map l f = Some b \<and> will_stop b l)"
| "harmless E (Close_port n) l \<longleftrightarrow>
     (\<forall>f b k. lv_map l f = Some b \<and> port_of b = Some k \<longrightarrow> map_owner E k \<noteq> n)"
| "harmless E Close_nvme l \<longleftrightarrow> (\<forall>f b. lv_map l f = Some b \<longrightarrow> \<not> uses_nvme b)"
| "harmless E Exit_region l \<longleftrightarrow> (\<forall>f b. lv_map l f = Some b \<longrightarrow> \<not> uses_region b)"
| "harmless E _ l \<longleftrightarrow> True"

fun disciplined :: "penv \<Rightarrow> op list \<Rightarrow> live \<Rightarrow> bool" where
  "disciplined E [] l \<longleftrightarrow> True"
| "disciplined E (x # xs) l \<longleftrightarrow> harmless E x l \<and> disciplined E xs (live_op x l)"

section \<open>The invariant\<close>

definition unjoined :: "thread list \<Rightarrow> nat option \<Rightarrow> body option" where
  "unjoined ths x = (case x of None \<Rightarrow> None
     | Some t \<Rightarrow> if t_joined (ths ! t) then None else Some (t_body (ths ! t)))"

definition live_of :: "int \<Rightarrow> proc \<Rightarrow> live" where
  "live_of c s = \<lparr>lv_map = (\<lambda>f. unjoined (pr_threads s) (pr_tid s f)),
     lv_region = pr_region s, lv_nvme = pr_nvme s, lv_closed = pr_closed s, lv_bound = c\<rparr>"

definition tids_ok :: "proc \<Rightarrow> bool" where
  "tids_ok s \<longleftrightarrow> (\<forall>f t. pr_tid s f = Some t \<longrightarrow> t < length (pr_threads s)) \<and>
     (\<forall>f g t. pr_tid s f = Some t \<and> pr_tid s g = Some t \<longrightarrow> f = g) \<and>
     (\<forall>t < length (pr_threads s). t_joined (pr_threads s ! t) \<or> (\<exists>f. pr_tid s f = Some t))"

definition thread_ok :: "penv \<Rightarrow> proc \<Rightarrow> thread \<Rightarrow> bool" where
  "thread_ok E s th \<longleftrightarrow> body_ready (t_body th) \<and> (t_joined th \<longrightarrow> t_phase th = Ended) \<and>
     (\<not> t_joined th \<longrightarrow> body_accessible E (t_body th) s) \<and>
     (\<forall>m n. t_phase th = Ended \<and> t_body th = Count_thread m \<and> int n < m \<longrightarrow> pr_cancel s n)"

definition pinv :: "penv \<Rightarrow> proc \<Rightarrow> bool" where
  "pinv E s \<longleftrightarrow> tids_ok s \<and> (\<forall>th \<in> set (pr_threads s). thread_ok E s th) \<and>
     (\<exists>c. (\<forall>n. int n < c \<longrightarrow> pr_cancel s n) \<and> disciplined E (pr_ops s) (live_of c s))"

lemma pinv_start: "disciplined E xs live_start \<Longrightarrow> pinv E (proc_start xs c)"
  by (auto simp: pinv_def tids_ok_def proc_start_def live_of_def live_start_def unjoined_def intro!: exI [of _ 0])

lemma may_use_live_of: "may_use E b (live_of c s) = body_accessible E b s"
  by (simp add: may_use_def body_accessible_def live_of_def)

lemma live_of_ops [simp]: "live_of c (s\<lparr>pr_ops := xs\<rparr>) = live_of c s"
  by (simp add: live_of_def)

lemma body_accessible_ops [simp]: "body_accessible E b (s\<lparr>pr_ops := xs\<rparr>) = body_accessible E b s"
  "body_accessible E b (s\<lparr>pr_threads := ths\<rparr>) = body_accessible E b s"
  "body_accessible E b (s\<lparr>pr_caught := k\<rparr>) = body_accessible E b s"
  "body_accessible E b (s\<lparr>pr_cancel := f\<rparr>) = body_accessible E b s"
  "body_accessible E b (s\<lparr>pr_tid := g\<rparr>) = body_accessible E b s"
  by (simp_all add: body_accessible_def)

lemma live_of_create:
  assumes "tids_ok s"
  shows "live_of c (s\<lparr>pr_threads := pr_threads s @ [\<lparr>t_body = b, t_phase = Working, t_joined = False\<rparr>],
      pr_tid := (pr_tid s)(f \<mapsto> length (pr_threads s))\<rparr>) = live_op (Create f b) (live_of c s)"
  using assms by (auto simp: live_of_def unjoined_def tids_ok_def nth_append split: option.split)

lemma live_of_join:
  assumes "tids_ok s" "pr_tid s f = Some t" "\<not> t_joined (pr_threads s ! t)"
  shows "live_of (case t_body (pr_threads s ! t) of Count_thread m \<Rightarrow> max m c | _ \<Rightarrow> c)
      (s\<lparr>pr_threads := (pr_threads s)[t := (pr_threads s ! t)\<lparr>t_joined := True\<rparr>]\<rparr>) = live_op (Join f) (live_of c s)"
proof -
  let ?ths = "(pr_threads s)[t := (pr_threads s ! t)\<lparr>t_joined := True\<rparr>]"
  have t: "t < length (pr_threads s)" using assms(1,2) by (simp add: tids_ok_def)
  have "unjoined ?ths (pr_tid s g) = (if g = f then None else unjoined (pr_threads s) (pr_tid s g))" for g
  proof (cases "g = f")
    case True
    then show ?thesis using assms(2) t by (simp add: unjoined_def)
  next
    case False
    then have "pr_tid s g \<noteq> Some t" using assms(1,2) unfolding tids_ok_def by blast
    with False show ?thesis by (cases "pr_tid s g") (simp_all add: unjoined_def)
  qed
  then have "(\<lambda>g. unjoined ?ths (pr_tid s g)) = (\<lambda>g. unjoined (pr_threads s) (pr_tid s g))(f := None)"
    by (intro ext) simp
  moreover have "unjoined (pr_threads s) (pr_tid s f) = Some (t_body (pr_threads s ! t))"
    using assms(2,3) by (simp add: unjoined_def)
  ultimately show ?thesis by (simp add: live_of_def split: body.split)
qed

text \<open>A change of the phase of a thread is not visible to \<^verbatim>\<open>main\<close>.\<close>

lemma nth_set_phase:
  "t < length (pr_threads s) \<Longrightarrow> pr_threads (set_phase t p s) ! i
     = (if i = t then (pr_threads s ! t)\<lparr>t_phase := p\<rparr> else pr_threads s ! i)"
  by (simp add: set_phase_def nth_list_update)

lemma set_phase_simps [simp]:
  "length (pr_threads (set_phase t p s)) = length (pr_threads s)" "pr_ops (set_phase t p s) = pr_ops s"
  "pr_tid (set_phase t p s) = pr_tid s" "pr_cancel (set_phase t p s) = pr_cancel s"
  "pr_caught (set_phase t p s) = pr_caught s" "pr_region (set_phase t p s) = pr_region s"
  "pr_nvme (set_phase t p s) = pr_nvme s" "pr_closed (set_phase t p s) = pr_closed s"
  "body_accessible E b (set_phase t p s) = body_accessible E b s"
  by (simp_all add: set_phase_def)

lemma live_of_set_phase:
  assumes "t < length (pr_threads s)"
  shows "live_of c (set_phase t p s) = live_of c s"
  using assms by (auto simp: live_of_def unjoined_def nth_set_phase fun_eq_iff split: option.split)

lemma tids_ok_set_phase: "t < length (pr_threads s) \<Longrightarrow> tids_ok (set_phase t p s) = tids_ok s"
  by (auto simp: tids_ok_def nth_set_phase)

lemma pinvD:
  assumes "pinv E s"
  shows "tids_ok s" "t < length (pr_threads s) \<Longrightarrow> thread_ok E s (pr_threads s ! t)"
  using assms by (simp_all add: pinv_def)

lemma pinvI:
  assumes "tids_ok s" "\<And>t. t < length (pr_threads s) \<Longrightarrow> thread_ok E s (pr_threads s ! t)"
    and "\<And>n. int n < c \<Longrightarrow> pr_cancel s n" "disciplined E (pr_ops s) (live_of c s)"
  shows "pinv E s"
  using assms unfolding pinv_def by (auto simp: in_set_conv_nth)

section \<open>Every step keeps the invariant\<close>

lemma pinv_set_phase:
  assumes "pinv E s" "t < length (pr_threads s)" "t_phase (pr_threads s ! t) \<noteq> Ended"
    and "\<And>m n. p = Ended \<Longrightarrow> t_body (pr_threads s ! t) = Count_thread m \<Longrightarrow> int n < m \<Longrightarrow> pr_cancel s n"
  shows "pinv E (set_phase t p s)"
proof -
  from assms(1) obtain c where c: "\<And>n. int n < c \<Longrightarrow> pr_cancel s n" "disciplined E (pr_ops s) (live_of c s)"
    by (auto simp: pinv_def)
  show ?thesis
  proof (rule pinvI [of _ _ c])
    show "thread_ok E (set_phase t p s) (pr_threads (set_phase t p s) ! i)" if "i < length (pr_threads (set_phase t p s))" for i
      using pinvD(2) [OF assms(1), of i] that assms(2-4) by (auto simp: thread_ok_def nth_set_phase)
  qed (use assms(1,2) c in \<open>simp_all add: pinvD tids_ok_set_phase live_of_set_phase\<close>)
qed

lemma pinv_cancel_more:
  assumes "pinv E s" "\<And>n. pr_cancel s n \<Longrightarrow> g n"
  shows "pinv E (s\<lparr>pr_cancel := g\<rparr>)"
proof -
  from assms(1) obtain c where c: "\<And>n. int n < c \<Longrightarrow> pr_cancel s n" "disciplined E (pr_ops s) (live_of c s)"
    by (auto simp: pinv_def)
  show ?thesis
  proof (rule pinvI [of _ _ c])
    show "thread_ok E (s\<lparr>pr_cancel := g\<rparr>) (pr_threads (s\<lparr>pr_cancel := g\<rparr>) ! i)"
      if "i < length (pr_threads (s\<lparr>pr_cancel := g\<rparr>))" for i
      using pinvD(2) [OF assms(1), of i] that assms(2) by (auto simp: thread_ok_def)
  qed (use assms c pinvD(1) [OF assms(1)] in \<open>auto simp: tids_ok_def live_of_def\<close>)
qed

lemma thread_turn_keeps:
  assumes "pinv E s" "t < length (pr_threads s)"
  shows "thread_turn E t s = None \<or> (\<exists>s'. thread_turn E t s = Some (Inr s') \<and> pinv E s')"
proof -
  let ?b = "t_body (pr_threads s ! t)"
  have ok: "thread_ok E s (pr_threads s ! t)" using pinvD(2) [OF assms] .
  show ?thesis
  proof (cases "t_phase (pr_threads s ! t)")
    case Working
    with ok have "body_ready ?b" "body_accessible E ?b s" by (auto simp: thread_ok_def)
    with Working pinv_set_phase [OF assms, of Testing] show ?thesis by (simp add: thread_turn_def Let_def)
  next
    case Testing
    have "pinv E (last_words ?b (set_phase t Ended s))"
    proof (cases "\<exists>m. ?b = Count_thread m")
      case True
      then obtain m where m: "?b = Count_thread m" by blast
      have "pinv E (s\<lparr>pr_cancel := (\<lambda>n. pr_cancel s n \<or> int n < m)\<rparr>)"
        by (rule pinv_cancel_more [OF assms(1)]) simp
      from pinv_set_phase [OF this, of t Ended] m assms(2) Testing
      have "pinv E (set_phase t Ended (s\<lparr>pr_cancel := (\<lambda>n. pr_cancel s n \<or> int n < m)\<rparr>))" by simp
      also have "set_phase t Ended (s\<lparr>pr_cancel := (\<lambda>n. pr_cancel s n \<or> int n < m)\<rparr>) = last_words ?b (set_phase t Ended s)"
        unfolding m by (cases s) (simp add: set_phase_def)
      finally show ?thesis .
    next
      case False
      then have "last_words ?b x = x" for x by (cases ?b) auto
      moreover have "pinv E (set_phase t Ended s)"
        by (rule pinv_set_phase [OF assms]) (use Testing False in auto)
      ultimately show ?thesis by simp
    qed
    with Testing pinv_set_phase [OF assms, of Working] show ?thesis by (simp add: thread_turn_def Let_def)
  qed (simp add: thread_turn_def)
qed

lemma thread_fails_keeps:
  assumes "pinv E s" "t < length (pr_threads s)" "thread_fails t s = Some s'"
  shows "pinv E s'"
proof -
  from assms(3) have p: "t_phase (pr_threads s ! t) = Working" "uses_region (t_body (pr_threads s ! t))"
    by (auto simp: thread_fails_def Let_def split: if_splits)
  then have "pinv E (set_phase t Ended s)" by (intro pinv_set_phase [OF assms(1,2)]) auto
  moreover have "pinv E (s\<lparr>pr_ops := []\<rparr>)"
    using assms(1) by (auto simp: pinv_def tids_ok_def thread_ok_def)
  ultimately show ?thesis
    using assms(3) p by (auto simp: thread_fails_def Let_def split: body.splits)
qed

lemma live_of_fields:
  "live_of c (s\<lparr>pr_closed := insert n (pr_closed s)\<rparr>) = live_op (Close_port n) (live_of c s)"
  "live_of c (s\<lparr>pr_nvme := False\<rparr>) = live_op Close_nvme (live_of c s)"
  "live_of c (s\<lparr>pr_region := False\<rparr>) = live_op Exit_region (live_of c s)"
  "live_of c (s\<lparr>pr_caught := k\<rparr>) = live_of c s"
  by (simp_all add: live_of_def)

text \<open>A thread that is not joined is in the knowledge of \<^verbatim>\<open>main\<close>.\<close>

lemma live_thread:
  assumes "tids_ok s" "t < length (pr_threads s)" "\<not> t_joined (pr_threads s ! t)"
  shows "\<exists>f. pr_tid s f = Some t \<and> lv_map (live_of c s) f = Some (t_body (pr_threads s ! t))"
proof -
  from assms obtain f where "pr_tid s f = Some t" by (auto simp: tids_ok_def)
  with assms(3) show ?thesis by (intro exI [of _ f]) (simp add: live_of_def unjoined_def)
qed

lemma live_tid:
  assumes "tids_ok s" "lv_map (live_of c s) f = Some b"
  shows "\<exists>t. pr_tid s f = Some t \<and> t < length (pr_threads s) \<and> \<not> t_joined (pr_threads s ! t) \<and>
    t_body (pr_threads s ! t) = b"
  using assms by (auto simp: tids_ok_def live_of_def unjoined_def split: option.splits if_splits)

text \<open>Taking something down that no live thread uses.\<close>

lemma pinv_take_down:
  assumes "pinv E s" "pr_ops s = x # xs" "\<And>c. harmless E x (live_of c s) \<Longrightarrow> disciplined E xs (live_op x (live_of c s)) \<Longrightarrow> disciplined E xs (live_of c s')"
    and "pr_threads s' = pr_threads s" "pr_tid s' = pr_tid s" "pr_cancel s' = pr_cancel s" "pr_ops s' = xs"
    and "\<And>c f b. harmless E x (live_of c s) \<Longrightarrow> lv_map (live_of c s) f = Some b \<Longrightarrow> body_accessible E b s \<Longrightarrow> body_accessible E b s'"
  shows "pinv E s'"
proof -
  from assms(1,2) obtain c where c: "\<And>n. int n < c \<Longrightarrow> pr_cancel s n" "harmless E x (live_of c s)"
    "disciplined E xs (live_op x (live_of c s))"
    by (auto simp: pinv_def)
  show ?thesis
  proof (rule pinvI [of _ _ c])
    fix t assume t: "t < length (pr_threads s')"
    then have ok: "thread_ok E s (pr_threads s ! t)" using pinvD(2) [OF assms(1)] assms(4) by simp
    moreover have "body_accessible E (t_body (pr_threads s ! t)) s'" if "\<not> t_joined (pr_threads s ! t)"
      using live_thread [OF pinvD(1) [OF assms(1)], of t c] that t ok assms(4) assms(8) [OF c(2)]
      by (auto simp: thread_ok_def)
    ultimately show "thread_ok E s' (pr_threads s' ! t)" using assms(4,6) by (auto simp: thread_ok_def)
  qed (use c assms(3-7) pinvD(1) [OF assms(1)] in \<open>simp_all add: tids_ok_def\<close>)
qed

lemma pinv_create:
  assumes "pinv E s" "pr_ops s = Create f b # xs"
  shows "pinv E (s\<lparr>pr_ops := xs, pr_threads := pr_threads s @ [\<lparr>t_body = b, t_phase = Working, t_joined = False\<rparr>],
    pr_tid := (pr_tid s)(f \<mapsto> length (pr_threads s))\<rparr>)" (is "pinv E ?s")
proof -
  let ?rest = "s\<lparr>pr_ops := xs\<rparr>"
  from assms obtain c where c: "\<And>n. int n < c \<Longrightarrow> pr_cancel s n" "lv_map (live_of c s) f = None" "body_ready b"
    "body_accessible E b s" "disciplined E xs (live_op (Create f b) (live_of c s))"
    by (auto simp: pinv_def may_use_live_of)
  have t: "tids_ok s" "tids_ok ?rest" using pinvD(1) [OF assms(1)] by (simp_all add: tids_ok_def)
  have free: "t_joined (pr_threads s ! t)" if "pr_tid s f = Some t" for t
    using c(2) that by (simp add: live_of_def unjoined_def split: if_splits)
  show ?thesis
  proof (rule pinvI [of _ _ c])
    show "tids_ok ?s"
      using t(1) free unfolding tids_ok_def by (auto simp: nth_append less_Suc_eq) metis
    show "disciplined E (pr_ops ?s) (live_of c ?s)"
      using live_of_create [OF t(2), of c f b] c(5) by simp
    show "thread_ok E ?s (pr_threads ?s ! i)" if "i < length (pr_threads ?s)" for i
      using pinvD(2) [OF assms(1), of i] that c(3,4) by (auto simp: thread_ok_def nth_append less_Suc_eq)
  qed (simp add: c(1))
qed

lemma pinv_join:
  assumes "pinv E s" "pr_ops s = Join f # xs" "pr_tid s f = Some t" "\<not> t_joined (pr_threads s ! t)"
    and "t_phase (pr_threads s ! t) = Ended"
  shows "pinv E (s\<lparr>pr_ops := xs, pr_threads := (pr_threads s)[t := (pr_threads s ! t)\<lparr>t_joined := True\<rparr>]\<rparr>)"
    (is "pinv E ?s")
proof -
  let ?rest = "s\<lparr>pr_ops := xs\<rparr>" and ?b = "t_body (pr_threads s ! t)"
  from assms obtain c where c: "\<And>n. int n < c \<Longrightarrow> pr_cancel s n" "disciplined E xs (live_op (Join f) (live_of c s))"
    by (auto simp: pinv_def)
  have t: "tids_ok s" "tids_ok ?rest" "t < length (pr_threads s)"
    using pinvD(1) [OF assms(1)] assms(3) by (simp_all add: tids_ok_def)
  define c' where "c' = (case ?b of Count_thread m \<Rightarrow> max m c | _ \<Rightarrow> c)"
  have ok: "thread_ok E s (pr_threads s ! t)" using pinvD(2) [OF assms(1) t(3)] .
  show ?thesis
  proof (rule pinvI [of _ _ c'])
    show "tids_ok ?s" using t(1,3) unfolding tids_ok_def by (auto simp: nth_list_update)
    show "disciplined E (pr_ops ?s) (live_of c' ?s)"
      using live_of_join [OF t(2), of f t c] assms(3,4) c(2) by (simp add: c'_def)
    show "thread_ok E ?s (pr_threads ?s ! i)" if "i < length (pr_threads ?s)" for i
      using pinvD(2) [OF assms(1), of i] that assms(5) t(3) by (auto simp: thread_ok_def nth_list_update)
    show "pr_cancel ?s n" if "int n < c'" for n
      using that c(1) ok assms(5) by (auto simp: c'_def thread_ok_def max_def split: body.splits if_splits)
  qed
qed

text \<open>The only call that waits is a join with a thread that has not ended.\<close>

lemma main_keeps:
  assumes "pinv E s" "pr_ops s = x # xs" "\<And>b. can_create E b"
  shows "(\<exists>s'. main_op E x (s\<lparr>pr_ops := xs\<rparr>) = Some (Inr s') \<and> pinv E s') \<or>
    main_op E x (s\<lparr>pr_ops := xs\<rparr>) = None \<and> (\<exists>f t. x = Join f \<and> pr_tid s f = Some t \<and> t < length (pr_threads s) \<and>
      \<not> t_joined (pr_threads s ! t) \<and> t_phase (pr_threads s ! t) \<noteq> Ended)"
proof (cases x)
  case (Create f b)
  then show ?thesis using pinv_create [OF assms(1), of f b xs] assms(2,3) by simp
next
  case (Join f)
  from assms(1,2) Join obtain c b where "lv_map (live_of c s) f = Some b" by (auto simp: pinv_def)
  from live_tid [OF pinvD(1) [OF assms(1)] this] pinv_join [OF assms(1), of f xs] assms(2) Join
  show ?thesis by (auto simp: Let_def)
next
  case (Close_port n)
  then show ?thesis
    using pinv_take_down [OF assms(1,2), of "s\<lparr>pr_ops := xs, pr_closed := insert n (pr_closed s)\<rparr>"]
    by (fastforce simp: live_of_fields(1) [where s = "s\<lparr>pr_ops := xs\<rparr>", simplified] body_accessible_def)
next
  case Close_nvme
  then show ?thesis
    using pinv_take_down [OF assms(1,2), of "s\<lparr>pr_ops := xs, pr_nvme := False\<rparr>"]
    by (simp add: live_of_fields(2) [where s = "s\<lparr>pr_ops := xs\<rparr>", simplified] body_accessible_def)
next
  case Exit_region
  then show ?thesis
    using pinv_take_down [OF assms(1,2), of "s\<lparr>pr_ops := xs, pr_region := False\<rparr>"]
    by (simp add: live_of_fields(3) [where s = "s\<lparr>pr_ops := xs\<rparr>", simplified] body_accessible_def)
next
  case Raise
  then show ?thesis
    using pinv_take_down [OF assms(1,2), of "s\<lparr>pr_ops := xs, pr_caught := True\<rparr>"]
    by (simp add: live_of_fields(4) [where s = "s\<lparr>pr_ops := xs\<rparr>", simplified])
qed (use pinv_take_down [OF assms(1,2), of "s\<lparr>pr_ops := xs\<rparr>"] in simp_all)

lemma exec_keeps:
  assumes "pinv E s" "\<And>b. can_create E b"
  shows "proc_exec E e s = None \<or> (\<exists>s'. proc_exec E e s = Some (Inr s') \<and> pinv E s')"
proof (cases e)
  case Main
  then show ?thesis
    using main_keeps [OF assms(1) _ assms(2)] by (cases "pr_ops s") auto
next
  case (Turn t)
  then show ?thesis using thread_turn_keeps [OF assms(1), of t] by auto
next
  case (Fail t)
  then show ?thesis using thread_fails_keeps [OF assms(1), of t] by (cases "thread_fails t s") auto
next
  case Sigint
  from assms(1) obtain c where "\<And>n. int n < c \<Longrightarrow> pr_cancel s n" "disciplined E (pr_ops s) (live_of c s)"
    by (auto simp: pinv_def)
  then have "pinv E (s\<lparr>pr_caught := True\<rparr>)"
    using pinvD [OF assms(1)] by (intro pinvI [of _ _ c]) (auto simp: tids_ok_def thread_ok_def live_of_fields)
  with Sigint show ?thesis by simp
qed

section \<open>What a step changes\<close>

lemma exec_running: "proc_exec E e s = Some r \<Longrightarrow> pr_ops s \<noteq> []"
  by (cases e) (auto split: list.splits if_splits)

lemma last_words_simps [simp]:
  "pr_ops (last_words b s) = pr_ops s" "pr_threads (last_words b s) = pr_threads s"
  "pr_caught (last_words b s) = pr_caught s" "pr_cancel s n \<Longrightarrow> pr_cancel (last_words b s) n"
  by (cases b; simp)+

lemma thread_turn_changes:
  assumes "thread_turn E t s = Some (Inr s')" "t < length (pr_threads s)"
  shows "pr_ops s' = pr_ops s \<and> pr_caught s' = pr_caught s \<and> (\<forall>n. pr_cancel s n \<longrightarrow> pr_cancel s' n) \<and>
    (\<exists>p. pr_threads s' = (pr_threads s)[t := (pr_threads s ! t)\<lparr>t_phase := p\<rparr>] \<and>
      p = (case t_phase (pr_threads s ! t) of Working \<Rightarrow> Testing | _ \<Rightarrow> if body_stops (t_body (pr_threads s ! t)) s then Ended else Working)) \<and>
    t_phase (pr_threads s ! t) \<noteq> Ended"
  using assms by (auto simp: thread_turn_def Let_def set_phase_def split: phase.splits if_splits)

lemma thread_fails_changes:
  assumes "thread_fails t s = Some s'" "t < length (pr_threads s)"
  shows "(pr_ops s' = [] \<or> pr_ops s' = pr_ops s \<and> pr_threads s' = (pr_threads s)[t := (pr_threads s ! t)\<lparr>t_phase := Ended\<rparr>]) \<and>
    pr_caught s' = pr_caught s \<and> pr_cancel s' = pr_cancel s"
  using assms by (auto simp: thread_fails_def Let_def set_phase_def split: body.splits if_splits)

lemma main_changes:
  assumes "main_op E x s = Some (Inr s')"
  shows "pr_ops s' = pr_ops s \<and> (pr_caught s \<longrightarrow> pr_caught s') \<and> pr_cancel s' = pr_cancel s \<and>
    length (pr_threads s) \<le> length (pr_threads s') \<and>
    (\<forall>t < length (pr_threads s). t_body (pr_threads s' ! t) = t_body (pr_threads s ! t) \<and>
       t_phase (pr_threads s' ! t) = t_phase (pr_threads s ! t))"
  using assms by (cases x) (auto simp: Let_def nth_append nth_update_if split: option.splits if_splits)

text \<open>
  Signals stay, requests to stop stay, \<^verbatim>\<open>main\<close> goes forward, and only its own steps change the phase
  of a thread.
\<close>

lemma exec_changes:
  assumes "proc_exec E e s = Some (Inr s')" "pr_ops s' \<noteq> []"
  shows "pr_caught s \<Longrightarrow> pr_caught s'" "pr_cancel s n \<Longrightarrow> pr_cancel s' n"
    "length (pr_ops s') \<le> length (pr_ops s)" "e = Main \<Longrightarrow> length (pr_ops s') < length (pr_ops s)"
    "t < length (pr_threads s) \<Longrightarrow> t < length (pr_threads s') \<and> t_body (pr_threads s' ! t) = t_body (pr_threads s ! t) \<and>
       (e \<noteq> Turn t \<and> e \<noteq> Fail t \<longrightarrow> t_phase (pr_threads s' ! t) = t_phase (pr_threads s ! t))"
proof -
  have "(pr_caught s \<longrightarrow> pr_caught s') \<and> (pr_cancel s n \<longrightarrow> pr_cancel s' n) \<and> length (pr_ops s') \<le> length (pr_ops s) \<and>
    (e = Main \<longrightarrow> length (pr_ops s') < length (pr_ops s)) \<and>
    (t < length (pr_threads s) \<longrightarrow> t < length (pr_threads s') \<and> t_body (pr_threads s' ! t) = t_body (pr_threads s ! t) \<and>
       (e \<noteq> Turn t \<and> e \<noteq> Fail t \<longrightarrow> t_phase (pr_threads s' ! t) = t_phase (pr_threads s ! t)))"
  proof (cases e)
    case Main
    then obtain x xs where x: "pr_ops s = x # xs" "main_op E x (s\<lparr>pr_ops := xs\<rparr>) = Some (Inr s')"
      using assms(1) by (auto split: list.splits)
    from main_changes [OF x(2)] x(1) Main show ?thesis by auto
  next
    case (Turn u)
    then have "u < length (pr_threads s)" "thread_turn E u s = Some (Inr s')" using assms(1) by (auto split: if_splits)
    from thread_turn_changes [OF this(2,1)] Turn this(1) show ?thesis by (auto simp: nth_list_update)
  next
    case (Fail u)
    then have u: "u < length (pr_threads s)" "thread_fails u s = Some s'" using assms(1) by (auto split: if_splits)
    from thread_fails_changes [OF u(2,1)] Fail u(1) assms(2) show ?thesis by (auto simp: nth_list_update)
  qed (use assms(1) in \<open>auto split: if_splits\<close>)
  then show "pr_caught s \<Longrightarrow> pr_caught s'" "pr_cancel s n \<Longrightarrow> pr_cancel s' n"
    "length (pr_ops s') \<le> length (pr_ops s)" "e = Main \<Longrightarrow> length (pr_ops s') < length (pr_ops s)"
    "t < length (pr_threads s) \<Longrightarrow> t < length (pr_threads s') \<and> t_body (pr_threads s' ! t) = t_body (pr_threads s ! t) \<and>
       (e \<noteq> Turn t \<and> e \<noteq> Fail t \<longrightarrow> t_phase (pr_threads s' ! t) = t_phase (pr_threads s ! t))" by blast+
qed

lemma exec_other:
  assumes "proc_exec E e s = Some (Inr s')" "pr_ops s' \<noteq> []" "e \<noteq> Main"
  shows "pr_ops s' = pr_ops s \<and> pr_tid s' = pr_tid s \<and> t_joined (pr_threads s' ! t) = t_joined (pr_threads s ! t)"
proof (cases e)
  case (Turn u)
  then have u: "u < length (pr_threads s)" "thread_turn E u s = Some (Inr s')" using assms(1) by (auto split: if_splits)
  have "pr_tid (last_words b x) = pr_tid x" for b x by (cases b) simp_all
  then have "pr_tid s' = pr_tid s"
    using u(2) by (auto simp: thread_turn_def Let_def split: phase.splits if_splits)
  with thread_turn_changes [OF u(2,1)] show ?thesis by (auto simp: nth_update_if)
next
  case (Fail u)
  then have u: "u < length (pr_threads s)" "thread_fails u s = Some s'" using assms(1) by (auto split: if_splits)
  have "pr_tid s' = pr_tid s" using u(2) by (auto simp: thread_fails_def Let_def split: body.splits if_splits)
  with thread_fails_changes [OF u(2,1)] assms(2) show ?thesis by (auto simp: nth_update_if)
qed (use assms in \<open>auto split: if_splits\<close>)

text \<open>A thread that is to stop ends at its next test; a thread that fails ends at once.\<close>

lemma exec_own_step:
  assumes "proc_exec E e s = Some (Inr s')" "pr_ops s' \<noteq> []" "t < length (pr_threads s)"
    and "body_stops (t_body (pr_threads s ! t)) s" "e = Turn t \<or> e = Fail t"
  shows "t_phase (pr_threads s' ! t) = (if t_phase (pr_threads s ! t) = Working \<and> e = Turn t then Testing else Ended)"
proof (cases "e = Turn t")
  case True
  then have "thread_turn E t s = Some (Inr s')" using assms(1) by (auto split: if_splits)
  from thread_turn_changes [OF this assms(3)] assms(3,4) True show ?thesis by (auto split: phase.splits)
next
  case False
  then have "thread_fails t s = Some s'" using assms(1,5) by (auto split: if_splits)
  from thread_fails_changes [OF this assms(3)] False assms(2,3) show ?thesis by auto
qed

section \<open>Fair runs\<close>

text \<open>
  An infinite run: until \<^verbatim>\<open>main\<close> is through, every step is one of the process. It is fair when a thread
  that has not ended, and \<^verbatim>\<open>main\<close> when it need not wait, take a step at some later time. For the
  senders this includes that the card sends what is left in the ring.
\<close>

definition fair_run :: "penv \<Rightarrow> (nat \<Rightarrow> event) \<Rightarrow> (nat \<Rightarrow> proc) \<Rightarrow> bool" where
  "fair_run E ev \<sigma> \<longleftrightarrow>
     (\<forall>i. pr_ops (\<sigma> i) \<noteq> [] \<longrightarrow> proc_exec E (ev i) (\<sigma> i) = Some (Inr (\<sigma> (Suc i)))) \<and>
     (\<forall>i t. t < length (pr_threads (\<sigma> i)) \<and> t_phase (pr_threads (\<sigma> i) ! t) \<noteq> Ended \<longrightarrow>
        (\<exists>j \<ge> i. ev j = Turn t \<or> ev j = Fail t \<or> pr_ops (\<sigma> j) = [])) \<and>
     (\<forall>i. proc_exec E Main (\<sigma> i) \<noteq> None \<longrightarrow> (\<exists>j \<ge> i. ev j = Main \<or> pr_ops (\<sigma> j) = []))"

lemma fair_runD:
  assumes "fair_run E ev \<sigma>" "\<And>i. pr_ops (\<sigma> i) \<noteq> []"
  shows "proc_exec E (ev i) (\<sigma> i) = Some (Inr (\<sigma> (Suc i)))"
    "t < length (pr_threads (\<sigma> i)) \<Longrightarrow> t_phase (pr_threads (\<sigma> i) ! t) \<noteq> Ended \<Longrightarrow> \<exists>j \<ge> i. ev j = Turn t \<or> ev j = Fail t"
    "proc_exec E Main (\<sigma> i) \<noteq> None \<Longrightarrow> \<exists>j \<ge> i. ev j = Main"
  using assms unfolding fair_run_def by blast+

lemma fair_run_mono:
  assumes "fair_run E ev \<sigma>" "\<And>i. pr_ops (\<sigma> i) \<noteq> []" "i \<le> j"
  shows "pr_caught (\<sigma> i) \<Longrightarrow> pr_caught (\<sigma> j)" "pr_cancel (\<sigma> i) n \<Longrightarrow> pr_cancel (\<sigma> j) n"
    "length (pr_ops (\<sigma> j)) \<le> length (pr_ops (\<sigma> i))"
    "t < length (pr_threads (\<sigma> i)) \<Longrightarrow> t < length (pr_threads (\<sigma> j)) \<and> t_body (pr_threads (\<sigma> j) ! t) = t_body (pr_threads (\<sigma> i) ! t)"
proof -
  have "(pr_caught (\<sigma> i) \<longrightarrow> pr_caught (\<sigma> j)) \<and> (pr_cancel (\<sigma> i) n \<longrightarrow> pr_cancel (\<sigma> j) n) \<and>
    length (pr_ops (\<sigma> j)) \<le> length (pr_ops (\<sigma> i)) \<and>
    (t < length (pr_threads (\<sigma> i)) \<longrightarrow>
       t < length (pr_threads (\<sigma> j)) \<and> t_body (pr_threads (\<sigma> j) ! t) = t_body (pr_threads (\<sigma> i) ! t))"
    using assms(3)
  proof (induction rule: dec_induct)
    case (step k)
    note c = exec_changes [OF fair_runD(1) [OF assms(1,2), of k] assms(2)]
    show ?case using step.IH c(1) c(2) [of n] c(3) c(5) [of t] by (auto intro: le_trans)
  qed simp
  then show "pr_caught (\<sigma> i) \<Longrightarrow> pr_caught (\<sigma> j)" "pr_cancel (\<sigma> i) n \<Longrightarrow> pr_cancel (\<sigma> j) n"
    "length (pr_ops (\<sigma> j)) \<le> length (pr_ops (\<sigma> i))"
    "t < length (pr_threads (\<sigma> i)) \<Longrightarrow> t < length (pr_threads (\<sigma> j)) \<and> t_body (pr_threads (\<sigma> j) ! t) = t_body (pr_threads (\<sigma> i) ! t)"
    by blast+
qed

lemma body_stops_mono:
  assumes "fair_run E ev \<sigma>" "\<And>i. pr_ops (\<sigma> i) \<noteq> []" "i \<le> j" "body_stops b (\<sigma> i)"
  shows "body_stops b (\<sigma> j)"
  using assms(4) fair_run_mono(1,2) [OF assms(1-3)] by (auto simp: body_stops_def split: option.splits)

lemma stopped_thread_ends:
  assumes "fair_run E ev \<sigma>" "\<And>i. pr_ops (\<sigma> i) \<noteq> []" "t < length (pr_threads (\<sigma> i))"
    and "body_stops (t_body (pr_threads (\<sigma> i) ! t)) (\<sigma> i)"
  shows "\<exists>j \<ge> i. t_phase (pr_threads (\<sigma> j) ! t) = Ended"
proof (rule ccontr)
  assume "\<not> ?thesis"
  then have no: "t_phase (pr_threads (\<sigma> j) ! t) \<noteq> Ended" if "i \<le> j" for j using that by blast
  have at: "t < length (pr_threads (\<sigma> j))" "body_stops (t_body (pr_threads (\<sigma> j) ! t)) (\<sigma> j)" if "i \<le> j" for j
    using fair_run_mono(4) [OF assms(1,2) that assms(3)] body_stops_mono [OF assms(1,2) that assms(4)] by auto
  have own: "t_phase (pr_threads (\<sigma> j) ! t) = Working \<and> t_phase (pr_threads (\<sigma> (Suc j)) ! t) = Testing"
    if "i \<le> j" "ev j = Turn t \<or> ev j = Fail t" for j
    using exec_own_step [OF fair_runD(1) [OF assms(1,2)] assms(2) at [OF that(1)] that(2)] no [of "Suc j"] that(1)
    by (auto split: if_splits)
  have stay: "t_phase (pr_threads (\<sigma> k) ! t) = Testing"
    if "i \<le> j" "j \<le> k" "t_phase (pr_threads (\<sigma> j) ! t) = Testing" for j k
    using that(2)
  proof (induction rule: dec_induct)
    case (step k)
    have k: "i \<le> k" using that(1) step.hyps by simp
    then have "ev k \<noteq> Turn t \<and> ev k \<noteq> Fail t" using own [of k] step.IH by auto
    then show ?case
      using exec_changes(5) [OF fair_runD(1) [OF assms(1,2)] assms(2) at(1) [OF k]] step.IH by simp
  qed (rule that(3))
  obtain j where j: "i \<le> j" "ev j = Turn t \<or> ev j = Fail t"
    using fair_runD(2) [OF assms(1,2) assms(3) no] by blast
  then have "i \<le> Suc j" by simp
  then obtain k where k: "Suc j \<le> k" "ev k = Turn t \<or> ev k = Fail t"
    using fair_runD(2) [OF assms(1,2) at(1) no] by blast
  then show False using own [OF j] own [of k] stay [of "Suc j" k] j(1) by auto
qed

text \<open>A finite execution after which \<^verbatim>\<open>main\<close> is through is the beginning of a fair run.\<close>

definition run_state :: "penv \<Rightarrow> event list \<Rightarrow> proc \<Rightarrow> nat \<Rightarrow> proc" where
  "run_state E es s i = (case proc_run E (take i es) s of Some (Inr a) \<Rightarrow> a | _ \<Rightarrow> s)"

definition run_event :: "event list \<Rightarrow> nat \<Rightarrow> event" where
  "run_event es i = (if i < length es then es ! i else Main)"

lemma run_state_start [simp]: "run_state E es s 0 = s"
  by (simp add: run_state_def)

lemma run_step:
  "proc_run E es s = Some (Inr s') \<Longrightarrow> i < length es \<Longrightarrow>
    \<exists>a b. proc_run E (take i es) s = Some (Inr a) \<and> proc_exec E (es ! i) a = Some (Inr b) \<and>
      proc_run E (take (Suc i) es) s = Some (Inr b)"
proof (induction es arbitrary: s i)
  case (Cons e es)
  then obtain a where a: "proc_exec E e s = Some (Inr a)" "proc_run E es a = Some (Inr s')"
    by (auto split: option.splits sum.splits)
  show ?case
  proof (cases i)
    case (Suc k)
    with Cons.IH [OF a(2), of k] Cons.prems(2) a(1) show ?thesis by auto
  qed (use a(1) in simp)
qed simp

lemma finished_run_fair:
  assumes "proc_run E es s = Some (Inr s')" "pr_ops s' = []"
  shows "fair_run E (run_event es) (run_state E es s)"
proof -
  have late: "pr_ops (run_state E es s i) = []" if "length es \<le> i" for i
    using that assms by (simp add: run_state_def)
  have step: "proc_exec E (run_event es i) (run_state E es s i) = Some (Inr (run_state E es s (Suc i)))"
    if "i < length es" for i
    using run_step [OF assms(1) that] that by (auto simp: run_state_def run_event_def)
  have later: "\<exists>j \<ge> i. pr_ops (run_state E es s j) = []" for i
    using late [of "max i (length es)"] by (intro exI [of _ "max i (length es)"]) simp
  show ?thesis
    unfolding fair_run_def using step later late by (meson not_le)
qed

section \<open>The contract of a program\<close>

locale joined_program =
  fixes E :: penv and ops :: "op list"
  assumes creates: "\<And>b. can_create E b"
    and ordered: "disciplined E ops live_start"
begin

lemma reach_pinv: "proc_reach E (proc_start ops c) s \<Longrightarrow> pinv E s"
proof (induction rule: proc_reach.induct)
  case (proc_reach_step s e s')
  then show ?case using exec_keeps [OF proc_reach_step.IH creates, of e] by auto
qed (rule pinv_start [OF ordered])

lemma never_faults: "proc_reach E (proc_start ops c) s \<Longrightarrow> proc_exec E e s \<noteq> Some (Inl f)"
  using exec_keeps [OF reach_pinv creates, of c s e] by auto

text \<open>Whenever \<^verbatim>\<open>main\<close> has to wait there is a thread that can go on.\<close>

lemma never_stuck:
  assumes "proc_reach E (proc_start ops c) s" "pr_ops s \<noteq> []"
  shows "\<exists>e s'. e \<noteq> Sigint \<and> proc_exec E e s = Some (Inr s')"
proof -
  obtain x xs where x: "pr_ops s = x # xs" using assms(2) by (cases "pr_ops s") auto
  from main_keeps [OF reach_pinv [OF assms(1)] x creates] show ?thesis
  proof (elim disjE exE conjE)
    fix s' assume "main_op E x (s\<lparr>pr_ops := xs\<rparr>) = Some (Inr s')"
    then show ?thesis using x by (intro exI [of _ Main]) simp
  next
    fix f t assume t: "t < length (pr_threads s)" "t_phase (pr_threads s ! t) \<noteq> Ended"
    then have "proc_exec E (Turn t) s \<noteq> None"
      using assms(2) by (auto simp: thread_turn_def Let_def split: phase.splits)
    then show ?thesis
      using exec_keeps [OF reach_pinv [OF assms(1)] creates, of "Turn t"] by (intro exI [of _ "Turn t"]) (auto simp del: proc_exec.simps)
  qed
qed

text \<open>What a thread uses is there until the thread has been joined.\<close>

lemma threads_gone:
  assumes "proc_reach E (proc_start ops c) s" "t < length (pr_threads s)" "\<not> t_joined (pr_threads s ! t)"
  shows "body_accessible E (t_body (pr_threads s ! t)) s"
  using pinvD(2) [OF reach_pinv [OF assms(1)] assms(2)] assms(3) by (simp add: thread_ok_def)

lemma run_pinv:
  assumes "fair_run E ev \<sigma>" "\<And>i. pr_ops (\<sigma> i) \<noteq> []" "\<sigma> 0 = proc_start ops c"
  shows "pinv E (\<sigma> i)"
proof (induction i)
  case (Suc i)
  then show ?case using exec_keeps [OF Suc creates, of "ev i"] fair_runD(1) [OF assms(1,2), of i] by auto
qed (simp add: assms(3) pinv_start [OF ordered])

text \<open>After the signal \<^verbatim>\<open>main\<close> makes one call after the other.\<close>

lemma waited_thread_ends:
  assumes "fair_run E ev \<sigma>" "\<And>i. pr_ops (\<sigma> i) \<noteq> []" "\<sigma> 0 = proc_start ops c" "pr_caught (\<sigma> i)"
    and "pr_ops (\<sigma> i) = Join f # xs" "pr_tid (\<sigma> i) f = Some t"
  shows "\<exists>j \<ge> i. t_phase (pr_threads (\<sigma> j) ! t) = Ended"
proof -
  note mono = fair_run_mono [OF assms(1,2)] and inv = run_pinv [OF assms(1-3)]
  note ends = stopped_thread_ends [OF assms(1,2)]
  have ok: "tids_ok (\<sigma> i)" using pinvD(1) [OF inv] .
  from inv [of i] assms(5) obtain b k where c: "\<And>n. int n < k \<Longrightarrow> pr_cancel (\<sigma> i) n"
    "lv_map (live_of k (\<sigma> i)) f = Some b" "will_stop b (live_of k (\<sigma> i))" by (auto simp: pinv_def)
  from live_tid [OF ok c(2)] assms(6) have t: "t < length (pr_threads (\<sigma> i))" "t_body (pr_threads (\<sigma> i) ! t) = b" by auto
  have "\<exists>j \<ge> i. body_stops b (\<sigma> j)"
  proof (cases "cancel_of b")
    case (Some n)
    from c(3) Some consider "int n < k" | g m where "lv_map (live_of k (\<sigma> i)) g = Some (Count_thread m)" "int n < m"
      by (auto simp: will_stop_def live_of_def)
    then show ?thesis
    proof cases
      case 1
      then show ?thesis using c(1) Some by (auto simp: body_stops_def)
    next
      case (2 g m)
      from live_tid [OF ok 2(1)] obtain u where u: "u < length (pr_threads (\<sigma> i))"
        "t_body (pr_threads (\<sigma> i) ! u) = Count_thread m" by blast
      with ends [of u i] assms(4) obtain j where j: "i \<le> j" "t_phase (pr_threads (\<sigma> j) ! u) = Ended"
        by (auto simp: body_stops_def)
      have "u < length (pr_threads (\<sigma> j))" "t_body (pr_threads (\<sigma> j) ! u) = Count_thread m"
        using mono(4) [OF j(1) u(1)] u(2) by auto
      with pinvD(2) [OF inv [of j]] j(2) 2(2) have "pr_cancel (\<sigma> j) n" by (auto simp: thread_ok_def)
      with j(1) Some show ?thesis by (auto simp: body_stops_def)
    qed
  qed (use assms(4) in \<open>auto simp: body_stops_def\<close>)
  then obtain j where j: "i \<le> j" "body_stops b (\<sigma> j)" by blast
  with mono(4) [OF j(1) t(1)] t(2) ends [of t j] show ?thesis by (auto intro: le_trans)
qed

lemma main_goes_on:
  assumes "fair_run E ev \<sigma>" "\<And>i. pr_ops (\<sigma> i) \<noteq> []" "\<sigma> 0 = proc_start ops c" "pr_caught (\<sigma> i)"
  shows "\<exists>j \<ge> i. ev j = Main"
proof (rule ccontr)
  assume "\<not> ?thesis"
  then have none: "ev j \<noteq> Main" if "i \<le> j" for j using that by blast
  then have blocked: "proc_exec E Main (\<sigma> j) = None" if "i \<le> j" for j
    using fair_runD(3) [OF assms(1,2), of j] that le_trans by blast
  obtain x xs where x: "pr_ops (\<sigma> i) = x # xs" using assms(2) [of i] by (cases "pr_ops (\<sigma> i)") auto
  with main_keeps [OF run_pinv [OF assms(1-3)] x creates] blocked [of i] obtain f t where t: "x = Join f"
    "pr_tid (\<sigma> i) f = Some t" "\<not> t_joined (pr_threads (\<sigma> i) ! t)" by auto
  obtain j where j: "i \<le> j" "t_phase (pr_threads (\<sigma> j) ! t) = Ended"
    using waited_thread_ends [OF assms] x t by blast
  from j(1) have "pr_ops (\<sigma> j) = pr_ops (\<sigma> i) \<and> pr_tid (\<sigma> j) = pr_tid (\<sigma> i) \<and>
      t_joined (pr_threads (\<sigma> j) ! t) = t_joined (pr_threads (\<sigma> i) ! t)"
  proof (induction rule: dec_induct)
    case (step k)
    then show ?case
      using exec_other [OF fair_runD(1) [OF assms(1,2), of k] assms(2) none [OF step.hyps(1)], of t] by simp
  qed simp
  with x t j(2) have "proc_exec E Main (\<sigma> j) \<noteq> None" by (simp add: Let_def)
  with blocked [OF j(1)] show False by simp
qed

lemma returns:
  assumes "fair_run E ev \<sigma>" "\<sigma> 0 = proc_start ops c" "pr_caught (\<sigma> i)"
  shows "\<exists>j. pr_ops (\<sigma> j) = []"
proof (rule ccontr)
  assume "\<not> ?thesis"
  then have go: "pr_ops (\<sigma> j) \<noteq> []" for j by blast
  note mono = fair_run_mono [OF assms(1) go]
  have False if "i \<le> j" for j
    using that
  proof (induction "length (pr_ops (\<sigma> j))" arbitrary: j rule: less_induct)
    case less
    from main_goes_on [OF assms(1) go assms(2) mono(1) [OF less.prems assms(3)]] obtain k where
      k: "j \<le> k" "ev k = Main" by blast
    have "length (pr_ops (\<sigma> (Suc k))) < length (pr_ops (\<sigma> k))"
      using exec_changes(4) [OF fair_runD(1) [OF assms(1) go, of k] go] k(2) by blast
    with mono(3) [OF k(1)] have "length (pr_ops (\<sigma> (Suc k))) < length (pr_ops (\<sigma> j))" by simp
    from less.hyps [OF this] k(1) less.prems show False by simp
  qed
  then show False by blast
qed

end

section \<open>Loops of main\<close>

text \<open>
  What \<^verbatim>\<open>main\<close> has when it starts its first thread: the configuration, the region, the structures of
  the threads, the ports, whether \<^verbatim>\<open>caught_signal\<close> is set, the calls to come and the value it will return.
\<close>

record ('g, 'm, 't, 'd) launch =
  la_gen :: 'g
  la_mem :: 'm
  la_ths :: "'t list"
  la_ports :: "'d list"
  la_caught :: bool
  la_ops :: "op list"
  la_ret :: int

lemma disciplined_append:
  "disciplined E (xs @ ys) l \<longleftrightarrow> disciplined E xs l \<and> disciplined E ys (fold live_op xs l)"
  by (induction xs arbitrary: l) auto

text \<open>The threads \<open>i\<close> to \<open>N - 1\<close> of a program and its report thread.\<close>

definition worker_map :: "(nat \<Rightarrow> body) \<Rightarrow> nat \<Rightarrow> nat \<Rightarrow> body option \<Rightarrow> tid_field \<Rightarrow> body option" where
  "worker_map B i N c f = (case f of Ths n \<Rightarrow> if i \<le> n \<and> n < N then Some (B n) else None | Ctid \<Rightarrow> c)"

lemma worker_map_simps [simp]:
  "worker_map B i N c Ctid = c" "worker_map B i N c (Ths n) = (if i \<le> n \<and> n < N then Some (B n) else None)"
  "(worker_map B i N c)(Ctid := d) = worker_map B i N d"
  by (auto simp: worker_map_def fun_eq_iff split: tid_field.splits)

lemma worker_map_empty [simp]: "worker_map B N N None f = None"
  by (auto simp: worker_map_def split: tid_field.splits)

lemma worker_map_add: "(worker_map B 0 N c)(Ths N \<mapsto> B N) = worker_map B 0 (Suc N) c"
  by (auto simp: worker_map_def fun_eq_iff less_Suc_eq split: tid_field.splits)

lemma worker_map_remove: "i < N \<Longrightarrow> (worker_map B i N c)(Ths i := None) = worker_map B (Suc i) N c"
  by (auto simp: worker_map_def fun_eq_iff less_Suc_eq_le split: tid_field.splits)

lemma worker_map_cases:
  assumes "worker_map B i N c f = Some b"
  obtains n where "f = Ths n" "i \<le> n" "n < N" "b = B n" | "f = Ctid" "c = Some b"
  using assms by (auto simp: worker_map_def split: tid_field.splits if_splits)

lemma live_start_map: "lv_map live_start = worker_map B 0 0 None"
  by (auto simp: live_start_def worker_map_def fun_eq_iff split: tid_field.splits)

lemma spawn_loop:
  assumes "\<And>n. body_ready (B n)" "\<And>n. may_use E (B n) live_start" "post = [] \<or> post = [Pause]"
  shows "disciplined E (concat (map (\<lambda>n. Create (Ths n) (B n) # post) [0..<N])) live_start \<and>
    fold live_op (concat (map (\<lambda>n. Create (Ths n) (B n) # post) [0..<N])) live_start
      = live_start\<lparr>lv_map := worker_map B 0 N None\<rparr>"
proof (induction N)
  case 0
  then show ?case by (simp flip: live_start_map)
next
  case (Suc N)
  then show ?case
    using assms(1,2) [of N] assms(3) by (auto simp: disciplined_append worker_map_add may_use_def simp del: fun_upd_apply)
qed

lemma join_loop:
  assumes "lv_map l = worker_map B 0 N c" "\<And>n m. B n \<noteq> Count_thread m"
    and "\<And>n k. n < N \<Longrightarrow> cancel_of (B n) = Some k \<Longrightarrow> int k < lv_bound l"
  shows "i \<le> N \<Longrightarrow> disciplined E (map (\<lambda>n. Join (Ths n)) [0..<i]) l \<and>
    fold live_op (map (\<lambda>n. Join (Ths n)) [0..<i]) l = l\<lparr>lv_map := worker_map B i N c\<rparr>"
proof (induction i)
  case 0
  then show ?case by (simp flip: assms(1))
next
  case (Suc i)
  have "(case B i of Count_thread m \<Rightarrow> x m | _ \<Rightarrow> y) = y" for x and y :: int
    using assms(2) [of i] by (cases "B i") auto
  moreover have "will_stop (B i) (l\<lparr>lv_map := m\<rparr>)" for m
    using assms(3) [of i] Suc.prems by (auto simp: will_stop_def)
  ultimately show ?case using Suc by (simp add: disciplined_append worker_map_remove del: fun_upd_apply)
qed

text \<open>The calls of a program whose report thread stops the others.\<close>

lemma counted_disciplined:
  assumes "0 < N" "\<And>n. body_ready (B n)" "\<And>n. may_use E (B n) live_start"
    and "\<And>n. cancel_of (B n) = Some n" "post = [] \<or> post = [Pause]" "stop = [] \<or> stop = [Pause, Raise]"
  shows "disciplined E (concat (map (\<lambda>n. Create (Ths n) (B n) # post) [0..<N]) @
    [Create Ctid (Count_thread (int N))] @ stop @ [Join Ctid] @ map (\<lambda>n. Join (Ths n)) [0..<N] @ [Exit_region, Return]) live_start"
proof -
  let ?l = "live_start\<lparr>lv_map := worker_map B 0 N None, lv_bound := int N\<rparr>"
  have no: "B n \<noteq> Count_thread m" for n m using assms(4) [of n] by auto
  have j: "disciplined E (map (\<lambda>n. Join (Ths n)) [0..<N]) ?l \<and>
      fold live_op (map (\<lambda>n. Join (Ths n)) [0..<N]) ?l = ?l\<lparr>lv_map := worker_map B N N None\<rparr>"
    by (rule join_loop) (use no assms(4) in auto)
  have l: "live_start\<lparr>lv_map := worker_map B 0 N None, lv_bound := max (int N) (lv_bound live_start)\<rparr> = ?l"
    by (simp add: live_start_def)
  have "harmless E Exit_region (?l\<lparr>lv_map := worker_map B N N None\<rparr>)"
    by (auto elim: worker_map_cases)
  then show ?thesis
    using spawn_loop [where B = B and N = N, OF assms(2,3,5)] j assms(1,6)
    by (auto simp: disciplined_append may_use_def will_stop_def l simp del: fun_upd_apply)
qed

end
