(* ===== verification/Bench_Main.thy ===== *)
theory Bench_Main
  imports C_Print Bench_Nvme Pop_System Lifecycle
begin

text \<open>
  The reports and \<^verbatim>\<open>main\<close> of \<^verbatim>\<open>apps/bench-nvme.c\<close>. Neither the device nor the region is checked before
  the threads are created, and the array of 32 thread structures is indexed up to the number of CPUs.
\<close>

section \<open>Reports\<close>

definition bench_walk_str :: "bench_walk \<Rightarrow> string" where
  "bench_walk_str w = (case w of WALK_RANDOM \<Rightarrow> ''random'' | WALK_SEQ \<Rightarrow> ''seq'' | WALK_SAME \<Rightarrow> ''same'')"

definition bench_split_str :: "bench_split \<Rightarrow> string" where
  "bench_split_str s = (case s of SPLIT_EQUAL \<Rightarrow> ''equal'' | SPLIT_NOSPLIT \<Rightarrow> ''nosplit'')"

definition print_p :: "bench_param \<Rightarrow> string" where
  "print_p p = println ''==== Benchmark Configuration ===='' @
     print_rows
      [(''mode:       '', if p_mode p = NVME_CMD_READ then ''read'' else ''write''),
       (''walk:       '', bench_walk_str (p_walk p)),
       (''split:      '', bench_split_str (p_split p)),
       (''size:       '', show_int (p_size p)),
       (''batch:      '', show_int (p_batch p)),
       (''device:     '', case p_nvme p of Some d \<Rightarrow> d | None \<Rightarrow> ''(null)''),
       (''mem:        '', show_pci (p_p2p p)),
       (''ncpus:      '', show_int (p_ncpus p)),
       (''end lba:    '', show_lx (p_lba_end p)),
       (''time:       '', show_int (p_time p))] @
     println ''=================================''"

text \<open>
  The rates are computed in floating point: \<open>show_rate x usec d\<close> is what \<^verbatim>\<open>%.2lf\<close> prints for
  \<^verbatim>\<open>x / usec * 1000000 / d\<close>.
\<close>

definition rate_text :: "(u64 \<Rightarrow> u64 \<Rightarrow> nat \<Rightarrow> string) \<Rightarrow> u64 \<Rightarrow> u64 \<Rightarrow> u64 \<Rightarrow> string" where
  "rate_text show_rate ios bytes elapsed =
     show_rate ios elapsed 1 @ '' iops, '' @ show_rate ios elapsed 1000 @ '' kiops, '' @
     show_rate bytes elapsed 1 @ '' Bps, '' @ show_rate bytes elapsed (1024 * 1024) @ '' MBps''"

definition print_result :: "(u64 \<Rightarrow> u64 \<Rightarrow> nat \<Rightarrow> string) \<Rightarrow> bench_thread \<Rightarrow> string" where
  "print_result show_rate th = println (''[FINAL] qid '' @ show_int (bt_cpu th) @ '' '' @
     rate_text show_rate (bt_count th) (bt_bytes th) (get_usec_elapsed (bt_start th) (bt_end th)))"

text \<open>The report thread; an element of the list is what one turn of its loop sees.\<close>

fun report_interval :: "(u64 \<Rightarrow> u64 \<Rightarrow> nat \<Rightarrow> string) \<Rightarrow> bench_param
    \<Rightarrow> (timeval \<times> bench_thread list \<times> timeval \<times> bench_thread list) list \<Rightarrow> string outcome" where
  "report_interval show_rate p [] = Inr []"
| "report_interval show_rate p ((start, before, end, after) # obs) =
     (let n = nat (p_ncpus p) in
      if n \<le> length before \<and> n \<le> length after
      then let (ios, bytes) = print_interval_result (take n before) (take n after) in
        obind (report_interval show_rate p obs) (\<lambda>t.
        Inr (println (''[INTERIM] '' @ rate_text show_rate ios bytes (get_usec_elapsed start end)) @ t))
      else Inl OutOfBounds)"

section \<open>The program\<close>

definition bench_ops :: "bench_param \<Rightarrow> op list" where
  "bench_ops p =
     map (\<lambda>n. Create (Ths n) (Bench_start n)) [0..<nat (p_ncpus p)] @
     [Create Ctid Report_interval] @
     (if p_time p \<noteq> 0 then [Pause, Raise] else []) @
     map (\<lambda>n. Join (Ths n)) [0..<nat (p_ncpus p)] @
     [Join Ctid, Close_nvme, Exit_region, Return]"

text \<open>
  The region and the namespace that the threads use are \<^const>\<open>None\<close> when they are null pointers. After
  the calls of \<open>bench_ops\<close> \<^verbatim>\<open>main\<close> prints the result of every thread and returns 0.
\<close>

definition bench_main :: "'s sysif \<Rightarrow> ((addr \<times> pop_mem) option, 'u) unvme_api \<Rightarrow> nat option
    \<Rightarrow> (string \<Rightarrow> int option) \<Rightarrow> bool \<Rightarrow> string list \<Rightarrow> 's \<Rightarrow> 'u
    \<Rightarrow> ((int + (bench_param, (addr \<times> pop_mem) option \<times> nvme_ns option, bench_thread, unit) launch) \<times> 's \<times> 'u) outcome" where
  "bench_main S U aff scan_usec sig argv s us =
     (case bench_args (count_online_cpus aff) scan_usec argv of
        Inl r \<Rightarrow> Inr (Inl r, s, us)
      | Inr p \<Rightarrow>
          if \<not> sig then Inr (Inl (- 1), s, us)
          else let (ns, us1) = unvme_open U (p_nvme p) us in
            obind (pop_mem_init S (p_p2p p) 0 s) (\<lambda>(m, s1).
              let mem = (case m of Inl e \<Rightarrow> None | Inr r \<Rightarrow> Some r);
                  us2 = unvme_register_pop_mem U mem us1
              in if nat (p_ncpus p) \<le> 32
                 then Inr (Inr \<lparr>la_gen = p, la_mem = (mem, ns),
                             la_ths = map (\<lambda>n. bench_thread_init p (int n)) [0..<nat (p_ncpus p)], la_ports = [],
                             la_caught = False, la_ops = bench_ops p, la_ret = 0\<rparr>, s1, us2)
                 else Inl OutOfBounds))"

section \<open>The order of the calls\<close>

lemma bench_disciplined: "disciplined E (bench_ops p) live_start"
proof -
  let ?N = "nat (p_ncpus p)"
  let ?l = "\<lambda>c. live_start\<lparr>lv_map := worker_map Bench_start 0 ?N c\<rparr>"
  have sp: "disciplined E (map (\<lambda>n. Create (Ths n) (Bench_start n)) [0..<?N]) live_start \<and>
      fold live_op (map (\<lambda>n. Create (Ths n) (Bench_start n)) [0..<?N]) live_start = ?l None"
    using spawn_loop [where B = Bench_start and N = ?N and post = "[]" and E = E]
    by (simp add: may_use_def live_start_def)
  have j: "disciplined E (map (\<lambda>n. Join (Ths n)) [0..<?N]) (?l (Some Report_interval)) \<and>
      fold live_op (map (\<lambda>n. Join (Ths n)) [0..<?N]) (?l (Some Report_interval))
        = (?l (Some Report_interval))\<lparr>lv_map := worker_map Bench_start ?N ?N (Some Report_interval)\<rparr>"
    by (rule join_loop) simp_all
  show ?thesis
    using sp j unfolding bench_ops_def
    by (auto simp: disciplined_append may_use_def will_stop_def simp del: fun_upd_apply)
qed

interpretation bench: joined_program "all_created owner" "bench_ops p" for owner p
  by unfold_locales (simp, rule bench_disciplined)

text \<open>
  What \<^verbatim>\<open>main\<close> starts its threads with. A region that could not be set up and a device that could not
  be opened do not stop it, and more than 32 threads write past the array of their structures.
\<close>

lemma bench_main_launch:
  assumes "bench_args (count_online_cpus aff) su argv = Inr p" "pop_mem_init S (p_p2p p) 0 s = Inr (m, s')"
    and "unvme_open U (p_nvme p) us = (ns, us')"
  shows "if p_ncpus p \<le> 32
    then \<exists>la us2. bench_main S U aff su True argv s us = Inr (Inr la, s', us2) \<and> la_ops la = bench_ops p \<and>
      la_mem la = (case m of Inl e \<Rightarrow> None | Inr r \<Rightarrow> Some r, ns) \<and> length (la_ths la) = nat (p_ncpus p)
    else bench_main S U aff su True argv s us = Inl OutOfBounds"
proof -
  obtain d where "p_nvme p = Some d"
    using assms(1) by (auto simp: bench_args_def split: sum.splits if_splits)
  with assms show ?thesis by (auto simp: bench_main_def Let_def)
qed

end
