(* ===== verification/Ring_Index.thy ===== *)
theory Ring_Index
  imports Pop_Prelude
begin

text \<open>
  Indices that walk around a ring of \<open>n\<close> slots. The programs use two kinds of rings: the rings of
  netmap, walked with \<^verbatim>\<open>nm_ring_next\<close> of the netmap headers, and the ring between the NVMe and
  the network thread of \<^verbatim>\<open>apps/nvgen.c\<close>. Both rely on the same contract, the locale
  \<open>ring_index\<close>: the next index is the successor modulo the number of slots.
\<close>

text \<open>How many steps lead from \<open>i\<close> to \<open>t\<close>.\<close>

definition ring_dist :: "nat \<Rightarrow> nat \<Rightarrow> nat \<Rightarrow> nat" where
  "ring_dist n i t = (t + n - i) mod n"

lemma ring_dist_self [simp]: "i < n \<Longrightarrow> ring_dist n i i = 0"
  by (simp add: ring_dist_def)

lemma ring_dist_less: "0 < n \<Longrightarrow> ring_dist n i t < n"
  by (simp add: ring_dist_def)

lemma mod_once: "m < n + n \<Longrightarrow> m mod n = (if m < n then m else m - n)" for m n :: nat
  by (auto simp: le_mod_geq)

lemma ring_dist_cases:
  "i < n \<Longrightarrow> t < n \<Longrightarrow> ring_dist n i t = (if i \<le> t then t - i else t + n - i)"
  unfolding ring_dist_def by (subst mod_once) auto

lemma ring_dist_0_iff: "i < n \<Longrightarrow> t < n \<Longrightarrow> ring_dist n i t = 0 \<longleftrightarrow> i = t"
  by (auto simp: ring_dist_cases)

lemma ring_dist_next:
  assumes "i < n" "t < n" "i \<noteq> t"
  shows "Suc (ring_dist n (Suc i mod n) t) = ring_dist n i t"
proof (cases "Suc i = n")
  case True
  with assms show ?thesis by (auto simp: ring_dist_cases)
next
  case False
  with assms have "Suc i mod n = Suc i" by simp
  with assms False show ?thesis by (auto simp: ring_dist_cases)
qed

lemma ring_dist_back: "i < n \<Longrightarrow> ring_dist n (Suc i mod n) i = n - 1"
  by (cases "Suc i = n") (auto simp: ring_dist_cases)

lemma ring_dist_step:
  "i < n \<Longrightarrow> k < n \<Longrightarrow> ring_dist n i ((i + k) mod n) = k"
  using mod_once [of "i + k" n] by (auto simp: ring_dist_cases)

lemma ring_dist_reach:
  "i < n \<Longrightarrow> t < n \<Longrightarrow> (i + ring_dist n i t) mod n = t"
  by (auto simp: ring_dist_cases)

locale ring_index =
  fixes n :: nat
    and next_index :: "u32 \<Rightarrow> u32"
  assumes slots: "0 < n"
    and next_mod: "unat i < n \<Longrightarrow> unat (next_index i) = Suc (unat i) mod n"
begin

lemma next_less: "unat i < n \<Longrightarrow> unat (next_index i) < n"
  using next_mod slots by simp

lemma iterate_mod: "unat i < n \<Longrightarrow> unat ((next_index ^^ k) i) = (unat i + k) mod n"
proof (induction k)
  case (Suc k)
  then have "unat ((next_index ^^ k) i) = (unat i + k) mod n" by simp
  moreover from this have "unat ((next_index ^^ k) i) < n" using slots by simp
  ultimately show ?case by (simp add: next_mod mod_Suc_eq)
qed simp

lemma iterate_less: "unat i < n \<Longrightarrow> unat ((next_index ^^ k) i) < n"
  using iterate_mod slots by simp

lemma iterate_dist: "unat i < n \<Longrightarrow> unat t < n \<Longrightarrow> (next_index ^^ ring_dist n (unat i) (unat t)) i = t"
  by (simp add: word_nat iterate_mod ring_dist_reach)

lemma dist_next:
  "unat i < n \<Longrightarrow> unat t < n \<Longrightarrow> i \<noteq> t \<Longrightarrow>
     Suc (ring_dist n (unat (next_index i)) (unat t)) = ring_dist n (unat i) (unat t)"
  by (simp add: next_mod ring_dist_next word_nat)

lemma iterate_inj:
  assumes "unat i < n" "j < n" "k < n" "(next_index ^^ j) i = (next_index ^^ k) i"
  shows "j = k"
proof -
  have "(unat i + j) mod n = (unat i + k) mod n"
    using iterate_mod [OF assms(1)] assms(4) by metis
  then show ?thesis
    using ring_dist_step [OF assms(1,2)] ring_dist_step [OF assms(1,3)] by metis
qed

end

end
