(* ===== verification/Pop_Netmap.thy ===== *)
theory Pop_Netmap
  imports Pop_Buf Ring_Index
begin

text \<open>
  \<^verbatim>\<open>lib/pop_netmap.c\<close>: pointing the slots of netmap rings at pop memory.

  The structures of netmap are modelled as far as the sources use their fields. Its functions and
  system calls (\<^verbatim>\<open>nm_ring_next\<close>, \<^verbatim>\<open>nm_ring_empty\<close>, \<^verbatim>\<open>nm_ring_space\<close>,
  \<^verbatim>\<open>NIOCRXSYNC\<close>, ...) and the flag \<^verbatim>\<open>NS_PHY_INDIRECT\<close> are the record \<open>nmapi\<close>, a parameter;
  what the code relies on is stated with the locale \<open>ring_index\<close> and the predicate \<open>nm_documented\<close>.
\<close>

section \<open>Netmap\<close>

record netmap_slot =
  ns_buf_idx :: u32
  ns_len :: u16
  ns_flags :: u16
  ns_ptr :: u64

record netmap_ring =
  nr_num_slots :: u32
  nr_buf_size :: u32
  nr_ringid :: u16
  nr_head :: u32
  nr_cur :: u32
  nr_tail :: u32
  nr_slot :: "netmap_slot list"

record nmapi =
  NS_PHY_INDIRECT :: u16
  nm_ring_next :: "netmap_ring \<Rightarrow> u32 \<Rightarrow> u32"
  nm_ring_empty :: "netmap_ring \<Rightarrow> bool"
  nm_ring_space :: "netmap_ring \<Rightarrow> u32"
  nm_tx_pending :: "netmap_ring \<Rightarrow> bool"
  nm_rxsync :: "netmap_ring \<Rightarrow> int \<times> netmap_ring"
  nm_txsync :: "netmap_ring \<Rightarrow> int \<times> netmap_ring"

text \<open>
  A ring as netmap sets it up: as many slots as it says, and indices inside it. The documented
  behaviour of the functions: the next index is the successor in the ring, a ring is empty when
  \<^verbatim>\<open>head\<close> has reached \<^verbatim>\<open>tail\<close>, and its space is the distance from \<^verbatim>\<open>head\<close> to
  \<^verbatim>\<open>tail\<close>.
\<close>

definition ring_ok :: "netmap_ring \<Rightarrow> bool" where
  "ring_ok r \<longleftrightarrow> 0 < unat (nr_num_slots r) \<and> length (nr_slot r) = unat (nr_num_slots r) \<and>
     unat (nr_head r) < unat (nr_num_slots r) \<and> unat (nr_tail r) < unat (nr_num_slots r)"

definition nm_documented :: "nmapi \<Rightarrow> bool" where
  "nm_documented A \<longleftrightarrow>
     (\<forall>r. 0 < unat (nr_num_slots r) \<longrightarrow> ring_index (unat (nr_num_slots r)) (nm_ring_next A r)) \<and>
     (\<forall>r. nm_ring_empty A r \<longleftrightarrow> nr_head r = nr_tail r) \<and>
     (\<forall>r. ring_ok r \<longrightarrow> unat (nm_ring_space A r)
        = ring_dist (unat (nr_num_slots r)) (unat (nr_head r)) (unat (nr_tail r)))"

section \<open>Receive rings on pop memory\<close>

text \<open>\<^verbatim>\<open>ring\<close> is the address of the netmap ring.\<close>

record pop_nm_rxring =
  rx_pbuf :: pop_buf
  rx_ring :: addr

text \<open>
  \<^verbatim>\<open>pop_buf_paddr(pbuf) + ring->nr_buf_size * idx\<close>: the product is 32 bits wide.
\<close>

definition slot_paddr :: "addr \<Rightarrow> u32 \<Rightarrow> nat \<Rightarrow> addr" where
  "slot_paddr pa bufsz idx = pa + ucast (bufsz * of_nat idx)"

fun attach_slots :: "nmapi \<Rightarrow> addr \<Rightarrow> u32 \<Rightarrow> nat \<Rightarrow> nat \<Rightarrow> netmap_slot list \<Rightarrow> netmap_slot list outcome" where
  "attach_slots A pa bufsz idx 0 sl = Inr sl"
| "attach_slots A pa bufsz idx (Suc k) sl =
     (if idx < length sl
      then attach_slots A pa bufsz (Suc idx) k (sl[idx := (sl ! idx)
             \<lparr>ns_flags := ns_flags (sl ! idx) OR NS_PHY_INDIRECT A,
              ns_ptr := slot_paddr pa bufsz idx\<rparr>])
      else Inl OutOfBounds)"

text \<open>The loop that moves \<^verbatim>\<open>head\<close> and \<^verbatim>\<open>cur\<close> over the slots that hold packets.\<close>

partial_function (option) flush_ring :: "nmapi \<Rightarrow> netmap_ring \<Rightarrow> netmap_ring option" where
  "flush_ring A r =
     (if nm_ring_empty A r then Some r
      else flush_ring A (r\<lparr>nr_head := nm_ring_next A r (nr_head r),
                           nr_cur := nm_ring_next A r (nr_head r)\<rparr>))"

text \<open>
  \<^verbatim>\<open>pop_nm_rxring_init\<close>. \<^verbatim>\<open>pop_buf_put\<close> is called before the check for \<^verbatim>\<open>NULL\<close>. The
  two \<^verbatim>\<open>malloc\<close> answers are \<open>mo\<close> and \<open>mo'\<close>; \<open>rp\<close> is the address of the ring. The outer
  \<^const>\<open>None\<close> means that the call does not return.
\<close>

definition pop_nm_rxring_init :: "nmapi \<Rightarrow> bool \<Rightarrow> bool \<Rightarrow> addr \<Rightarrow> addr \<Rightarrow> netmap_ring \<Rightarrow> pop_mem
    \<Rightarrow> (pop_nm_rxring option \<times> netmap_ring \<times> pop_mem) outcome option" where
  "pop_nm_rxring_init A mo mo' mp rp ring mem =
     (let sz = nr_num_slots ring * nr_buf_size ring in
      case pop_buf_alloc mo mp mem (ucast sz) of
        None \<Rightarrow> None
      | Some (Inl e, mem1) \<Rightarrow> Some (Inl NullDeref)
      | Some (Inr pbuf0, mem1) \<Rightarrow>
          (let pbuf = snd (pop_buf_put pbuf0 (ucast sz)) in
           case attach_slots A (pop_buf_paddr pbuf) (nr_buf_size ring) 0 (unat (nr_num_slots ring))
                  (nr_slot ring) of
             Inl f \<Rightarrow> Some (Inl f)
           | Inr sl \<Rightarrow>
               (let ring1 = ring\<lparr>nr_slot := sl, nr_cur := nr_num_slots ring - 1,
                                  nr_head := nr_num_slots ring - 1\<rparr>;
                    ring2 = snd (nm_rxsync A ring1)
                in if \<not> mo' then Some (Inr (None, ring2, mem1))
                   else (case flush_ring A ring2 of
                       None \<Rightarrow> None
                     | Some ring3 \<Rightarrow>
                         Some (Inr (Some \<lparr>rx_pbuf = pbuf, rx_ring = rp\<rparr>,
                                    snd (nm_rxsync A ring3), mem1))))))"

fun detach_slots :: "nmapi \<Rightarrow> nat \<Rightarrow> nat \<Rightarrow> netmap_slot list \<Rightarrow> netmap_slot list outcome" where
  "detach_slots A idx 0 sl = Inr sl"
| "detach_slots A idx (Suc k) sl =
     (if idx < length sl
      then detach_slots A (Suc idx) k (sl[idx := (sl ! idx)
             \<lparr>ns_flags := ns_flags (sl ! idx) AND NOT (NS_PHY_INDIRECT A), ns_ptr := 0\<rparr>])
      else Inl OutOfBounds)"

text \<open>\<^verbatim>\<open>pop_nm_rxring_exit\<close>: the slots, and the release of the two descriptors.\<close>

definition pop_nm_rxring_exit :: "nmapi \<Rightarrow> addr \<Rightarrow> netmap_ring \<Rightarrow> (addr \<rightharpoonup> pop_buf)
    \<Rightarrow> (netmap_ring \<times> (addr \<rightharpoonup> pop_buf)) outcome" where
  "pop_nm_rxring_exit A pbufp ring bufs =
     (case detach_slots A 0 (unat (nr_num_slots ring)) (nr_slot ring) of
        Inl f \<Rightarrow> Inl f
      | Inr sl \<Rightarrow> Inr (ring\<lparr>nr_slot := sl\<rparr>, pop_buf_free pbufp bufs))"

definition pop_nm_rxring_buf :: "pop_nm_rxring \<Rightarrow> netmap_ring \<Rightarrow> u32 \<Rightarrow> addr" where
  "pop_nm_rxring_buf prx ring idx = pop_buf_data (rx_pbuf prx) + ucast (nr_buf_size ring * idx)"

definition pop_nm_ring :: "pop_nm_rxring \<Rightarrow> addr" where
  "pop_nm_ring prx = rx_ring prx"

section \<open>Transmit slots\<close>

definition pop_nm_set_buf :: "nmapi \<Rightarrow> netmap_slot \<Rightarrow> pop_buf \<Rightarrow> netmap_slot" where
  "pop_nm_set_buf A slot b = slot
     \<lparr>ns_flags := ns_flags slot OR NS_PHY_INDIRECT A,
      ns_ptr := pop_buf_paddr b,
      ns_len := ucast (pop_buf_len b)\<rparr>"

section \<open>The slot loops\<close>

lemma attach_slots_eq:
  assumes "length sl = idx + k"
  shows "attach_slots A pa bufsz idx k sl = Inr (take idx sl @
    map (\<lambda>i. (sl ! i)\<lparr>ns_flags := ns_flags (sl ! i) OR NS_PHY_INDIRECT A, ns_ptr := slot_paddr pa bufsz i\<rparr>)
      [idx..<idx + k])"
  using assms
proof (induction k arbitrary: idx sl)
  case (Suc k)
  let ?f = "\<lambda>i. (sl ! i)\<lparr>ns_flags := ns_flags (sl ! i) OR NS_PHY_INDIRECT A, ns_ptr := slot_paddr pa bufsz i\<rparr>"
  let ?sl = "sl[idx := ?f idx]"
  have "take (Suc idx) ?sl = take idx sl @ [?f idx]"
    using Suc.prems by (simp add: take_Suc_conv_app_nth)
  moreover have "map (\<lambda>i. (?sl ! i)\<lparr>ns_flags := ns_flags (?sl ! i) OR NS_PHY_INDIRECT A,
      ns_ptr := slot_paddr pa bufsz i\<rparr>) [Suc idx..<Suc idx + k] = map ?f [Suc idx..<Suc idx + k]"
    by (intro map_cong) auto
  moreover have "[idx..<idx + Suc k] = idx # [Suc idx..<Suc idx + k]"
    by (simp add: upt_rec)
  ultimately show ?case
    using Suc.IH [of ?sl "Suc idx"] Suc.prems by simp
qed simp

lemma detach_slots_eq:
  assumes "length sl = idx + k"
  shows "detach_slots A idx k sl = Inr (take idx sl @
    map (\<lambda>s. s\<lparr>ns_flags := ns_flags s AND NOT (NS_PHY_INDIRECT A), ns_ptr := 0\<rparr>) (drop idx sl))"
  using assms
proof (induction k arbitrary: idx sl)
  case (Suc k)
  let ?f = "\<lambda>s. s\<lparr>ns_flags := ns_flags s AND NOT (NS_PHY_INDIRECT A), ns_ptr := 0\<rparr>"
  let ?sl = "sl[idx := ?f (sl ! idx)]"
  have "take (Suc idx) ?sl = take idx sl @ [?f (sl ! idx)]"
    using Suc.prems by (simp add: take_Suc_conv_app_nth)
  moreover have "drop idx sl = sl ! idx # drop (Suc idx) sl"
    using Suc.prems by (simp add: Cons_nth_drop_Suc)
  ultimately show ?case
    using Suc.IH [of ?sl "Suc idx"] Suc.prems by simp
qed simp

section \<open>The flush loop\<close>

lemma flush_ring_documented:
  assumes "nm_documented A" "ring_ok r"
  shows "\<exists>c. flush_ring A r = Some (r\<lparr>nr_head := nr_tail r, nr_cur := c\<rparr>)"
  using assms(2)
proof (induction "ring_dist (unat (nr_num_slots r)) (unat (nr_head r)) (unat (nr_tail r))" arbitrary: r)
  case 0
  then have "nr_head r = nr_tail r" by (metis ring_dist_0_iff ring_ok_def word_unat_eq_iff)
  then have "flush_ring A r = Some (r\<lparr>nr_head := nr_tail r, nr_cur := nr_cur r\<rparr>)"
    using assms(1) by (subst flush_ring.simps) (simp add: nm_documented_def)
  then show ?case by blast
next
  case (Suc d)
  let ?h = "nm_ring_next A r (nr_head r)"
  let ?r = "r\<lparr>nr_head := ?h, nr_cur := ?h\<rparr>"
  have idx: "ring_index (unat (nr_num_slots r)) (nm_ring_next A r)"
    and bound: "unat (nr_head r) < unat (nr_num_slots r)" "unat (nr_tail r) < unat (nr_num_slots r)"
    using assms(1) Suc.prems by (auto simp: nm_documented_def ring_ok_def)
  have ne: "nr_head r \<noteq> nr_tail r" using Suc.hyps(2) bound by force
  then have "flush_ring A r = flush_ring A ?r"
    using assms(1) by (subst flush_ring.simps) (simp add: nm_documented_def)
  moreover have "d = ring_dist (unat (nr_num_slots ?r)) (unat (nr_head ?r)) (unat (nr_tail ?r))"
    using ring_index.dist_next [OF idx bound ne] Suc.hyps(2) by simp
  moreover have "ring_ok ?r"
    using Suc.prems ring_index.next_less [OF idx bound(1)] by (simp add: ring_ok_def)
  ultimately show ?case using Suc.hyps(1) [of ?r] by simp
qed

section \<open>Properties\<close>

text \<open>
  A ring of four slots of 2048 bytes, and an instance of the netmap functions with the documented
  behaviour. A receive synchronisation finds no new packet here.
\<close>

definition lab_nm :: nmapi where
  "lab_nm = \<lparr>NS_PHY_INDIRECT = 0x40,
     nm_ring_next = (\<lambda>r i. if i + 1 = nr_num_slots r then 0 else i + 1),
     nm_ring_empty = (\<lambda>r. nr_head r = nr_tail r),
     nm_ring_space = (\<lambda>r. of_nat (ring_dist (unat (nr_num_slots r)) (unat (nr_head r)) (unat (nr_tail r)))),
     nm_tx_pending = (\<lambda>r. False), nm_rxsync = (\<lambda>r. (0, r)), nm_txsync = (\<lambda>r. (0, r))\<rparr>"

definition lab_ring :: netmap_ring where
  "lab_ring = \<lparr>nr_num_slots = 4, nr_buf_size = 2048, nr_ringid = 0, nr_head = 0, nr_cur = 0, nr_tail = 0,
     nr_slot = replicate 4 \<lparr>ns_buf_idx = 0, ns_len = 0, ns_flags = 0, ns_ptr = 0\<rparr>\<rparr>"

lemma lab_nm_index:
  assumes "0 < unat (nr_num_slots r)"
  shows "ring_index (unat (nr_num_slots r)) (nm_ring_next lab_nm r)"
proof
  show "unat (nm_ring_next lab_nm r i) = Suc (unat i) mod unat (nr_num_slots r)"
    if "unat i < unat (nr_num_slots r)" for i
  proof -
    have "unat (i + 1) = Suc (unat i)"
      using that unat_u32_less [of "nr_num_slots r"] by (subst unat_add_nowrap) auto
    with that show ?thesis by (auto simp: lab_nm_def word_nat)
  qed
qed (rule assms)

lemma lab_nm_documented: "nm_documented lab_nm"
proof -
  have "unat (of_nat (ring_dist (unat n) i t) :: u32) = ring_dist (unat n) i t" if "0 < unat n" for n :: u32 and i t
    using ring_dist_less [OF that, of i t] unat_u32_less [of n] by (simp add: nowrap)
  then show ?thesis
    using lab_nm_index by (auto simp: nm_documented_def ring_ok_def) (simp_all add: lab_nm_def)
qed

lemma lab_ring_ok: "ring_ok lab_ring"
  by (simp add: ring_ok_def lab_ring_def)

text \<open>
  The documented part of \<^verbatim>\<open>NIOCRXSYNC\<close> that the set-up relies on: it keeps the geometry of the
  ring and the buffer pointers, and leaves the indices inside the ring.
\<close>

definition rxsync_documented :: "nmapi \<Rightarrow> bool" where
  "rxsync_documented A \<longleftrightarrow> (\<forall>r. ring_ok r \<longrightarrow> ring_ok (snd (nm_rxsync A r)) \<and>
     nr_num_slots (snd (nm_rxsync A r)) = nr_num_slots r \<and>
     nr_buf_size (snd (nm_rxsync A r)) = nr_buf_size r \<and>
     map ns_ptr (nr_slot (snd (nm_rxsync A r))) = map ns_ptr (nr_slot r))"

lemma unat_slot_offset:
  fixes n bufsz :: u32
  assumes "unat n * unat bufsz < 2 ^ 32" "i < unat n"
  shows "unat (ucast (bufsz * of_nat i :: u32) :: u64) = unat bufsz * i"
    and "unat bufsz * i + unat bufsz \<le> unat n * unat bufsz"
proof -
  have "(i + 1) * unat bufsz \<le> unat n * unat bufsz" using assms(2) by (intro mult_le_mono1) simp
  then show le: "unat bufsz * i + unat bufsz \<le> unat n * unat bufsz" by (simp add: algebra_simps)
  have "unat (of_nat i :: u32) = i" using assms(2) unat_u32_less [of n] by (simp add: nowrap)
  then have "unat (bufsz * of_nat i :: u32) = unat bufsz * i"
    using assms(1) le by (subst unat_mult_nowrap) simp_all
  then show "unat (ucast (bufsz * of_nat i :: u32) :: u64) = unat bufsz * i" by (simp add: unat_ucast_u32)
qed

lemma put_whole:
  assumes "mem_ok m" "unat k \<le> free_pages m" "unat sz \<le> unat k * 4096"
  shows "snd (pop_buf_put (fill_buf mp m k) sz) = (fill_buf mp m k)\<lparr>pb_length := sz\<rparr>"
  using assms unat_granted_size [OF assms(1,2)]
  by (simp add: pop_buf_put_def fill_buf_def Let_def word_nat)

lemma rxring_init_eval:
  fixes mp rp :: addr and m :: pop_mem and ring :: netmap_ring
  assumes "nm_documented A" "rxsync_documented A" "ring_ok ring" "mem_ok m" "\<not> pm_mutex m"
    and "unat (nr_num_slots ring) * unat (nr_buf_size ring) < 2 ^ 32"
    and "pages_needed (unat (nr_num_slots ring) * unat (nr_buf_size ring)) \<le> free_pages m"
  defines "k \<equiv> of_nat (pages_needed (unat (nr_num_slots ring) * unat (nr_buf_size ring))) :: u64"
  defines "b \<equiv> (fill_buf mp m k)\<lparr>pb_length := ucast (nr_num_slots ring * nr_buf_size ring)\<rparr>"
  shows "\<exists>ring' m'. pop_nm_rxring_init A True True mp rp ring m
      = Some (Inr (Some \<lparr>rx_pbuf = b, rx_ring = rp\<rparr>, ring', m')) \<and>
    nr_num_slots ring' = nr_num_slots ring \<and> nr_buf_size ring' = nr_buf_size ring \<and>
    (\<forall>i < unat (nr_num_slots ring).
       ns_ptr (nr_slot ring' ! i) = slot_paddr (pop_buf_paddr b) (nr_buf_size ring) i)"
proof -
  let ?n = "unat (nr_num_slots ring)" and ?sz = "nr_num_slots ring * nr_buf_size ring"
  have sz: "unat (ucast ?sz :: u64) = ?n * unat (nr_buf_size ring)"
    using assms(6) by (simp add: unat_ucast_u32 nowrap)
  then have "unat (ucast ?sz :: u64) \<le> 2 ^ 64 - 4096" using assms(6) by simp
  from pop_buf_alloc_cases [OF assms(4,5) this, of True mp] sz assms(7)
  have alloc: "pop_buf_alloc True mp m (ucast ?sz)
      = Some (Inr (fill_buf mp m k), m\<lparr>pm_alloced_pages := pm_alloced_pages m + k\<rparr>)"
    by (simp add: Let_def k_def)
  have "unat k = pages_needed (?n * unat (nr_buf_size ring))"
    unfolding k_def using assms(6) by (intro unat_of_nat_nowrap) (simp add: pages_needed_def)
  then have put: "snd (pop_buf_put (fill_buf mp m k) (ucast ?sz)) = b"
    unfolding b_def using put_whole [OF assms(4), of k "ucast ?sz" mp] sz assms(7)
      pages_needed_least(1) [of "?n * unat (nr_buf_size ring)"] by simp
  define sl where "sl = map (\<lambda>i. (nr_slot ring ! i)
      \<lparr>ns_flags := ns_flags (nr_slot ring ! i) OR NS_PHY_INDIRECT A,
       ns_ptr := slot_paddr (pop_buf_paddr b) (nr_buf_size ring) i\<rparr>) [0..<?n]"
  have attach: "attach_slots A (pop_buf_paddr b) (nr_buf_size ring) 0 ?n (nr_slot ring) = Inr sl"
    using attach_slots_eq [of "nr_slot ring" 0 ?n] assms(3) by (simp add: ring_ok_def sl_def)
  define ring1 where "ring1 = ring\<lparr>nr_slot := sl, nr_cur := nr_num_slots ring - 1, nr_head := nr_num_slots ring - 1\<rparr>"
  have "unat (nr_num_slots ring - 1) = ?n - 1" "length sl = ?n"
    using assms(3) by (simp_all add: ring_ok_def sl_def unat_sub word_nat)
  then have "ring_ok ring1" using assms(3) by (simp add: ring_ok_def ring1_def)
  define ring2 where "ring2 = snd (nm_rxsync A ring1)"
  have r2: "ring_ok ring2" "nr_num_slots ring2 = nr_num_slots ring" "nr_buf_size ring2 = nr_buf_size ring"
    "map ns_ptr (nr_slot ring2) = map ns_ptr sl"
    using assms(2) \<open>ring_ok ring1\<close> by (simp_all add: rxsync_documented_def ring2_def ring1_def)
  obtain c where flush: "flush_ring A ring2 = Some (ring2\<lparr>nr_head := nr_tail ring2, nr_cur := c\<rparr>)"
    using flush_ring_documented [OF assms(1) r2(1)] by blast
  define ring3 where "ring3 = ring2\<lparr>nr_head := nr_tail ring2, nr_cur := c\<rparr>"
  have "ring_ok ring3" using r2(1) by (simp add: ring_ok_def ring3_def)
  define ring4 where "ring4 = snd (nm_rxsync A ring3)"
  have r4: "ring_ok ring4" "nr_num_slots ring4 = nr_num_slots ring" "nr_buf_size ring4 = nr_buf_size ring"
    "map ns_ptr (nr_slot ring4) = map ns_ptr sl"
    using assms(2) \<open>ring_ok ring3\<close> r2 by (simp_all add: rxsync_documented_def ring4_def ring3_def)
  have "pop_nm_rxring_init A True True mp rp ring m
      = Some (Inr (Some \<lparr>rx_pbuf = b, rx_ring = rp\<rparr>, ring4, m\<lparr>pm_alloced_pages := pm_alloced_pages m + k\<rparr>))"
    unfolding pop_nm_rxring_init_def Let_def alloc
    by (simp add: put attach flush [folded ring3_def] ring4_def [symmetric]
        ring2_def [symmetric, unfolded ring1_def])
  moreover have "ns_ptr (nr_slot ring4 ! i) = slot_paddr (pop_buf_paddr b) (nr_buf_size ring) i" if "i < ?n" for i
  proof -
    have "length (nr_slot ring4) = ?n" using r4(1,2) by (simp add: ring_ok_def)
    with that have "ns_ptr (nr_slot ring4 ! i) = map ns_ptr (nr_slot ring4) ! i" by simp
    with r4(4) that show ?thesis by (simp add: sl_def)
  qed
  ultimately show ?thesis using r4 by blast
qed

lemma slot_in_buffer:
  fixes n bufsz :: u32 and b :: pop_buf
  assumes "mem_ok m" "buf_of_mem m b" "unat n * unat bufsz \<le> unat (pb_size b)" "unat n * unat bufsz < 2 ^ 32"
    and "unat (pm_num_pages m) * 4096 \<le> unat (pm_size m)" "unat (pm_mem m) + unat (pm_size m) < 2 ^ 64"
    and "i < unat n"
  defines "at \<equiv> \<lambda>i. pb_vaddr b + ucast (bufsz * of_nat i :: u32)"
  shows "pop_virt_to_phys m (at i) = pb_paddr b + ucast (bufsz * of_nat i :: u32) \<and>
    span (at i) (ucast bufsz) \<subseteq> buf_bytes b \<and>
    (\<forall>j < i. span (at j) (ucast bufsz) \<inter> span (at i) (ucast bufsz) = {})"
proof -
  have end_b: "unat (pb_vaddr b) + unat (pb_size b) < 2 ^ 64"
    using assms(2,5,6) by (auto simp: buf_of_mem_def nowrap)
  have at: "unat (at j) = unat (pb_vaddr b) + unat bufsz * j" if "j < unat n" for j
    using unat_slot_offset [OF assms(4) that] assms(3) end_b
    unfolding at_def by (subst unat_add_nowrap) auto
  have "unat (ucast (bufsz * of_nat i :: u32) :: u64) \<le> unat (pb_size b)"
    using unat_slot_offset [OF assms(4,7)] assms(3) by linarith
  then have "pop_virt_to_phys m (at i) = pb_paddr b + ucast (bufsz * of_nat i :: u32)"
    unfolding at_def by (rule pop_virt_to_phys_buf [OF assms(1,2) _ assms(5,6)])
  moreover have "span (at i) (ucast bufsz) \<subseteq> buf_bytes b"
    using at [OF assms(7)] unat_slot_offset(2) [OF assms(4,7)] assms(3)
    by (auto simp: span_def buf_bytes_def unat_ucast_u32)
  moreover have "span (at j) (ucast bufsz) \<inter> span (at i) (ucast bufsz) = {}" if "j < i" for j
  proof (rule span_disjoint)
    have "unat bufsz * j + unat bufsz \<le> unat bufsz * i"
      using that mult_le_mono2 [of "Suc j" i "unat bufsz"] by simp
    then show "unat (at j) + unat (ucast bufsz :: u64) \<le> unat (at i)"
      using at that assms(7) by (simp add: unat_ucast_u32)
  qed
  ultimately show ?thesis by blast
qed

text \<open>
  (C18) Setting up a receive ring on pop memory, when the region has room for the ring's buffers: the
  call returns, and every slot points to pop memory. The physical address that the network card is
  given for slot \<open>i\<close> is the address of the bytes that \<^verbatim>\<open>pop_nm_rxring_buf\<close> returns to the
  program for slot \<open>i\<close>, these bytes lie inside the ring's buffer, and the buffers of different slots
  do not overlap.
\<close>

theorem rxring_buffers_match:
  assumes "nm_documented A" "rxsync_documented A" "ring_ok ring" "mem_ok m" "\<not> pm_mutex m"
    and "unat (nr_num_slots ring) * unat (nr_buf_size ring) < 2 ^ 32"
    and "pages_needed (unat (nr_num_slots ring) * unat (nr_buf_size ring)) \<le> free_pages m"
    and "unat (pm_num_pages m) * 4096 \<le> unat (pm_size m)" "unat (pm_mem m) + unat (pm_size m) < 2 ^ 64"
  shows "\<exists>prx ring' m'. pop_nm_rxring_init A True True mp rp ring m = Some (Inr (Some prx, ring', m')) \<and>
    nr_num_slots ring' = nr_num_slots ring \<and>
    (\<forall>i < unat (nr_num_slots ring).
       ns_ptr (nr_slot ring' ! i) = pop_virt_to_phys m (pop_nm_rxring_buf prx ring' (of_nat i)) \<and>
       span (pop_nm_rxring_buf prx ring' (of_nat i)) (ucast (nr_buf_size ring)) \<subseteq> buf_bytes (rx_pbuf prx) \<and>
       (\<forall>j < i. span (pop_nm_rxring_buf prx ring' (of_nat j)) (ucast (nr_buf_size ring)) \<inter>
          span (pop_nm_rxring_buf prx ring' (of_nat i)) (ucast (nr_buf_size ring)) = {}))"
proof -
  let ?n = "unat (nr_num_slots ring)" and ?k = "of_nat (pages_needed (unat (nr_num_slots ring) * unat (nr_buf_size ring))) :: u64"
  let ?b = "(fill_buf mp m ?k)\<lparr>pb_length := ucast (nr_num_slots ring * nr_buf_size ring)\<rparr>"
  obtain ring' m' where run: "pop_nm_rxring_init A True True mp rp ring m
      = Some (Inr (Some \<lparr>rx_pbuf = ?b, rx_ring = rp\<rparr>, ring', m'))"
    and r: "nr_num_slots ring' = nr_num_slots ring" "nr_buf_size ring' = nr_buf_size ring"
      "\<And>i. i < ?n \<Longrightarrow> ns_ptr (nr_slot ring' ! i) = slot_paddr (pop_buf_paddr ?b) (nr_buf_size ring) i"
    using rxring_init_eval [OF assms(1-7)] by blast
  have k: "unat ?k = pages_needed (?n * unat (nr_buf_size ring))"
    using assms(6) by (intro unat_of_nat_nowrap) (simp add: pages_needed_def)
  have b: "buf_of_mem m ?b" "unat (pb_size ?b) = unat ?k * 4096"
    using buf_of_mem_fill [OF assms(4), of ?k mp] unat_granted_size [OF assms(4), of ?k] k assms(7)
    by (simp_all add: buf_of_mem_def fill_buf_def)
  have fit: "?n * unat (nr_buf_size ring) \<le> unat (pb_size ?b)"
    using pages_needed_least(1) [of "?n * unat (nr_buf_size ring)"] b(2) k by simp
  have "pop_nm_rxring_buf \<lparr>rx_pbuf = ?b, rx_ring = rp\<rparr> ring' (of_nat i)
      = pb_vaddr ?b + ucast (nr_buf_size ring * of_nat i)" for i
    by (simp add: pop_nm_rxring_buf_def pop_buf_data_def r(2) fill_buf_def)
  with run r slot_in_buffer [OF assms(4) b(1) fit assms(6,8,9)] show ?thesis
    by (intro exI [of _ "\<lparr>rx_pbuf = ?b, rx_ring = rp\<rparr>"] exI [of _ ring'] exI [of _ m'])
      (simp add: slot_paddr_def pop_buf_paddr_def fill_buf_def)
qed

theorem rxring_buffers_match_witness:
  "\<exists>prx ring' m'. pop_nm_rxring_init lab_nm True True 0x1000 0x9000 lab_ring lab_mem
      = Some (Inr (Some prx, ring', m')) \<and>
    ns_ptr (nr_slot ring' ! 3) = pop_virt_to_phys lab_mem (pop_nm_rxring_buf prx ring' 3)"
proof -
  have "rxsync_documented lab_nm" by (simp add: rxsync_documented_def lab_nm_def)
  from rxring_buffers_match [OF lab_nm_documented this lab_ring_ok lab_mem_ok(1,2), of "0x1000" "0x9000"]
  show ?thesis by (force simp: lab_ring_def pages_needed_def)
qed

text \<open>
  Without room for the buffers the call does not report an error: it passes the \<^verbatim>\<open>NULL\<close> of
  \<^verbatim>\<open>pop_buf_alloc\<close> to \<^verbatim>\<open>pop_buf_put\<close> before it looks at it.
\<close>

lemma rxring_init_no_room:
  assumes "mem_ok m" "\<not> pm_mutex m"
    and "free_pages m < pages_needed (unat (nr_num_slots ring * nr_buf_size ring))"
  shows "pop_nm_rxring_init A mo mo' mp rp ring m = Some (Inl NullDeref)"
proof -
  let ?sz = "ucast (nr_num_slots ring * nr_buf_size ring) :: u64"
  have "unat ?sz \<le> 2 ^ 64 - 4096"
    using unat_u32_less [of "nr_num_slots ring * nr_buf_size ring"] by (simp add: unat_ucast_u32)
  with assms show ?thesis
    by (simp add: pop_nm_rxring_init_def pop_buf_alloc_cases unat_ucast_u32 Let_def)
qed

text \<open>
  (C19) Taking a receive ring down undoes the set-up of its slots: slots that had no pointer and not
  the flag get exactly their old content back.
\<close>

theorem detach_undoes_attach:
  assumes "length sl = n" "\<forall>s \<in> set sl. ns_flags s AND NS_PHY_INDIRECT A = 0 \<and> ns_ptr s = 0"
  shows "\<exists>sl'. attach_slots A pa bufsz 0 n sl = Inr sl' \<and> detach_slots A 0 n sl' = Inr sl"
proof -
  let ?f = "\<lambda>i. (sl ! i)\<lparr>ns_flags := ns_flags (sl ! i) OR NS_PHY_INDIRECT A, ns_ptr := slot_paddr pa bufsz i\<rparr>"
  let ?g = "\<lambda>s. s\<lparr>ns_flags := ns_flags s AND NOT (NS_PHY_INDIRECT A), ns_ptr := 0\<rparr>"
  have flag: "(x OR f) AND NOT f = x" if "x AND f = 0" for x f :: u16
    using that by (auto simp: bit_eq_iff bit_simps)
  have "?g (?f i) = sl ! i" if "i < n" for i
  proof -
    have "sl ! i \<in> set sl" using that assms(1) by simp
    with assms(2) flag show ?thesis by simp
  qed
  then have "map ?g (map ?f [0..<n]) = map ((!) sl) [0..<n]" by simp
  also have "\<dots> = sl" using assms(1) by (metis map_nth)
  finally show ?thesis
    using assms(1) attach_slots_eq [of sl 0 n A pa bufsz] detach_slots_eq [of "map ?f [0..<n]" 0 n A] by simp
qed

theorem detach_undoes_attach_witness:
  "\<exists>sl'. attach_slots lab_nm 0x100000000 2048 0 4 (nr_slot lab_ring) = Inr sl' \<and>
     detach_slots lab_nm 0 4 sl' = Inr (nr_slot lab_ring)"
  by (rule detach_undoes_attach) (simp_all add: lab_ring_def)

text \<open>
  \<^verbatim>\<open>pop_nm_set_buf\<close> gives the network card the right address but takes the length from
  \<^verbatim>\<open>pop_buf_len\<close>, which subtracts the offset a second time: for a window of less than 64 KB the
  slot gets the length of the window exactly when the offset is a multiple of 64 KB, so after a
  \<^verbatim>\<open>pop_buf_pull\<close> the packet is cut or its length wraps around.
\<close>

lemma set_buf_length_iff:
  assumes "unat (pb_length b) < 2 ^ 16"
  shows "ns_ptr (pop_nm_set_buf A slot b) = pop_buf_paddr b \<and>
    (unat (ns_len (pop_nm_set_buf A slot b)) = unat (pb_length b) \<longleftrightarrow> unat (pb_offset b) mod 2 ^ 16 = 0)"
proof -
  have len: "unat (ns_len (pop_nm_set_buf A slot b)) = unat (pb_length b - pb_offset b) mod 2 ^ 16"
    by (simp add: pop_nm_set_buf_def pop_buf_len_def unsigned_ucast_eq unsigned_take_bit_eq take_bit_eq_mod)
  have "unat (pb_length b - pb_offset b) mod 2 ^ 16 = unat (pb_length b) \<longleftrightarrow>
      int (unat (pb_length b - pb_offset b) mod 2 ^ 16) = int (unat (pb_length b) mod 2 ^ 16)"
    unfolding of_nat_eq_iff using assms by simp
  also have "\<dots> \<longleftrightarrow> uint (pb_length b - pb_offset b) mod 2 ^ 16 = uint (pb_length b) mod 2 ^ 16"
    by (simp add: zmod_int)
  also have "uint (pb_length b - pb_offset b) mod 2 ^ 16 = (uint (pb_length b) - uint (pb_offset b)) mod 2 ^ 16"
    by (simp add: uint_word_ariths mod_mod_cancel)
  also have "(uint (pb_length b) - uint (pb_offset b)) mod 2 ^ 16 = uint (pb_length b) mod 2 ^ 16
      \<longleftrightarrow> int (unat (pb_offset b)) mod 2 ^ 16 = 0"
    by (simp add: mod_eq_dvd_iff dvd_eq_mod_eq_0 [symmetric])
  also have "int (unat (pb_offset b)) mod 2 ^ 16 = int (unat (pb_offset b) mod 2 ^ 16)"
    by (simp only: zmod_int of_nat_power of_nat_numeral)
  also have "\<dots> = 0 \<longleftrightarrow> unat (pb_offset b) mod 2 ^ 16 = 0" by (rule of_nat_eq_0_iff)
  finally show ?thesis
    unfolding len by (simp add: pop_nm_set_buf_def)
qed

end
