(* ===== verification/Netmap_Io.thy ===== *)
theory Netmap_Io
  imports Pop_Netmap
begin

text \<open>
  The loops over netmap rings that the programs share: filling transmit slots from \<^verbatim>\<open>head\<close> on,
  waiting until the transmit ring is drained, and consuming a receive ring. The transmit loops of
  the programs differ in what they put in a slot; they are related to \<open>put_slots\<close> here.
\<close>

section \<open>Transmit slots\<close>

text \<open>Update \<open>k\<close> slots from \<open>head\<close> on, the \<open>j\<close>-th by \<open>f (i + j)\<close>.\<close>

fun put_slots :: "(u32 \<Rightarrow> u32) \<Rightarrow> (nat \<Rightarrow> netmap_slot \<Rightarrow> netmap_slot) \<Rightarrow> nat \<Rightarrow> nat \<Rightarrow> u32 \<Rightarrow> netmap_slot list
    \<Rightarrow> (netmap_slot list \<times> u32) outcome" where
  "put_slots nx f i 0 head sl = Inr (sl, head)"
| "put_slots nx f i (Suc k) head sl =
     (if unat head < length sl
      then put_slots nx f (Suc i) k (nx head) (sl[unat head := f i (sl ! unat head)])
      else Inl OutOfBounds)"

lemma put_slots_eq:
  assumes "ring_index n nx" "length sl = n" "unat head < n" "k \<le> n"
  shows "\<exists>sl'. put_slots nx f i k head sl = Inr (sl', (nx ^^ k) head) \<and> length sl' = n \<and>
    (\<forall>p < n. sl' ! p = (if ring_dist n (unat head) p < k
       then f (i + ring_dist n (unat head) p) (sl ! p) else sl ! p))"
  using assms(2-4)
proof (induction k arbitrary: i head sl)
  case (Suc k)
  let ?sl = "sl[unat head := f i (sl ! unat head)]"
  note h = \<open>unat head < n\<close>
  have nx: "unat (nx head) = Suc (unat head) mod n" "unat (nx head) < n"
    using ring_index.next_mod [OF assms(1) h] ring_index.next_less [OF assms(1) h] by simp_all
  have "length ?sl = n" "k \<le> n" using Suc.prems by simp_all
  from Suc.IH [OF this(1) nx(2) this(2), of "Suc i"] obtain sl' where
    sl': "put_slots nx f (Suc i) k (nx head) ?sl = Inr (sl', (nx ^^ k) (nx head))" "length sl' = n"
    and at: "\<forall>p < n. sl' ! p = (if ring_dist n (unat (nx head)) p < k
       then f (Suc i + ring_dist n (unat (nx head)) p) (?sl ! p) else ?sl ! p)" by blast
  have "sl' ! p = (if ring_dist n (unat head) p < Suc k
      then f (i + ring_dist n (unat head) p) (sl ! p) else sl ! p)" if "p < n" for p
  proof (cases "p = unat head")
    case True
    with at that Suc.prems h show ?thesis by (simp add: nx(1) ring_dist_back)
  next
    case False
    then have "ring_dist n (unat head) p = Suc (ring_dist n (unat (nx head)) p)"
      unfolding nx(1) using h that by (simp add: ring_dist_next)
    with at that False show ?thesis by simp
  qed
  with sl' Suc.prems show ?case by (simp add: funpow_swap1)
qed simp

lemma put_slots_append:
  "put_slots nx f i (k + l) head sl = obind (put_slots nx f i k head sl) (\<lambda>(sl', h). put_slots nx f (i + k) l h sl')"
  by (induction nx f i k head sl rule: put_slots.induct) simp_all

lemma put_slots_returns:
  assumes "ring_index n nx" "length sl = n" "unat head < n"
  shows "\<exists>sl'. put_slots nx f i k head sl = Inr (sl', (nx ^^ k) head) \<and> length sl' = n"
  using assms(2,3)
proof (induction k arbitrary: i head sl)
  case (Suc k)
  have "unat (nx head) < n" by (rule ring_index.next_less [OF assms(1) Suc.prems(2)])
  with Suc.IH [of "sl[unat head := f i (sl ! unat head)]" "nx head" "Suc i"] Suc.prems
  show ?case by (simp add: funpow_swap1)
qed simp

text \<open>The documented part of \<^verbatim>\<open>NIOCTXSYNC\<close>: the ring stays well formed and keeps its size.\<close>

definition txsync_documented :: "nmapi \<Rightarrow> bool" where
  "txsync_documented A \<longleftrightarrow> (\<forall>r. ring_ok r \<longrightarrow> ring_ok (snd (nm_txsync A r)) \<and>
     nr_num_slots (snd (nm_txsync A r)) = nr_num_slots r)"

text \<open>
  At the end of a transmit thread: synchronise until nothing is pending. \<^const>\<open>None\<close> means that the
  card never takes the packets.
\<close>

partial_function (option) drain_tx :: "nmapi \<Rightarrow> netmap_ring \<Rightarrow> netmap_ring option" where
  "drain_tx A r = (if nm_tx_pending A r then drain_tx A (snd (nm_txsync A r)) else Some r)"

lemma drain_tx_returns:
  assumes "\<not> nm_tx_pending A (((\<lambda>r. snd (nm_txsync A r)) ^^ k) r)"
  shows "\<exists>r'. drain_tx A r = Some r' \<and> \<not> nm_tx_pending A r'"
  using assms
proof (induction k arbitrary: r)
  case 0
  then show ?case by (simp add: drain_tx.simps)
next
  case (Suc k)
  show ?case
  proof (cases "nm_tx_pending A r")
    case True
    with Suc.IH [of "snd (nm_txsync A r)"] Suc.prems show ?thesis
      unfolding funpow_Suc_right o_def by (simp add: drain_tx.simps [of A r])
  qed (simp add: drain_tx.simps)
qed

section \<open>Receive rings\<close>

text \<open>
  The inner loop of the receivers: count the packets between \<^verbatim>\<open>head\<close> and \<^verbatim>\<open>tail\<close> and their
  bits, moving \<^verbatim>\<open>head\<close> and \<^verbatim>\<open>cur\<close>.
\<close>

partial_function (option) recv_drain ::
    "nmapi \<Rightarrow> netmap_ring \<Rightarrow> u64 \<Rightarrow> u64 \<Rightarrow> (u64 \<times> u64 \<times> netmap_ring) outcome option" where
  "recv_drain A r npkts nbits =
     (if nm_ring_empty A r then Some (Inr (npkts, nbits, r))
      else if unat (nr_head r) < length (nr_slot r)
      then recv_drain A
             (r\<lparr>nr_head := nm_ring_next A r (nr_head r), nr_cur := nm_ring_next A r (nr_head r)\<rparr>)
             (npkts + 1) (nbits + push_bit 3 (ucast (ns_len (nr_slot r ! unat (nr_head r)))))
      else Some (Inl OutOfBounds))"

text \<open>One round of a receiver. The first result is true when the thread leaves its loop.\<close>

definition recv_round ::
    "nmapi \<Rightarrow> netmap_ring \<Rightarrow> u64 \<times> u64 \<Rightarrow> (bool \<times> (u64 \<times> u64) \<times> netmap_ring) outcome option" where
  "recv_round A r cnt =
     (let (ret, r1) = nm_rxsync A r in
      if ret < 0 then Some (Inr (True, cnt, r1))
      else (case recv_drain A r1 0 0 of
          None \<Rightarrow> None
        | Some (Inl f) \<Rightarrow> Some (Inl f)
        | Some (Inr (npkts, nbits, r2)) \<Rightarrow> Some (Inr (False, (fst cnt + npkts, snd cnt + nbits), r2))))"

text \<open>
  A receive thread: the ring is moved to pop memory, whose descriptor is not looked at again, and
  \<open>rounds\<close> rounds follow until the thread is cancelled or a synchronisation fails.
\<close>

fun recv_loop ::
    "nmapi \<Rightarrow> nat \<Rightarrow> u64 \<times> u64 \<Rightarrow> netmap_ring \<Rightarrow> ((u64 \<times> u64) \<times> netmap_ring) outcome option" where
  "recv_loop A 0 cnt r = Some (Inr (cnt, r))"
| "recv_loop A (Suc k) cnt r =
     (case recv_round A r cnt of
        None \<Rightarrow> None
      | Some (Inl f) \<Rightarrow> Some (Inl f)
      | Some (Inr (out, cnt1, r1)) \<Rightarrow> if out then Some (Inr (cnt1, r1)) else recv_loop A k cnt1 r1)"

definition recv_body :: "nmapi \<Rightarrow> bool \<Rightarrow> bool \<Rightarrow> addr \<Rightarrow> addr \<Rightarrow> nat \<Rightarrow> u64 \<times> u64 \<Rightarrow> netmap_ring \<Rightarrow> pop_mem
    \<Rightarrow> ((u64 \<times> u64) \<times> netmap_ring \<times> pop_mem) outcome option" where
  "recv_body A mo mo' mp rp rounds cnt ring m =
     (case pop_nm_rxring_init A mo mo' mp rp ring m of
        None \<Rightarrow> None
      | Some (Inl f) \<Rightarrow> Some (Inl f)
      | Some (Inr (prxring, ring1, m1)) \<Rightarrow>
          map_option (\<lambda>x. obind x (\<lambda>(cnt1, ring2). Inr (cnt1, ring2, m1))) (recv_loop A rounds cnt ring1))"

text \<open>The packets that wait in a receive ring, in order.\<close>

definition waiting :: "netmap_ring \<Rightarrow> netmap_slot list" where
  "waiting r = (let n = unat (nr_num_slots r); h = unat (nr_head r) in
     map (\<lambda>i. nr_slot r ! ((h + i) mod n)) [0..<ring_dist n h (unat (nr_tail r))])"

definition slot_bits :: "netmap_slot \<Rightarrow> u64" where
  "slot_bits s = push_bit 3 (ucast (ns_len s))"

lemma waiting_next:
  assumes "ring_index (unat (nr_num_slots r)) (nm_ring_next A r)" "ring_ok r" "nr_head r \<noteq> nr_tail r"
  shows "waiting r = (nr_slot r ! unat (nr_head r))
    # waiting (r\<lparr>nr_head := nm_ring_next A r (nr_head r), nr_cur := c\<rparr>)"
proof -
  let ?n = "unat (nr_num_slots r)" and ?h = "unat (nr_head r)" and ?t = "unat (nr_tail r)"
  have b: "?h < ?n" "?t < ?n" using assms(2) by (simp_all add: ring_ok_def)
  have d: "ring_dist ?n ?h ?t = Suc (ring_dist ?n (Suc ?h mod ?n) ?t)"
    using b assms(3) by (simp add: ring_dist_next word_nat)
  have "map (\<lambda>i. nr_slot r ! ((?h + i) mod ?n)) [0..<Suc k]
      = nr_slot r ! ?h # map (\<lambda>i. nr_slot r ! ((Suc ?h mod ?n + i) mod ?n)) [0..<k]" for k
    using b(1) unfolding upt_conv_Cons [OF zero_less_Suc] map_Suc_upt [symmetric]
    by (simp add: mod_simps o_def)
  then show ?thesis
    using ring_index.next_mod [OF assms(1) b(1)] by (simp add: waiting_def Let_def d del: upt_Suc)
qed

lemma recv_drain_counts:
  assumes "nm_documented A" "ring_ok r"
  shows "\<exists>c. recv_drain A r npkts nbits = Some (Inr (npkts + of_nat (length (waiting r)),
      nbits + sum_list (map slot_bits (waiting r)), r\<lparr>nr_head := nr_tail r, nr_cur := c\<rparr>))"
  using assms(2)
proof (induction "waiting r" arbitrary: r npkts nbits)
  case Nil
  then have "ring_dist (unat (nr_num_slots r)) (unat (nr_head r)) (unat (nr_tail r)) = 0"
    by (simp add: waiting_def Let_def)
  then have "nr_head r = nr_tail r"
    using Nil.prems by (metis ring_dist_0_iff ring_ok_def word_unat_eq_iff)
  moreover have "waiting r = []" using Nil.hyps by simp
  ultimately have "recv_drain A r npkts nbits
      = Some (Inr (npkts + of_nat (length (waiting r)), nbits + sum_list (map slot_bits (waiting r)),
          r\<lparr>nr_head := nr_tail r, nr_cur := nr_cur r\<rparr>))"
    using assms(1) by (subst recv_drain.simps) (simp add: nm_documented_def)
  then show ?case by blast
next
  case (Cons x xs)
  let ?h = "nm_ring_next A r (nr_head r)"
  let ?r = "r\<lparr>nr_head := ?h, nr_cur := ?h\<rparr>"
  have idx: "ring_index (unat (nr_num_slots r)) (nm_ring_next A r)"
    and b: "unat (nr_head r) < unat (nr_num_slots r)" "unat (nr_head r) < length (nr_slot r)"
    using assms(1) Cons.prems by (auto simp: nm_documented_def ring_ok_def)
  have ne: "nr_head r \<noteq> nr_tail r" using Cons.hyps(2) b by (auto simp: waiting_def Let_def)
  note w = waiting_next [OF idx Cons.prems ne, of ?h]
  have "xs = waiting ?r" "ring_ok ?r"
    using w Cons.hyps(2) Cons.prems ring_index.next_less [OF idx b(1)] by (simp_all add: ring_ok_def)
  from Cons.hyps(1) [OF this, of "npkts + 1" "nbits + slot_bits (nr_slot r ! unat (nr_head r))"]
  show ?case
    using ne b(2) assms(1) by (subst recv_drain.simps)
      (simp add: nm_documented_def w slot_bits_def add.assoc)
qed

text \<open>A card that sends everything at once.\<close>

definition lab_tx :: nmapi where
  "lab_tx = lab_nm\<lparr>nm_txsync := (\<lambda>r. (0, r\<lparr>nr_tail := (if nr_head r = 0 then nr_num_slots r else nr_head r) - 1\<rparr>))\<rparr>"

lemma lab_tx_documented: "nm_documented lab_tx" "txsync_documented lab_tx"
proof -
  show "nm_documented lab_tx" using lab_nm_documented by (simp add: nm_documented_def lab_tx_def)
  have "unat ((if x = 0 then n else x) - 1) < unat n" if "0 < unat n" "unat x < unat n" for x n :: u32
  proof -
    let ?y = "if x = 0 then n else x"
    have "0 < unat ?y" "unat ?y \<le> unat n" using that by (auto simp: unat_gt_0)
    then show ?thesis using unat_sub_nowrap [of 1 ?y] by simp
  qed
  then show "txsync_documented lab_tx" by (simp add: txsync_documented_def ring_ok_def lab_tx_def)
qed

end
