(* ===== verification/Packets.thy ===== *)
theory Packets
  imports Bytes
begin

unbundle bit_operations_syntax

text \<open>
  Packets in memory: the packet descriptor of \<^verbatim>\<open>apps/pkt_desc.h\<close>, byte order and checksums, and
  the functions that build UDP packets in \<^verbatim>\<open>apps/nmgen.c\<close>, \<^verbatim>\<open>apps/generator.c\<close>,
  \<^verbatim>\<open>apps/store.c\<close> and \<^verbatim>\<open>apps/put_packet.c\<close>, as sequences of stores. The host is
  little-endian; \<^verbatim>\<open>struct ether_header\<close>, \<^verbatim>\<open>struct ip\<close> and \<^verbatim>\<open>struct udphdr\<close> have 14, 20
  and 8 bytes.
\<close>

section \<open>Stores\<close>

fun writes :: "(addr \<times> u8 list) list \<Rightarrow> memory \<Rightarrow> memory" where
  "writes [] m = m"
| "writes ((a, bs) # ws) m = writes ws (store m a bs)"

text \<open>A 16-bit value as the host stores it, and the change of byte order.\<close>

definition w16 :: "u16 \<Rightarrow> u8 list" where
  "w16 w = le_bytes 2 (unat w)"

definition htons :: "u16 \<Rightarrow> u16" where
  "htons w = push_bit 8 w OR drop_bit 8 w"

section \<open>The packet descriptor\<close>

text \<open>The last four bytes of a packet buffer hold the length of the packet.\<close>

definition get_pkt_desc :: "addr \<Rightarrow> u64 \<Rightarrow> addr" where
  "get_pkt_desc buf len = buf + (len - 4)"

definition get_pktlen_from_desc :: "memory \<Rightarrow> addr \<Rightarrow> u64 \<Rightarrow> u32" where
  "get_pktlen_from_desc m buf len = of_nat (le_nat (load m (get_pkt_desc buf len) 4))"

definition set_pktlen_in_desc :: "addr \<Rightarrow> u64 \<Rightarrow> u32 \<Rightarrow> memory \<Rightarrow> memory" where
  "set_pktlen_in_desc buf len v m = store m (get_pkt_desc buf len) (le_bytes 4 (unat v))"

section \<open>Checksums\<close>

text \<open>
  \<^verbatim>\<open>checksum(data, len, sum)\<close> on the bytes it reads: pairs in network order, and a last single
  byte as the high half.
\<close>

definition fold_sum :: "u32 \<Rightarrow> u32" where
  "fold_sum s = (if s > 0xFFFF then s - 0xFFFF else s)"

fun checksum_loop :: "u8 list \<Rightarrow> u32 \<Rightarrow> u32" where
  "checksum_loop (a # b # r) s = checksum_loop r (fold_sum (s + ucast (htons (of_nat (le_nat [a, b])))))"
| "checksum_loop [a] s = fold_sum (s + push_bit 8 (ucast a))"
| "checksum_loop [] s = s"

definition checksum :: "u8 list \<Rightarrow> u32 \<Rightarrow> u16" where
  "checksum data s = ucast (checksum_loop data s)"

definition wrapsum :: "u32 \<Rightarrow> u16" where
  "wrapsum s = htons (ucast (NOT s AND 0xFFFF))"

section \<open>Building packets\<close>

text \<open>
  The two bit fields \<^verbatim>\<open>ip_v\<close> and \<^verbatim>\<open>ip_hl\<close> fill one byte together. The lengths are computed
  in \<^verbatim>\<open>unsigned long\<close> and cut to 16 bits by \<^verbatim>\<open>htons\<close>.
\<close>

definition eth_type_bytes :: "u8 list" where "eth_type_bytes = w16 (htons 0x0800)"

definition ip_len_bytes :: "int \<Rightarrow> u8 list" where
  "ip_len_bytes len = w16 (htons (word_of_int (len - 14)))"

definition udp_len_bytes :: "int \<Rightarrow> u8 list" where
  "udp_len_bytes len = w16 (htons (word_of_int (len - 14 - 20)))"

text \<open>\<^verbatim>\<open>build_packet\<close> of \<^verbatim>\<open>nmgen\<close>; a negative length makes \<^verbatim>\<open>memset\<close> run off the memory.\<close>

record nmgen_addrs =
  na_srcip :: "u8 list"
  na_dstip :: "u8 list"
  na_srcmac :: "u8 list"
  na_dstmac :: "u8 list"

definition build_packet :: "nmgen_addrs \<Rightarrow> int \<Rightarrow> int \<Rightarrow> u16 \<Rightarrow> addr \<Rightarrow> memory \<Rightarrow> memory outcome" where
  "build_packet na pktlen cpu rnd pkt m =
     (if pktlen < 0 then Inl OutOfBounds
      else let eth = pkt; ip = eth + 14; udp = ip + 20;
        m1 = writes [(pkt, replicate (nat pktlen) 0),
               (eth, na_dstmac na), (eth + 6, na_srcmac na), (eth + 12, eth_type_bytes),
               (ip, [0x45]), (ip + 4, w16 0), (ip + 1, [0x10]), (ip + 2, ip_len_bytes pktlen),
               (ip + 6, w16 0), (ip + 8, [16]), (ip + 9, [17]), (ip + 10, w16 0),
               (ip + 12, na_srcip na), (ip + 16, na_dstip na)] m;
        m2 = writes [(ip + 10, w16 (wrapsum (ucast (checksum (load m1 ip 20) 0))))] m1
      in Inr (writes [(udp + 4, udp_len_bytes pktlen), (udp + 2, w16 (htons (word_of_int (60000 + cpu)))),
               (udp, w16 rnd), (udp + 6, w16 0)] m2))"

text \<open>
  \<^verbatim>\<open>build_pkt\<close> of the other programs: without a header checksum, from 10.0.0.2 to 10.0.0.1,
  with the source port as an argument.
\<close>

definition pkt_headers :: "u8 list \<Rightarrow> u8 \<Rightarrow> int \<Rightarrow> u16 \<Rightarrow> addr \<Rightarrow> memory \<Rightarrow> memory" where
  "pkt_headers shost tos len sport buf m =
     (let eth = buf; ip = eth + 14; udp = ip + 20 in
      writes [(eth + 6, shost), (eth, replicate 6 0xff), (eth + 12, eth_type_bytes),
        (ip, [0x45]), (ip + 4, w16 0), (ip + 1, [tos]), (ip + 2, ip_len_bytes len),
        (ip + 6, w16 0), (ip + 8, [16]), (ip + 9, [17]), (ip + 10, w16 0),
        (ip + 12, [10, 0, 0, 2]), (ip + 16, [10, 0, 0, 1]),
        (udp + 4, udp_len_bytes len), (udp + 2, w16 (htons 60000)), (udp, w16 (htons sport)),
        (udp + 6, w16 0)] m)"

definition memset_0 :: "addr \<Rightarrow> int \<Rightarrow> memory \<Rightarrow> memory outcome" where
  "memset_0 buf len m = (if len < 0 then Inl OutOfBounds else Inr (store m buf (replicate (nat len) 0)))"

definition gen_build_pkt :: "addr \<Rightarrow> int \<Rightarrow> int \<Rightarrow> memory \<Rightarrow> memory outcome" where
  "gen_build_pkt buf len ident m =
     obind (memset_0 buf len m) (\<lambda>m1.
     Inr (pkt_headers [1, 2, 3, 4, 5, 6] 0x10 len (word_of_int (ident + 60000)) buf m1))"

definition store_build_pkt :: "addr \<Rightarrow> int \<Rightarrow> u32 \<Rightarrow> memory \<Rightarrow> memory outcome" where
  "store_build_pkt buf len ident m =
     obind (memset_0 buf len m) (\<lambda>m1.
     Inr (set_pktlen_in_desc buf 2048 (word_of_int len)
       (pkt_headers (replicate 6 0) 0 len (ucast ident) buf m1)))"

definition put_build_pkt :: "addr \<Rightarrow> int \<Rightarrow> u32 \<Rightarrow> memory \<Rightarrow> memory" where
  "put_build_pkt buf len ident m = pkt_headers [1, 2, 3, 4, 5, 6] 0 len (ucast ident) buf m"


section \<open>Byte order and checksum\<close>

lemma unat_htons: "unat (htons w) = 256 * (unat w mod 256) + unat w div 256"
proof -
  have w: "unat w < 65536" using unsigned_less [of w, where ?'a = nat] by simp
  have "push_bit 8 w OR drop_bit 8 w = push_bit 8 w + drop_bit 8 w"
    by (rule disjunctive_add [symmetric]) (simp add: bit_push_bit_iff bit_drop_bit_eq, use bit_imp_le_length in fastforce)
  moreover have "unat (push_bit 8 w) = 256 * (unat w mod 256)"
    using w by (simp add: push_bit_eq_mult unat_word_ariths mult_mod_right mult.commute)
  moreover have "unat (drop_bit 8 w) = unat w div 256"
    by (simp add: drop_bit_eq_div unat_div)
  ultimately show ?thesis
    using w by (simp add: htons_def unat_word_ariths)
qed

lemma htons_htons [simp]: "htons (htons w) = w"
proof -
  have "unat w < 65536" using unsigned_less [of w, where ?'a = nat] by simp
  then show ?thesis by (simp add: word_nat unat_htons)
qed

lemma le_bytes_2: "le_bytes 2 n = [of_nat n, of_nat (n div 256)]"
  by (simp add: numeral_2_eq_2)

lemma of_nat_u8_eq: "(of_nat a :: u8) = of_nat b \<longleftrightarrow> a mod 256 = b mod 256"
  by (simp add: word_of_nat_eq_iff take_bit_eq_mod)

lemma w16_htons: "w16 (htons w) = be_bytes 2 (unat w)"
proof -
  have "unat w < 65536" using unsigned_less [of w, where ?'a = nat] by simp
  then show ?thesis
    unfolding w16_def be_bytes_def unat_htons le_bytes_2 rev.simps append.simps list.inject of_nat_u8_eq
    by simp
qed

lemma be_word: "unat (htons (of_nat (le_nat [a, b]))) = be_nat [a, b]"
proof -
  have "unat a < 256" "unat b < 256"
    using unsigned_less [of a, where ?'a = nat] unsigned_less [of b, where ?'a = nat] by simp_all
  moreover have "unat (of_nat (le_nat [a, b]) :: u16) = le_nat [a, b]"
    using le_nat_less [of "[a, b]"] by (intro unat_of_nat_nowrap) simp
  ultimately show ?thesis unfolding unat_htons by (simp add: be_nat_def)
qed

text \<open>
  The checksum in closed form: the sum of the 16-bit words, reduced modulo 65535 to a number between
  1 and 65535 unless everything is zero.
\<close>

fun words_sum :: "u8 list \<Rightarrow> nat" where
  "words_sum (a # b # r) = be_nat [a, b] + words_sum r"
| "words_sum [a] = 256 * unat a"
| "words_sum [] = 0"

definition ones_sum :: "nat \<Rightarrow> nat" where
  "ones_sum n = (if n = 0 then 0 else Suc ((n - 1) mod 65535))"

lemma ones_sum_le: "ones_sum n \<le> 65535"
  by (simp add: ones_sum_def Suc_le_eq)

lemma ones_sum_small: "n \<le> 65535 \<Longrightarrow> ones_sum n = n"
  by (auto simp: ones_sum_def)

lemma ones_sum_mod: "ones_sum n mod 65535 = n mod 65535"
proof (cases n)
  case (Suc k)
  then show ?thesis by (simp add: ones_sum_def mod_Suc_eq)
qed (simp add: ones_sum_def)

lemma ones_sum_unique: "m mod 65535 = n mod 65535 \<Longrightarrow> m = 0 \<longleftrightarrow> n = 0 \<Longrightarrow> ones_sum m = ones_sum n"
  by (cases m; cases n) (auto simp: ones_sum_def mod_Suc split: if_splits)

lemma ones_sum_add: "ones_sum (ones_sum m + n) = ones_sum (m + n)"
proof (rule ones_sum_unique)
  show "(ones_sum m + n) mod 65535 = (m + n) mod 65535" by (metis mod_add_left_eq ones_sum_mod)
qed (simp add: ones_sum_def)

lemma unat_fold_sum:
  assumes "unat s \<le> 65535" "unat t \<le> 65535"
  shows "unat (fold_sum (s + t)) = ones_sum (unat s + unat t)"
proof -
  have n: "unat (s + t) = unat s + unat t" using assms by (simp add: nowrap)
  have "ones_sum (unat s + unat t) = unat s + unat t - 65535" if "65535 < unat s + unat t"
  proof -
    have "ones_sum (unat s + unat t) = ones_sum (unat s + unat t - 65535)"
      using that by (intro ones_sum_unique) (simp_all add: le_mod_geq, linarith)
    then show ?thesis using assms by (simp add: ones_sum_small)
  qed
  then show ?thesis
    using n by (auto simp: fold_sum_def word_nat unat_sub ones_sum_small)
qed

lemma checksum_loop_sum:
  "unat s \<le> 65535 \<Longrightarrow> unat (checksum_loop bs s) = ones_sum (unat s + words_sum bs)"
proof (induction bs s rule: checksum_loop.induct)
  case (1 a b r s)
  let ?w = "ucast (htons (of_nat (le_nat [a, b]))) :: u32"
  have "be_nat [a, b] < 65536" using le_nat_less [of "[b, a]"] by (simp add: be_nat_def)
  then have w: "unat ?w = be_nat [a, b]" "unat ?w \<le> 65535"
    using be_word [of a b] by (simp_all add: unsigned_ucast_eq take_bit_nat_eq_self)
  note f = unat_fold_sum [OF 1(2) w(2)]
  have "unat (fold_sum (s + ?w)) \<le> 65535" unfolding f by (rule ones_sum_le)
  from 1(1) [OF this] show ?case
    unfolding checksum_loop.simps words_sum.simps f w(1) ones_sum_add by (simp only: add.assoc)
next
  case (2 a s)
  have "unat a < 256" using unsigned_less [of a, where ?'a = nat] by simp
  then have "unat (push_bit 8 (ucast a) :: u32) = 256 * unat a"
    by (simp add: push_bit_eq_mult unat_word_ariths unsigned_ucast_eq take_bit_nat_eq_self)
  with unat_fold_sum [OF 2, of "push_bit 8 (ucast a)"] \<open>unat a < 256\<close> show ?case by simp
qed (simp add: ones_sum_small)

lemma unat_checksum: "unat (checksum bs 0) = ones_sum (words_sum bs)"
  using checksum_loop_sum [of 0 bs] ones_sum_le [of "words_sum bs"]
  by (simp add: checksum_def unsigned_ucast_eq take_bit_nat_eq_self)

lemma unat_numeral_u16: "unat (65535 :: u16) = 65535"
  by simp

lemma wrapsum_bytes: "w16 (wrapsum (ucast (c :: u16))) = be_bytes 2 (65535 - unat c)"
proof -
  have "(0xFFFF :: u32) = mask 16" by (simp add: mask_eq_exp_minus_1)
  then have "bit (0xFFFF :: u32) n" if "n < 16" for n
    using that by (simp only: bit_mask_iff possible_bit_word) simp
  then have "(ucast (NOT (ucast c) AND 0xFFFF :: u32) :: u16) = NOT c"
    by (intro bit_word_eqI) (auto simp: bit_simps dest: bit_imp_le_length)
  moreover have "unat (NOT c) = 65535 - unat c"
  proof -
    have "NOT c = - 1 - c" by (simp add: not_eq_complement)
    moreover have "unat (- 1 - c) = unat (- 1 :: u16) - unat c" by (rule unat_sub) simp
    moreover have "(- 1 :: u16) = 65535" by simp
    ultimately show ?thesis by (metis unat_numeral_u16)
  qed
  ultimately show ?thesis by (simp add: wrapsum_def w16_htons)
qed

section \<open>Stores in a window\<close>

lemma load_store_inside:
  assumes "off + length bs \<le> n" "n \<le> 2 ^ 64"
  shows "load (store m (a + of_nat off) bs) a n
    = take off (load m a n) @ bs @ drop (off + length bs) (load m a n)"
proof -
  obtain k where n: "n = off + (length bs + k)" using assms(1) by (auto simp: le_iff_add)
  let ?m = "store m (a + of_nat off) bs"
  have "load ?m a off = load m a off"
    using range_of_disjoint [of off "length bs" 0 off a] assms(2) n
    by (intro load_store_disjoint) simp
  moreover have "load ?m (a + of_nat off) (length bs) = bs"
    using assms n by (intro load_store) simp
  moreover have "load ?m (a + of_nat (off + length bs)) k = load m (a + of_nat (off + length bs)) k"
    using range_of_disjoint [of off "length bs" "off + length bs" k a] assms(2) n
    by (intro load_store_disjoint) simp
  ultimately show ?thesis
    unfolding n load_append by (simp add: add.assoc)
qed

fun patch :: "(nat \<times> u8 list) list \<Rightarrow> u8 list \<Rightarrow> u8 list" where
  "patch [] xs = xs"
| "patch ((k, bs) # ws) xs = patch ws (take k xs @ bs @ drop (k + length bs) xs)"

definition at_offsets :: "addr \<Rightarrow> (nat \<times> u8 list) list \<Rightarrow> (addr \<times> u8 list) list" where
  "at_offsets a ws = map (\<lambda>(k, bs). (a + of_nat k, bs)) ws"

definition inside :: "nat \<Rightarrow> (nat \<times> u8 list) list \<Rightarrow> bool" where
  "inside n ws \<longleftrightarrow> (\<forall>(k, bs) \<in> set ws. k + length bs \<le> n)"

lemma load_writes:
  "inside n ws \<Longrightarrow> n \<le> 2 ^ 64 \<Longrightarrow> load (writes (at_offsets a ws) m) a n = patch ws (load m a n)"
  by (induction ws arbitrary: m) (auto simp: inside_def at_offsets_def load_store_inside)

lemma writes_outside:
  assumes "inside n ws" "x \<notin> range_of a n"
  shows "writes (at_offsets a ws) m x = m x"
  using assms(1)
proof (induction ws arbitrary: m)
  case (Cons w ws)
  obtain k bs where w: "w = (k, bs)" by (cases w)
  with Cons.prems have "k + length bs \<le> n" by (simp add: inside_def)
  then have "x \<notin> range_of (a + of_nat k) (length bs)"
    using range_of_subset [of k "length bs" n a] assms(2) by blast
  with Cons show ?case by (simp add: w at_offsets_def inside_def store_outside)
qed (simp add: at_offsets_def)

section \<open>Frames\<close>

text \<open>The 42 bytes of the Ethernet, IP and UDP headers.\<close>

definition udp_frame :: "u8 list \<Rightarrow> u8 list \<Rightarrow> u8 \<Rightarrow> int \<Rightarrow> u8 list \<Rightarrow> u8 list \<Rightarrow> u8 list \<Rightarrow> u8 list \<Rightarrow> u8 list \<Rightarrow> u8 list" where
  "udp_frame dmac smac tos len csum src dst sport dport =
     dmac @ smac @ [8, 0] @
     [0x45, tos] @ ip_len_bytes len @ [0, 0, 0, 0, 16, 17] @ csum @ src @ dst @
     sport @ dport @ udp_len_bytes len @ [0, 0]"

lemma w16_two: "w16 w = [of_nat (unat w), of_nat (unat w div 256)]"
  by (simp add: w16_def le_bytes_2)

lemma eth_type_bytes_eq: "eth_type_bytes = [8, 0]"
  by (simp add: eth_type_bytes_def w16_htons be_bytes_def le_bytes_2)

lemma replicate_6: "replicate 6 x = [x, x, x, x, x, x]"
  by (simp add: numeral_eq_Suc)

lemma expand_42: "length xs = 42 \<Longrightarrow> xs = map ((!) xs) [0..<42]"
  by (metis map_nth)

definition header_writes :: "u8 list \<Rightarrow> u8 \<Rightarrow> int \<Rightarrow> u16 \<Rightarrow> (nat \<times> u8 list) list" where
  "header_writes shost tos len sport =
     [(6, shost), (0, replicate 6 0xff), (12, eth_type_bytes), (14, [0x45]), (18, w16 0), (15, [tos]),
      (16, ip_len_bytes len), (20, w16 0), (22, [16]), (23, [17]), (24, w16 0),
      (26, [10, 0, 0, 2]), (30, [10, 0, 0, 1]), (38, udp_len_bytes len), (36, w16 (htons 60000)),
      (34, w16 (htons sport)), (40, w16 0)]"

lemma pkt_headers_writes:
  "pkt_headers shost tos len sport buf m = writes (at_offsets buf (header_writes shost tos len sport)) m"
  by (simp add: pkt_headers_def header_writes_def at_offsets_def Let_def add.assoc)

lemma header_writes_inside: "length shost = 6 \<Longrightarrow> inside 42 (header_writes shost tos len sport)"
  by (simp add: inside_def header_writes_def eth_type_bytes_eq ip_len_bytes_def udp_len_bytes_def w16_two)

lemma patch_headers:
  assumes "length shost = 6" "length xs = 42"
  shows "patch (header_writes shost tos len sport) xs
    = udp_frame (replicate 6 0xff) shost tos len [0, 0] [10, 0, 0, 2] [10, 0, 0, 1]
        (w16 (htons sport)) (w16 (htons 60000))"
proof -
  obtain s0 s1 s2 s3 s4 s5 where s: "shost = [s0, s1, s2, s3, s4, s5]"
    using assms(1) by (auto simp: numeral_eq_Suc length_Suc_conv)
  show ?thesis
    by (subst expand_42 [OF assms(2)])
      (simp add: header_writes_def udp_frame_def s eth_type_bytes_eq ip_len_bytes_def udp_len_bytes_def w16_two replicate_6)
qed

text \<open>The packet of \<^verbatim>\<open>nmgen\<close>: the writes before and after the checksum.\<close>

definition nm_writes :: "nmgen_addrs \<Rightarrow> int \<Rightarrow> (nat \<times> u8 list) list" where
  "nm_writes na pktlen =
     [(0, na_dstmac na), (6, na_srcmac na), (12, eth_type_bytes), (14, [0x45]), (18, w16 0),
      (15, [0x10]), (16, ip_len_bytes pktlen), (20, w16 0), (22, [16]), (23, [17]), (24, w16 0),
      (26, na_srcip na), (30, na_dstip na)]"

definition nm_udp_writes :: "int \<Rightarrow> int \<Rightarrow> u16 \<Rightarrow> (nat \<times> u8 list) list" where
  "nm_udp_writes pktlen cpu rnd =
     [(38, udp_len_bytes pktlen), (36, w16 (htons (word_of_int (60000 + cpu)))), (34, w16 rnd), (40, w16 0)]"

definition na_ok :: "nmgen_addrs \<Rightarrow> bool" where
  "na_ok na \<longleftrightarrow> length (na_srcip na) = 4 \<and> length (na_dstip na) = 4 \<and>
     length (na_srcmac na) = 6 \<and> length (na_dstmac na) = 6"

definition ip_header :: "nmgen_addrs \<Rightarrow> int \<Rightarrow> u8 list \<Rightarrow> u8 list" where
  "ip_header na pktlen csum = [0x45, 0x10] @ ip_len_bytes pktlen @ [0, 0, 0, 0, 16, 17] @ csum @
     na_srcip na @ na_dstip na"

lemma writes_append: "writes (xs @ ys) m = writes ys (writes xs m)"
  by (induction xs m rule: writes.induct) simp_all

lemma at_offsets_append: "at_offsets a (xs @ ys) = at_offsets a xs @ at_offsets a ys"
  by (simp add: at_offsets_def)

lemma load_part:
  assumes "k + n \<le> l"
  shows "load m (a + of_nat k) n = take n (drop k (load m a l))"
proof -
  obtain r where "l = k + (n + r)" using assms by (auto simp: le_iff_add)
  then show ?thesis by (simp add: load_append)
qed

lemma nm_lists:
  assumes "na_ok na"
  obtains s0 s1 s2 s3 d0 d1 d2 d3 t0 t1 t2 t3 t4 t5 u0 u1 u2 u3 u4 u5 where
    "na_srcip na = [s0, s1, s2, s3]" "na_dstip na = [d0, d1, d2, d3]"
    "na_srcmac na = [t0, t1, t2, t3, t4, t5]" "na_dstmac na = [u0, u1, u2, u3, u4, u5]"
proof -
  obtain s0 s1 s2 s3 d0 d1 d2 d3 where "na_srcip na = [s0, s1, s2, s3]" "na_dstip na = [d0, d1, d2, d3]"
    using assms by (auto simp: na_ok_def numeral_eq_Suc length_Suc_conv)
  moreover obtain t0 t1 t2 t3 t4 t5 where "na_srcmac na = [t0, t1, t2, t3, t4, t5]"
    using assms by (auto simp: na_ok_def numeral_eq_Suc length_Suc_conv)
  moreover obtain u0 u1 u2 u3 u4 u5 where "na_dstmac na = [u0, u1, u2, u3, u4, u5]"
    using assms by (auto simp: na_ok_def numeral_eq_Suc length_Suc_conv)
  ultimately show thesis by (rule that)
qed

lemmas patch_eval = nm_writes_def nm_udp_writes_def udp_frame_def ip_header_def eth_type_bytes_eq
  ip_len_bytes_def udp_len_bytes_def w16_two

lemma nm_writes_inside:
  assumes "na_ok na" "length c = 2"
  shows "inside 42 (nm_writes na pktlen)" "inside 42 (nm_writes na pktlen @ [(24, c)] @ nm_udp_writes pktlen cpu rnd)"
  using assms by (simp_all add: inside_def patch_eval na_ok_def)

lemma patch_nm_header:
  assumes "na_ok na" "length xs = 42"
  shows "take 20 (drop 14 (patch (nm_writes na pktlen) xs)) = ip_header na pktlen [0, 0]"
  by (rule nm_lists [OF assms(1)]) (subst expand_42 [OF assms(2)], simp add: patch_eval)

lemma patch_nm_all:
  assumes "na_ok na" "length xs = 42" "length c = 2"
  shows "patch (nm_writes na pktlen @ [(24, c)] @ nm_udp_writes pktlen cpu rnd) xs
    = udp_frame (na_dstmac na) (na_srcmac na) 0x10 pktlen c (na_srcip na) (na_dstip na)
        (w16 rnd) (w16 (htons (word_of_int (60000 + cpu))))"
proof -
  obtain c0 c1 where "c = [c0, c1]" using assms(3) by (auto simp: numeral_eq_Suc length_Suc_conv)
  then show ?thesis
    by (rule_tac nm_lists [OF assms(1)]) (subst expand_42 [OF assms(2)], simp add: patch_eval)
qed

lemma words_sum_header:
  assumes "na_ok na" "length c = 2"
  shows "words_sum (ip_header na pktlen c) = words_sum (ip_header na pktlen [0, 0]) + be_nat c"
    "0 < words_sum (ip_header na pktlen c)"
proof -
  obtain c0 c1 where c: "c = [c0, c1]" using assms(2) by (auto simp: numeral_eq_Suc length_Suc_conv)
  obtain s0 s1 s2 s3 d0 d1 d2 d3 where
    "na_srcip na = [s0, s1, s2, s3]" "na_dstip na = [d0, d1, d2, d3]"
    using nm_lists [OF assms(1)] by metis
  then show "words_sum (ip_header na pktlen c) = words_sum (ip_header na pktlen [0, 0]) + be_nat c"
    "0 < words_sum (ip_header na pktlen c)"
    by (simp_all add: c ip_header_def ip_len_bytes_def w16_two be_nat_def)
qed

lemma header_checksum:
  assumes "na_ok na" "c = be_bytes 2 (65535 - ones_sum (words_sum (ip_header na pktlen [0, 0])))"
  shows "checksum (ip_header na pktlen c) 0 = 0xFFFF"
proof -
  let ?s = "words_sum (ip_header na pktlen [0, 0])"
  have "be_nat c = 65535 - ones_sum ?s"
    using assms(2) be_nat_be_bytes [of 2 "65535 - ones_sum ?s"] by simp
  then have w: "words_sum (ip_header na pktlen c) = ?s + (65535 - ones_sum ?s)"
    using words_sum_header(1) [OF assms(1), of c] assms(2) by simp
  have "(?s + (65535 - ones_sum ?s)) mod 65535 = (ones_sum ?s + (65535 - ones_sum ?s)) mod 65535"
    by (metis mod_add_left_eq ones_sum_mod)
  also have "\<dots> = 65535 mod 65535" using ones_sum_le [of ?s] by simp
  finally have "ones_sum (words_sum (ip_header na pktlen c)) = ones_sum 65535"
    using words_sum_header(2) [OF assms(1), of "[0, 0]" pktlen] unfolding w
    by (intro ones_sum_unique) simp_all
  then show ?thesis by (simp add: word_nat unat_checksum ones_sum_small)
qed

lemma build_packet_eq:
  assumes "na_ok na" "0 \<le> pktlen"
  defines "c \<equiv> be_bytes 2 (65535 - ones_sum (words_sum (ip_header na pktlen [0, 0])))"
  shows "build_packet na pktlen cpu rnd pkt m = Inr (writes (at_offsets pkt
    (nm_writes na pktlen @ [(24, c)] @ nm_udp_writes pktlen cpu rnd))
    (store m pkt (replicate (nat pktlen) 0)))"
proof -
  let ?m0 = "store m pkt (replicate (nat pktlen) 0)"
  let ?m1 = "writes (at_offsets pkt (nm_writes na pktlen)) ?m0"
  have m1: "writes [(pkt, replicate (nat pktlen) 0),
       (pkt, na_dstmac na), (pkt + 6, na_srcmac na), (pkt + 12, eth_type_bytes),
       (pkt + 14, [0x45]), (pkt + 14 + 4, w16 0), (pkt + 14 + 1, [0x10]), (pkt + 14 + 2, ip_len_bytes pktlen),
       (pkt + 14 + 6, w16 0), (pkt + 14 + 8, [16]), (pkt + 14 + 9, [17]), (pkt + 14 + 10, w16 0),
       (pkt + 14 + 12, na_srcip na), (pkt + 14 + 16, na_dstip na)] m = ?m1"
    by (simp add: at_offsets_def nm_writes_def add.assoc)
  have "load ?m1 (pkt + 14) 20 = ip_header na pktlen [0, 0]"
    using load_part [of 14 20 42 ?m1 pkt] load_writes [OF nm_writes_inside(1) [OF assms(1), of c]]
      patch_nm_header [OF assms(1), of "load ?m0 pkt 42"] by (simp add: c_def)
  then have c: "w16 (wrapsum (ucast (checksum (load ?m1 (pkt + 14) 20) 0))) = c"
    by (simp add: wrapsum_bytes unat_checksum c_def)
  show ?thesis
    using assms(2) unfolding build_packet_def Let_def m1 c
    by (simp add: at_offsets_append writes_append)
      (simp add: at_offsets_def nm_udp_writes_def ac_simps)
qed

section \<open>Properties of packets\<close>

lemma frame_ip_header:
  assumes "na_ok na" "length c = 2"
  shows "take 20 (drop 14 (udp_frame (na_dstmac na) (na_srcmac na) 0x10 pktlen c (na_srcip na) (na_dstip na) sp dp))
    = ip_header na pktlen c"
  using assms by (simp add: udp_frame_def ip_header_def na_ok_def ip_len_bytes_def w16_two)

lemma unat_of_int_u16: "unat (word_of_int k :: u16) = nat (k mod 65536)"
  unfolding nat_uint_eq [symmetric] uint_word_of_int by simp

lemma store_prefix: "k \<le> n \<Longrightarrow> n \<le> 2 ^ 64 \<Longrightarrow> load (store m a (replicate n 0)) a k = replicate k 0"
  using load_part [of 0 k n "store m a (replicate n 0)" a] load_store [of "replicate n 0" m a] by simp

lemma zero_tail:
  assumes "inside 42 ws" "42 \<le> n" "n \<le> 2 ^ 32"
  shows "load (writes (at_offsets a ws) (store m a (replicate n 0))) (a + 42) (n - 42) = replicate (n - 42) 0"
proof -
  let ?m = "store m a (replicate n 0)"
  have "range_of (a + of_nat 42) (n - 42) \<inter> range_of (a + of_nat 0) 42 = {}"
    by (rule range_of_disjoint) (use assms(2,3) in auto)
  then have "load (writes (at_offsets a ws) ?m) (a + 42) (n - 42) = load ?m (a + 42) (n - 42)"
    using writes_outside [OF assms(1), of _ a ?m] by (intro load_cong) auto
  also have "\<dots> = replicate (n - 42) 0"
    using load_part [of 42 "n - 42" n ?m a] load_store [of "replicate n 0" m a] assms(2,3) by simp
  finally show ?thesis .
qed

lemma built_outside:
  assumes "inside k ws" "k \<le> n" "length z \<le> n" "x \<notin> range_of a n"
  shows "writes (at_offsets a ws) (store m a z) x = m x"
proof -
  have "range_of a k \<subseteq> range_of a n" "range_of a (length z) \<subseteq> range_of a n"
    using range_of_subset [of 0 _ n a] assms(2,3) by auto
  with assms(4) have "x \<notin> range_of a k" "x \<notin> range_of a (length z)" by auto
  then show ?thesis using writes_outside [OF assms(1)] by (simp add: store_outside)
qed

lemma build_packet_frame:
  assumes "na_ok na" "42 \<le> pktlen" "pktlen < 2 ^ 31"
  shows "\<exists>m' c. build_packet na pktlen cpu rnd pkt m = Inr m' \<and> length c = 2 \<and>
    load m' pkt 42 = udp_frame (na_dstmac na) (na_srcmac na) 0x10 pktlen c (na_srcip na) (na_dstip na)
      (w16 rnd) (be_bytes 2 (nat ((60000 + cpu) mod 65536))) \<and>
    checksum (load m' (pkt + 14) 20) 0 = 0xFFFF \<and>
    load m' (pkt + 42) (nat pktlen - 42) = replicate (nat pktlen - 42) 0 \<and>
    (\<forall>x. x \<notin> range_of pkt (nat pktlen) \<longrightarrow> m' x = m x)"
proof -
  define c where "c = be_bytes 2 (65535 - ones_sum (words_sum (ip_header na pktlen [0, 0])))"
  let ?ws = "nm_writes na pktlen @ [(24, c)] @ nm_udp_writes pktlen cpu rnd"
  let ?m = "writes (at_offsets pkt ?ws) (store m pkt (replicate (nat pktlen) 0))"
  have len: "42 \<le> nat pktlen" "nat pktlen \<le> 2 ^ 32" using assms(2,3) by simp_all
  have c2: "length c = 2" by (simp add: c_def)
  note ins = nm_writes_inside(2) [OF assms(1) c2, of pktlen cpu rnd]
  have port: "w16 (htons (word_of_int (60000 + cpu))) = be_bytes 2 (nat ((60000 + cpu) mod 65536))"
    unfolding w16_htons by (simp only: unat_of_int_u16)
  have frame: "load ?m pkt 42 = udp_frame (na_dstmac na) (na_srcmac na) 0x10 pktlen c (na_srcip na)
      (na_dstip na) (w16 rnd) (be_bytes 2 (nat ((60000 + cpu) mod 65536)))"
    using load_writes [OF ins] patch_nm_all [OF assms(1) _ c2] unfolding port [symmetric] by simp
  have "load ?m (pkt + of_nat 14) 20 = take 20 (drop 14 (load ?m pkt 42))"
    by (rule load_part) simp
  then have "load ?m (pkt + 14) 20 = ip_header na pktlen c"
    unfolding frame frame_ip_header [OF assms(1) c2] by simp
  then have "checksum (load ?m (pkt + 14) 20) 0 = 0xFFFF"
    using header_checksum [OF assms(1) c_def] by simp
  moreover have "build_packet na pktlen cpu rnd pkt m = Inr ?m"
    unfolding c_def using assms(2) by (intro build_packet_eq [OF assms(1)]) simp
  moreover have "\<forall>x. x \<notin> range_of pkt (nat pktlen) \<longrightarrow> ?m x = m x"
    using built_outside [OF ins len(1)] by simp
  ultimately show ?thesis
    using frame c2 zero_tail [OF ins len] by blast
qed


definition lab_addrs :: nmgen_addrs where
  "lab_addrs = \<lparr>na_srcip = [10, 0, 10, 2], na_dstip = [10, 0, 10, 1], na_srcmac = replicate 6 0,
     na_dstmac = replicate 6 0xff\<rparr>"


lemma desc_roundtrip: "get_pktlen_from_desc (set_pktlen_in_desc buf len v m) buf len = v"
  using load_store [of "le_bytes 4 (unat v)" m "get_pkt_desc buf len"] le_word_roundtrip [of 4 v]
  by (simp add: get_pktlen_from_desc_def set_pktlen_in_desc_def)

lemma desc_keeps_packet:
  "n \<le> 2044 \<Longrightarrow> load (set_pktlen_in_desc buf 2048 v m) buf n = load m buf n"
  using range_of_disjoint [of 2044 4 0 n buf]
  by (simp add: set_pktlen_in_desc_def get_pkt_desc_def load_store_disjoint)

lemma desc_outside: "x \<notin> range_of buf 2048 \<Longrightarrow> set_pktlen_in_desc buf 2048 v m x = m x"
  using range_of_subset [of 2044 4 2048 buf]
  by (auto simp: set_pktlen_in_desc_def get_pkt_desc_def intro!: store_outside)

lemma pkt_headers_frame:
  assumes "length shost = 6"
  shows "load (pkt_headers shost tos len sport buf m) buf 42
    = udp_frame (replicate 6 0xff) shost tos len [0, 0] [10, 0, 0, 2] [10, 0, 0, 1]
        (w16 (htons sport)) (w16 (htons 60000))"
  using load_writes [OF header_writes_inside [OF assms]] patch_headers [OF assms]
  by (simp add: pkt_headers_writes)

lemma headers_desc_outside:
  assumes "x \<notin> range_of buf 2048" "length sh = 6" "len \<le> 2044"
  shows "set_pktlen_in_desc buf 2048 v (pkt_headers sh tos len sp buf (store m buf (replicate (nat len) 0))) x = m x"
  using built_outside [OF header_writes_inside [OF assms(2)], of 2048 "replicate (nat len) 0" x buf] assms
  by (simp add: desc_outside pkt_headers_writes)

lemma store_pkt_reads_back:
  assumes "42 \<le> len" "len \<le> 2044"
  shows "\<exists>m'. store_build_pkt buf len ident m = Inr m' \<and>
      get_pktlen_from_desc m' buf 2048 = word_of_int len \<and>
      load m' buf 42 = udp_frame (replicate 6 0xff) (replicate 6 0) 0 len [0, 0] [10, 0, 0, 2] [10, 0, 0, 1]
        (be_bytes 2 (unat ident mod 65536)) (be_bytes 2 60000) \<and>
      (\<forall>x. x \<notin> range_of buf 2048 \<longrightarrow> m' x = m x)"
proof -
  have "unat (ucast ident :: u16) = unat ident mod 65536" by (simp add: unsigned_ucast_eq take_bit_eq_mod)
  with assms show ?thesis
    by (simp add: store_build_pkt_def memset_0_def desc_roundtrip desc_keeps_packet
        pkt_headers_frame w16_htons headers_desc_outside)
qed

lemma gen_pkt_reads_back:
  assumes "42 \<le> len" "len \<le> 2044"
  shows "\<exists>m'. obind (gen_build_pkt buf len num m) (\<lambda>m1. Inr (set_pktlen_in_desc buf 2048 (word_of_int len) m1)) = Inr m' \<and>
      get_pktlen_from_desc m' buf 2048 = word_of_int len \<and>
      load m' buf 42 = udp_frame (replicate 6 0xff) [1, 2, 3, 4, 5, 6] 0x10 len [0, 0] [10, 0, 0, 2] [10, 0, 0, 1]
        (be_bytes 2 (nat ((num + 60000) mod 65536))) (be_bytes 2 60000) \<and>
      (\<forall>x. x \<notin> range_of buf 2048 \<longrightarrow> m' x = m x)"
  using assms
  by (simp add: gen_build_pkt_def memset_0_def desc_roundtrip desc_keeps_packet
      pkt_headers_frame w16_htons unat_of_int_u16 headers_desc_outside del: of_int_add)



end
