(* ===== verification/Nmgen.thy ===== *)
theory Nmgen
  imports Netmap_Io Nvme_Io Packets C_Getopt Counters
begin

text \<open>
  \<^verbatim>\<open>apps/nmgen.c\<close>: a packet generator and receiver on netmap rings whose packets live in pop
  memory. The packets are built once per thread and sent again and again.

  Modelled are the set-up of a sender with its packets, one round of the sender and of the receiver,
  the totals of the count thread and the command line. The rest of \<^verbatim>\<open>main\<close> and its report of
  the configuration are in the theory \<open>Nmgen_Main\<close>; the affinity calls are not modelled.
\<close>

section \<open>Structures\<close>

definition NMGEN_MODE_TX :: int where "NMGEN_MODE_TX = 0"
definition NMGEN_MODE_RX :: int where "NMGEN_MODE_RX = 1"

record nmgen =
  nm_port :: "string option"
  nm_pci :: "string option"
  nm_mode :: int
  nm_pktlen :: int
  nm_ncpus :: int
  nm_batch :: int
  nm_interval :: int
  nm_timeout :: int
  nm_addrs :: nmgen_addrs

record nmgen_thread =
  nt_cpu :: int
  nt_cancel :: int
  nt_npkts :: u64
  nt_nbits :: u64

section \<open>The sender\<close>

text \<open>
  The loop over the packet buffers: their physical addresses, and the packets built in them. The
  arrays of the thread have 64 elements.
\<close>

fun nmgen_build :: "nmgen \<Rightarrow> nmgen_thread \<Rightarrow> (nat \<Rightarrow> u16) \<Rightarrow> pop_mem \<Rightarrow> addr \<Rightarrow> nat \<Rightarrow> nat \<Rightarrow> memory
    \<Rightarrow> (addr list \<times> memory) outcome" where
  "nmgen_build gen th rnd mem data n 0 bytes = Inr ([], bytes)"
| "nmgen_build gen th rnd mem data n (Suc k) bytes =
     (if n < 64
      then let pkt = data + of_nat (2048 * n) in
        obind (build_packet (nm_addrs gen) (nm_pktlen gen) (nt_cpu th) (rnd n) pkt bytes) (\<lambda>bytes1.
        obind (nmgen_build gen th rnd mem data (Suc n) k bytes1) (\<lambda>(ps, bytes2).
        Inr (pop_virt_to_phys mem pkt # ps, bytes2)))
      else Inl OutOfBounds)"

text \<open>
  The set-up of \<^verbatim>\<open>nmgen_sender_body\<close>. The left result means that the thread ends because the
  buffer was refused; the outer \<^const>\<open>None\<close> that the allocation does not return.
\<close>

definition nmgen_sender_init :: "bool \<Rightarrow> addr \<Rightarrow> nmgen \<Rightarrow> nmgen_thread \<Rightarrow> (nat \<Rightarrow> u16) \<Rightarrow> memory \<Rightarrow> pop_mem
    \<Rightarrow> ((errno + (addr list \<times> memory) outcome) \<times> pop_mem) option" where
  "nmgen_sender_init mo mp gen th rnd bytes m =
     (let sz = word_of_int (2048 * nm_batch gen) :: u64 in
      case pop_buf_alloc mo mp m sz of
        None \<Rightarrow> None
      | Some (Inl e, m1) \<Rightarrow> Some (Inl e, m1)
      | Some (Inr b, m1) \<Rightarrow>
          (let pbuf = snd (pop_buf_put b sz) in
           Some (Inr (nmgen_build gen th rnd m1 (pop_buf_data pbuf) 0 (nat (nm_batch gen)) bytes), m1)))"

text \<open>The loop that fills the netmap slots.\<close>

fun nmgen_fill :: "nmapi \<Rightarrow> nmgen \<Rightarrow> addr list \<Rightarrow> netmap_ring \<Rightarrow> nat \<Rightarrow> nat \<Rightarrow> u32 \<Rightarrow> netmap_slot list \<Rightarrow> u64 \<Rightarrow> u64
    \<Rightarrow> (u32 \<times> netmap_slot list \<times> u64 \<times> u64) outcome" where
  "nmgen_fill A gen pkts_phy ring b 0 head sl npkts nbits = Inr (head, sl, npkts, nbits)"
| "nmgen_fill A gen pkts_phy ring b (Suc k) head sl npkts nbits =
     (if unat head < length sl \<and> b < length pkts_phy
      then nmgen_fill A gen pkts_phy ring (Suc b) k (nm_ring_next A ring head)
             (sl[unat head := (sl ! unat head)
                \<lparr>ns_flags := ns_flags (sl ! unat head) OR NS_PHY_INDIRECT A,
                 ns_ptr := pkts_phy ! b, ns_len := word_of_int (nm_pktlen gen)\<rparr>])
             (npkts + 1) (nbits + word_of_int (nm_pktlen gen * 8))
      else Inl OutOfBounds)"

text \<open>One round of the sender. The comparison is made in \<^verbatim>\<open>unsigned long\<close>.\<close>

definition nmgen_sender_round :: "nmapi \<Rightarrow> nmgen \<Rightarrow> addr list \<Rightarrow> nmgen_thread \<Rightarrow> netmap_ring
    \<Rightarrow> (bool \<times> nmgen_thread \<times> netmap_ring) outcome" where
  "nmgen_sender_round A gen pkts_phy th ring =
     (let (ret, ring1) = nm_txsync A ring in
      if ret < 0 then Inr (True, th, ring1)
      else let space = ucast (nm_ring_space A ring1) :: u64 in
      if space = 0 then Inr (False, th, ring1)
      else let batch = (if space > word_of_int (nm_batch gen) then word_of_int (nm_batch gen) else space)
      in obind (nmgen_fill A gen pkts_phy ring1 0 (unat batch) (nr_head ring1) (nr_slot ring1) 0 0)
           (\<lambda>(head, sl, npkts, nbits).
              Inr (False, th\<lparr>nt_npkts := nt_npkts th + npkts, nt_nbits := nt_nbits th + nbits\<rparr>,
                ring1\<lparr>nr_slot := sl, nr_head := head, nr_cur := head\<rparr>)))"

text \<open>
  The whole body of the sender: the set-up, \<open>rounds\<close> rounds until the thread is cancelled, and the
  wait until the ring is drained, which is skipped when a synchronisation failed.
\<close>

fun nmgen_sender_loop :: "nmapi \<Rightarrow> nmgen \<Rightarrow> addr list \<Rightarrow> nat \<Rightarrow> nmgen_thread \<Rightarrow> netmap_ring
    \<Rightarrow> (bool \<times> nmgen_thread \<times> netmap_ring) outcome" where
  "nmgen_sender_loop A gen phys 0 th ring = Inr (False, th, ring)"
| "nmgen_sender_loop A gen phys (Suc k) th ring =
     obind (nmgen_sender_round A gen phys th ring) (\<lambda>(out, th1, ring1).
       if out then Inr (True, th1, ring1) else nmgen_sender_loop A gen phys k th1 ring1)"

definition nmgen_sender_body :: "nmapi \<Rightarrow> bool \<Rightarrow> addr \<Rightarrow> nmgen \<Rightarrow> nmgen_thread \<Rightarrow> (nat \<Rightarrow> u16) \<Rightarrow> nat
    \<Rightarrow> memory \<Rightarrow> netmap_ring \<Rightarrow> pop_mem \<Rightarrow> ((nmgen_thread \<times> netmap_ring \<times> memory) outcome \<times> pop_mem) option" where
  "nmgen_sender_body A mo mp gen th rnd rounds bytes ring m =
     (case nmgen_sender_init mo mp gen th rnd bytes m of
        None \<Rightarrow> None
      | Some (Inl e, m1) \<Rightarrow> Some (Inr (th, ring, bytes), m1)
      | Some (Inr (Inl f), m1) \<Rightarrow> Some (Inl f, m1)
      | Some (Inr (Inr (phys, bytes1)), m1) \<Rightarrow>
          (case nmgen_sender_loop A gen phys rounds th ring of
             Inl f \<Rightarrow> Some (Inl f, m1)
           | Inr (True, th1, ring1) \<Rightarrow> Some (Inr (th1, ring1, bytes1), m1)
           | Inr (False, th1, ring1) \<Rightarrow>
               (case drain_tx A ring1 of
                  None \<Rightarrow> None
                | Some ring2 \<Rightarrow> Some (Inr (th1, ring2, bytes1), m1))))"

text \<open>The whole body of the receiver.\<close>

definition nmgen_receiver_body :: "nmapi \<Rightarrow> bool \<Rightarrow> bool \<Rightarrow> addr \<Rightarrow> addr \<Rightarrow> nat \<Rightarrow> nmgen_thread \<Rightarrow> netmap_ring \<Rightarrow> pop_mem
    \<Rightarrow> (nmgen_thread \<times> netmap_ring \<times> pop_mem) outcome option" where
  "nmgen_receiver_body A mo mo' mp rp rounds th ring m =
     map_option (\<lambda>x. obind x (\<lambda>((npkts, nbits), ring', m').
        Inr (th\<lparr>nt_npkts := npkts, nt_nbits := nbits\<rparr>, ring', m')))
       (recv_body A mo mo' mp rp rounds (nt_npkts th, nt_nbits th) ring m)"

text \<open>The report thread: packets and bits.\<close>

definition nmgen_count_thread :: "nmgen \<Rightarrow> nmgen_thread observation list \<Rightarrow> nmgen_thread list
    \<Rightarrow> ((int list \<times> int) list \<times> nmgen_thread list) outcome" where
  "nmgen_count_thread gen = count_thread [nt_npkts, nt_nbits] (\<lambda>th. th\<lparr>nt_cancel := 1\<rparr>) (nm_ncpus gen)"

section \<open>The command line\<close>

text \<open>
  \<^verbatim>\<open>inet_pton(AF_INET, s, dst)\<close>: four decimal numbers without leading zeros, at most 255; the
  destination is left alone when the string is not an address.
\<close>

fun split_dots :: "string \<Rightarrow> string list" where
  "split_dots [] = [[]]"
| "split_dots (c # cs) =
     (if c = CHR ''.'' then [] # split_dots cs
      else case split_dots cs of [] \<Rightarrow> [[c]] | w # ws \<Rightarrow> (c # w) # ws)"

definition octet_ok :: "string \<Rightarrow> bool" where
  "octet_ok w \<longleftrightarrow> w \<noteq> [] \<and> length w \<le> 3 \<and> list_all is_digit w \<and> (hd w = CHR ''0'' \<longrightarrow> length w = 1) \<and>
     digits_value 10 w \<le> 255"

definition inet_pton :: "string \<Rightarrow> u8 list \<Rightarrow> u8 list" where
  "inet_pton s dst = (let ws = split_dots s in
     if length ws = 4 \<and> list_all octet_ok ws then map (\<lambda>w. of_nat (digits_value 10 w)) ws else dst)"

text \<open>\<^verbatim>\<open>sscanf(s, "%hhx:%hhx:%hhx:%hhx:%hhx:%hhx", ...)\<close> overwrites as many bytes as it reads.\<close>

definition scan_mac :: "string \<Rightarrow> u8 list \<Rightarrow> u8 list" where
  "scan_mac s dst = (let vs = sscanf_x True [Hex, Lit CHR '':'', Hex, Lit CHR '':'', Hex, Lit CHR '':'',
       Hex, Lit CHR '':'', Hex, Lit CHR '':'', Hex] s
     in map ucast vs @ drop (length vs) dst)"

definition nmgen_defaults :: nmgen where
  "nmgen_defaults = \<lparr>nm_port = None, nm_pci = None, nm_mode = NMGEN_MODE_TX, nm_pktlen = 60, nm_ncpus = 1,
     nm_batch = 1, nm_interval = 1000000, nm_timeout = 0,
     nm_addrs = \<lparr>na_srcip = inet_pton ''10.0.10.2'' [0, 0, 0, 0], na_dstip = inet_pton ''10.0.10.1'' [0, 0, 0, 0],
       na_srcmac = replicate 6 0, na_dstmac = replicate 6 0xff\<rparr>\<rparr>"

definition nmgen_opt :: "(string \<Rightarrow> int option) \<Rightarrow> nmgen \<Rightarrow> char \<times> string \<Rightarrow> int + nmgen" where
  "nmgen_opt scan_usec gen x = (let (ch, optarg) = x; na = nm_addrs gen in
     if ch = CHR ''p'' then Inr (gen\<lparr>nm_port := Some optarg\<rparr>)
     else if ch = CHR ''P'' then
       Inr (gen\<lparr>nm_pci := (if strncmp_eq optarg ''hugepage'' 8 then None else Some optarg)\<rparr>)
     else if ch = CHR ''m'' then
       (if strncmp_eq optarg ''tx'' 2 then Inr (gen\<lparr>nm_mode := NMGEN_MODE_TX\<rparr>)
        else if strncmp_eq optarg ''rx'' 2 then Inr (gen\<lparr>nm_mode := NMGEN_MODE_RX\<rparr>)
        else Inl (- 1))
     else if ch = CHR ''l'' then Inr (gen\<lparr>nm_pktlen := atoi optarg\<rparr>)
     else if ch = CHR ''n'' then
       (if atoi optarg > 32 then Inl (- 1) else Inr (gen\<lparr>nm_ncpus := atoi optarg\<rparr>))
     else if ch = CHR ''b'' then
       (if atoi optarg > 64 then Inl (- 1) else Inr (gen\<lparr>nm_batch := atoi optarg\<rparr>))
     else if ch = CHR ''i'' then
       Inr (gen\<lparr>nm_interval := (case scan_usec optarg of Some v \<Rightarrow> v | None \<Rightarrow> nm_interval gen * 1000000)\<rparr>)
     else if ch = CHR ''t'' then Inr (gen\<lparr>nm_timeout := atoi optarg\<rparr>)
     else if ch = CHR ''d'' then Inr (gen\<lparr>nm_addrs := na\<lparr>na_dstip := inet_pton optarg (na_dstip na)\<rparr>\<rparr>)
     else if ch = CHR ''s'' then Inr (gen\<lparr>nm_addrs := na\<lparr>na_srcip := inet_pton optarg (na_srcip na)\<rparr>\<rparr>)
     else if ch = CHR ''D'' then Inr (gen\<lparr>nm_addrs := na\<lparr>na_dstmac := scan_mac optarg (na_dstmac na)\<rparr>\<rparr>)
     else if ch = CHR ''S'' then Inr (gen\<lparr>nm_addrs := na\<lparr>na_srcmac := scan_mac optarg (na_srcmac na)\<rparr>\<rparr>)
     else Inl (- 1))"

definition nmgen_args :: "int \<Rightarrow> (string \<Rightarrow> int option) \<Rightarrow> string list \<Rightarrow> int + nmgen" where
  "nmgen_args cpus scan_usec argv =
     (case opt_loop (nmgen_opt scan_usec) (getopts ''p:P:m:l:n:b:i:t:d:s:D:S:h'' argv) nmgen_defaults of
        Inl r \<Rightarrow> Inl r
      | Inr gen \<Rightarrow>
          if nm_port gen = None then Inl (- 1)
          else if nm_mode gen = NMGEN_MODE_RX then Inr (gen\<lparr>nm_ncpus := cpus\<rparr>)
          else Inr gen)"

lemma inet_pton_length: "length dst = 4 \<Longrightarrow> length (inet_pton s dst) = 4"
  by (simp add: inet_pton_def Let_def)

lemma scan_mac_length: "length dst = 6 \<Longrightarrow> length (scan_mac s dst) = 6"
  using sscanf_x_length [of True "[Hex, Lit CHR '':'', Hex, Lit CHR '':'', Hex, Lit CHR '':'',
    Hex, Lit CHR '':'', Hex, Lit CHR '':'', Hex]" s] by (simp add: scan_mac_def Let_def)

definition nmgen_ok :: "nmgen \<Rightarrow> bool" where
  "nmgen_ok gen \<longleftrightarrow> nm_ncpus gen \<le> 32 \<and> nm_batch gen \<le> 64 \<and> na_ok (nm_addrs gen) \<and>
     (nm_mode gen = NMGEN_MODE_TX \<or> nm_mode gen = NMGEN_MODE_RX)"

lemma nmgen_defaults_ok: "nmgen_ok nmgen_defaults"
  by (simp add: nmgen_ok_def nmgen_defaults_def na_ok_def inet_pton_length)

interpretation nmgen_options: option_parser "nmgen_opt su" nmgen_defaults nmgen_ok "- 1" for su
proof
  show "nmgen_ok nmgen_defaults" by (rule nmgen_defaults_ok)
  show "nmgen_ok p'" if "nmgen_ok p" "nmgen_opt su p x = Inr p'" for su p x p'
    using that by (auto simp: nmgen_opt_def nmgen_ok_def na_ok_def inet_pton_length scan_mac_length Let_def
        split: prod.splits if_splits)
  show "r = - 1" if "nmgen_opt su p x = Inl r" for su p x r
    using that by (simp add: nmgen_opt_def Let_def split: prod.splits if_splits)
qed

lemma nmgen_args_ok:
  "case nmgen_args cpus su argv of Inl r \<Rightarrow> r = - 1
   | Inr gen \<Rightarrow> nmgen_ok (gen\<lparr>nm_ncpus := 1\<rparr>) \<and> (nm_mode gen = NMGEN_MODE_TX \<longrightarrow> nmgen_ok gen) \<and>
       (nm_mode gen = NMGEN_MODE_RX \<longrightarrow> nm_ncpus gen = cpus)"
  using nmgen_options.parsed [of su "getopts ''p:P:m:l:n:b:i:t:d:s:D:S:h'' argv"]
  by (auto simp: nmgen_args_def nmgen_ok_def NMGEN_MODE_TX_def NMGEN_MODE_RX_def split: sum.splits)

section \<open>The packets of a sender\<close>

text \<open>A valid packet: the headers of the configuration, with a correct header checksum.\<close>

definition pkt_valid :: "nmgen \<Rightarrow> nmgen_thread \<Rightarrow> u16 \<Rightarrow> memory \<Rightarrow> addr \<Rightarrow> bool" where
  "pkt_valid gen th rnd bytes pkt \<longleftrightarrow> (let na = nm_addrs gen; hdr = load bytes pkt 42; csum = take 2 (drop 24 hdr) in
     hdr = udp_frame (na_dstmac na) (na_srcmac na) 0x10 (nm_pktlen gen) csum (na_srcip na) (na_dstip na)
       (w16 rnd) (be_bytes 2 (nat ((60000 + nt_cpu th) mod 65536))) \<and>
     checksum (take 20 (drop 14 hdr)) 0 = 0xFFFF)"

lemma pkt_valid_cong:
  assumes "\<And>x. x \<in> range_of pkt 42 \<Longrightarrow> b x = b' x"
  shows "pkt_valid gen th rnd b pkt = pkt_valid gen th rnd b' pkt"
  using load_cong [of pkt 42 b b'] assms by (simp add: pkt_valid_def)

lemma build_packet_valid:
  assumes "na_ok (nm_addrs gen)" "42 \<le> nm_pktlen gen" "nm_pktlen gen \<le> 2048"
  shows "\<exists>b'. build_packet (nm_addrs gen) (nm_pktlen gen) (nt_cpu th) rnd pkt b = Inr b' \<and>
    pkt_valid gen th rnd b' pkt \<and> (\<forall>x. x \<notin> range_of pkt 2048 \<longrightarrow> b' x = b x)"
proof -
  let ?na = "nm_addrs gen" and ?p = "nm_pktlen gen"
  have "?p < 2 ^ 31" using assms(3) by simp
  from build_packet_frame [OF assms(1,2) this, of "nt_cpu th" rnd pkt b] obtain b' c where
    b: "build_packet ?na ?p (nt_cpu th) rnd pkt b = Inr b'" "length c = 2"
    "load b' pkt 42 = udp_frame (na_dstmac ?na) (na_srcmac ?na) 0x10 ?p c (na_srcip ?na) (na_dstip ?na)
      (w16 rnd) (be_bytes 2 (nat ((60000 + nt_cpu th) mod 65536)))"
    "checksum (load b' (pkt + 14) 20) 0 = 0xFFFF" "\<forall>x. x \<notin> range_of pkt (nat ?p) \<longrightarrow> b' x = b x"
    by blast
  have "take 2 (drop 24 (load b' pkt 42)) = c"
    unfolding b(3) using b(2) assms(1)
    by (simp add: udp_frame_def na_ok_def ip_len_bytes_def w16_two)
  moreover have "load b' (pkt + 14) 20 = take 20 (drop 14 (load b' pkt 42))"
    using load_part [of 14 20 42 b' pkt] by simp
  ultimately have "pkt_valid gen th rnd b' pkt"
    using b(3,4) by (simp add: pkt_valid_def Let_def)
  moreover have "range_of pkt (nat ?p) \<subseteq> range_of pkt 2048"
    using range_of_subset [of 0 "nat ?p" 2048 pkt] assms(3) by simp
  ultimately show ?thesis using b(1,5) by blast
qed

lemma nmgen_build_ok:
  assumes "na_ok (nm_addrs gen)" "42 \<le> nm_pktlen gen" "nm_pktlen gen \<le> 2048" "n + k \<le> 64"
  shows "\<exists>ps b'. nmgen_build gen th rnd mem data n k b = Inr (ps, b') \<and>
    ps = map (\<lambda>i. pop_virt_to_phys mem (data + of_nat (2048 * i))) [n..<n + k] \<and>
    (\<forall>i. n \<le> i \<and> i < n + k \<longrightarrow> pkt_valid gen th (rnd i) b' (data + of_nat (2048 * i))) \<and>
    (\<forall>x. x \<notin> range_of (data + of_nat (2048 * n)) (2048 * k) \<longrightarrow> b' x = b x)"
  using assms(4)
proof (induction k arbitrary: n b)
  case (Suc k)
  let ?p = "\<lambda>i. data + of_nat (2048 * i) :: addr"
  from build_packet_valid [OF assms(1-3), of th "rnd n" "?p n" b] obtain b1 where
    b1: "build_packet (nm_addrs gen) (nm_pktlen gen) (nt_cpu th) (rnd n) (?p n) b = Inr b1"
    "pkt_valid gen th (rnd n) b1 (?p n)" "\<forall>x. x \<notin> range_of (?p n) 2048 \<longrightarrow> b1 x = b x" by blast
  have "Suc n + k \<le> 64" using Suc.prems by simp
  from Suc.IH [OF this, of b1] obtain ps b2 where
    b2: "nmgen_build gen th rnd mem data (Suc n) k b1 = Inr (ps, b2)"
    "ps = map (\<lambda>i. pop_virt_to_phys mem (?p i)) [Suc n..<Suc n + k]"
    "\<forall>i. Suc n \<le> i \<and> i < Suc n + k \<longrightarrow> pkt_valid gen th (rnd i) b2 (?p i)"
    "\<forall>x. x \<notin> range_of (?p (Suc n)) (2048 * k) \<longrightarrow> b2 x = b1 x" by blast
  have "range_of (?p n) 2048 \<inter> range_of (?p (Suc n)) (2048 * k) = {}"
    by (rule range_of_disjoint) (use Suc.prems in auto)
  moreover have "range_of (?p n) 42 \<subseteq> range_of (?p n) 2048"
    using range_of_subset [of 0 42 2048 "?p n"] by simp
  ultimately have first: "pkt_valid gen th (rnd n) b2 (?p n)"
    using pkt_valid_cong [of "?p n" b2 b1] b1(2) b2(4) by blast
  have up: "[n..<n + Suc k] = n # [Suc n..<Suc n + k]" by (simp add: upt_rec)
  have r1: "range_of (?p n) 2048 \<subseteq> range_of (?p n) (2048 * Suc k)"
    using range_of_subset [of 0 2048 "2048 * Suc k" "?p n"] by simp
  have "?p (Suc n) = ?p n + of_nat 2048" by (simp add: algebra_simps)
  then have r2: "range_of (?p (Suc n)) (2048 * k) \<subseteq> range_of (?p n) (2048 * Suc k)"
    using range_of_subset [of 2048 "2048 * k" "2048 * Suc k" "?p n"] by (simp only:) simp
  have "b2 x = b x" if "x \<notin> range_of (?p n) (2048 * Suc k)" for x
  proof -
    have "x \<notin> range_of (?p (Suc n)) (2048 * k)" "x \<notin> range_of (?p n) 2048" using that r1 r2 by blast+
    then have "b2 x = b1 x" "b1 x = b x" using b2(4) b1(3) by blast+
    then show ?thesis by (rule trans)
  qed
  moreover have "pkt_valid gen th (rnd i) b2 (?p i)" if "n \<le> i \<and> i < n + Suc k" for i
    using that first b2(3) by (cases "i = n") auto
  moreover have "nmgen_build gen th rnd mem data n (Suc k) b = Inr (pop_virt_to_phys mem (?p n) # ps, b2)"
    using b1(1) b2(1) Suc.prems by (simp add: Let_def)
  ultimately show ?case unfolding up b2(2) by auto
qed (auto)

section \<open>The rounds of a sender\<close>

definition nm_tx_slot :: "nmapi \<Rightarrow> nmgen \<Rightarrow> addr list \<Rightarrow> nat \<Rightarrow> netmap_slot \<Rightarrow> netmap_slot" where
  "nm_tx_slot A gen phys i s = s\<lparr>ns_flags := ns_flags s OR NS_PHY_INDIRECT A, ns_ptr := phys ! i,
     ns_len := word_of_int (nm_pktlen gen)\<rparr>"

lemma nmgen_fill_put_slots:
  "b + k \<le> length phys \<Longrightarrow> nmgen_fill A gen phys ring b k head sl np nb =
    obind (put_slots (nm_ring_next A ring) (nm_tx_slot A gen phys) b k head sl)
      (\<lambda>(sl', h). Inr (h, sl', np + of_nat k, nb + of_nat k * word_of_int (nm_pktlen gen * 8)))"
proof (induction k arbitrary: b head sl np nb)
  case (Suc k)
  then show ?case
    using Suc.IH [of "Suc b"]
    by (simp add: nm_tx_slot_def algebra_simps del: of_int_mult split: sum.splits)
qed simp

lemma nmgen_round_transmits:
  fixes gen :: nmgen and ring :: netmap_ring
  assumes "nm_documented A" "txsync_documented A" "ring_ok ring" "0 \<le> fst (nm_txsync A ring)"
    and "nm_ring_space A (snd (nm_txsync A ring)) \<noteq> 0" "1 \<le> nm_batch gen" "nm_batch gen \<le> 64"
    and "length phys = nat (nm_batch gen)"
  defines "ring1 \<equiv> snd (nm_txsync A ring)"
  defines "n \<equiv> unat (nr_num_slots ring1)" and "h \<equiv> unat (nr_head ring1)"
  defines "k \<equiv> min (unat (nm_ring_space A ring1)) (nat (nm_batch gen))"
  shows "\<exists>th' ring'. nmgen_sender_round A gen phys th ring = Inr (False, th', ring') \<and>
    k \<le> ring_dist n h (unat (nr_tail ring1)) \<and>
    (\<forall>p < n. nr_slot ring' ! p = (if ring_dist n h p < k
       then nm_tx_slot A gen phys (ring_dist n h p) (nr_slot ring1 ! p) else nr_slot ring1 ! p)) \<and>
    unat (nr_head ring') = (h + k) mod n \<and> nt_npkts th' = nt_npkts th + of_nat k"
proof -
  have ok: "ring_ok ring1" using assms(2,3) by (simp add: txsync_documented_def ring1_def)
  have idx: "ring_index n (nm_ring_next A ring1)" and h: "h < n" "length (nr_slot ring1) = n"
    using assms(1) ok by (simp_all add: nm_documented_def ring_ok_def n_def h_def)
  have k: "k \<le> ring_dist n h (unat (nr_tail ring1))"
    using assms(1) ok by (simp add: k_def nm_documented_def n_def h_def)
  then have "k \<le> n" using ring_dist_less [of n h "unat (nr_tail ring1)"] h(1) by simp
  from put_slots_eq [OF idx h(2) _ this, of "nr_head ring1" "nm_tx_slot A gen phys" 0] h(1)
  obtain sl where sl: "put_slots (nm_ring_next A ring1) (nm_tx_slot A gen phys) 0 k
      (nr_head ring1) (nr_slot ring1) = Inr (sl, (nm_ring_next A ring1 ^^ k) (nr_head ring1))"
    and at: "\<forall>p < n. sl ! p = (if ring_dist n h p < k
       then nm_tx_slot A gen phys (ring_dist n h p) (nr_slot ring1 ! p) else nr_slot ring1 ! p)"
    by (auto simp: h_def)
  have "0 + k \<le> length phys" using assms(8) by (simp add: k_def)
  note fill = nmgen_fill_put_slots [OF this, of A gen ring1 "nr_head ring1" "nr_slot ring1" 0 0, unfolded sl]
  let ?sp = "ucast (nm_ring_space A ring1) :: u64"
  have b: "unat (word_of_int (nm_batch gen) :: u64) = nat (nm_batch gen)"
    using assms(6,7) by (intro unat_word_of_int_nowrap) simp_all
  have sp: "?sp \<noteq> 0" using assms(5) by (simp add: word_nat unat_ucast_u32 ring1_def)
  have "unat (if ?sp > word_of_int (nm_batch gen) then word_of_int (nm_batch gen) else ?sp) = k"
    using b by (auto simp: k_def word_nat unat_ucast_u32)
  then have "nmgen_sender_round A gen phys th ring =
    obind (nmgen_fill A gen phys ring1 0 k (nr_head ring1) (nr_slot ring1) 0 0)
      (\<lambda>(head, sl, npkts, nbits).
         Inr (False, th\<lparr>nt_npkts := nt_npkts th + npkts, nt_nbits := nt_nbits th + nbits\<rparr>,
           ring1\<lparr>nr_slot := sl, nr_head := head, nr_cur := head\<rparr>))"
    using assms(4) sp unfolding nmgen_sender_round_def Let_def split_beta ring1_def by simp
  with fill at k ring_index.iterate_mod [OF idx, of "nr_head ring1" k] h(1)
  show ?thesis by (simp add: h_def)
qed

lemma nmgen_sender_init_ok:
  assumes "mem_ok m" "\<not> pm_mutex m" "na_ok (nm_addrs gen)" "42 \<le> nm_pktlen gen" "nm_pktlen gen \<le> 2048"
    and "1 \<le> nm_batch gen" "nm_batch gen \<le> 64" "32 \<le> free_pages m"
    and "unat (pm_num_pages m) * 4096 \<le> unat (pm_size m)" "unat (pm_mem m) + unat (pm_size m) < 2 ^ 64"
  shows "\<exists>b phys bytes' m1. nmgen_sender_init True mp gen th rnd bytes m = Some (Inr (Inr (phys, bytes')), m1) \<and>
    buf_bytes b \<subseteq> free_bytes m \<and> buf_of_mem m b \<and> length phys = nat (nm_batch gen) \<and>
    (\<forall>i < nat (nm_batch gen). phys ! i = pb_paddr b + of_nat (2048 * i) \<and>
       pkt_valid gen th (rnd i) bytes' (pb_vaddr b + of_nat (2048 * i)) \<and>
       span (pb_vaddr b + of_nat (2048 * i)) 2048 \<subseteq> buf_bytes b)"
proof -
  define k where "k = nat (nm_batch gen)"
  have k: "nm_batch gen = int k" "1 \<le> k" "k \<le> 64" using assms(6,7) by (simp_all add: k_def)
  define sz where "sz = (word_of_int (2048 * nm_batch gen) :: u64)"
  have sz: "unat sz = 2048 * k"
    unfolding sz_def using k by (subst unat_word_of_int_nowrap) simp_all
  have need: "pages_needed (unat sz) \<le> 32" using k(3) by (simp add: sz pages_needed_def)
  define b where "b = fill_buf mp m (of_nat (pages_needed (unat sz)))"
  obtain m1 where a: "pop_buf_alloc True mp m sz = Some (Inr b, m1)"
    using pop_buf_alloc_cases [OF assms(1,2), of sz True mp] sz k(3) need assms(8)
    by (simp add: Let_def b_def)
  note d = alloc_put_data [OF assms(1) a]
  have u: "unat (of_nat (pages_needed (unat sz)) :: u64) = pages_needed (unat sz)"
    using need by (intro unat_of_nat_nowrap) simp
  have bm: "buf_of_mem m b" unfolding b_def by (rule buf_of_mem_fill [OF assms(1)]) (use u need assms(8) in simp)
  have bb: "buf_bytes b \<subseteq> free_bytes m"
    using virt.grant [OF assms(1), of "(True, mp, sz)" b m1] a by simp
  have fits: "2048 * k \<le> unat (pb_size b)"
    using d(2) sz k(2) unat_granted_size [OF assms(1), of "of_nat (pages_needed (unat sz))"] u need assms(8)
      pages_needed_least(1) [of "unat sz"] by (simp add: b_def fill_buf_def)
  have v: "pop_virt_to_phys m1 = pop_virt_to_phys m"
  proof -
    from pop_buf_alloc_granted [OF assms(1) a] obtain n where
      "m1 = m\<lparr>pm_alloced_pages := pm_alloced_pages m + n\<rparr>" by metis
    then show ?thesis by (intro ext) (simp add: pop_virt_to_phys_def)
  qed
  have "0 + k \<le> 64" using k(3) by simp
  from nmgen_build_ok [OF assms(3-5) this, of th rnd m1 "pb_vaddr b" bytes] obtain bytes' where
    build: "nmgen_build gen th rnd m1 (pb_vaddr b) 0 k bytes
      = Inr (map (\<lambda>i. pop_virt_to_phys m1 (pb_vaddr b + of_nat (2048 * i))) [0..<0 + k], bytes')"
    and valid: "\<forall>i. 0 \<le> i \<and> i < 0 + k \<longrightarrow> pkt_valid gen th (rnd i) bytes' (pb_vaddr b + of_nat (2048 * i))"
    by blast
  have slot: "pop_virt_to_phys m (pb_vaddr b + of_nat (2048 * i)) = pb_paddr b + of_nat (2048 * i) \<and>
      span (pb_vaddr b + of_nat (2048 * i)) 2048 \<subseteq> buf_bytes b" if "i < k" for i
    using packet_slot [OF assms(1) bm assms(9,10), of i k] that fits by blast
  have "nmgen_sender_init True mp gen th rnd bytes m
      = Some (Inr (Inr (map (\<lambda>i. pop_virt_to_phys m1 (pb_vaddr b + of_nat (2048 * i))) [0..<0 + k], bytes')), m1)"
    unfolding nmgen_sender_init_def sz_def [symmetric] k_def [symmetric] Let_def using a build d(1) by simp
  then show ?thesis
    unfolding k_def [symmetric] using bb bm valid slot
    by (intro exI [of _ b] exI conjI) (assumption | simp add: v del: of_nat_mult)+
qed

section \<open>A sender\<close>

text \<open>
  What a round leaves in slot \<open>p\<close> of the ring when it sends \<open>k\<close> packets from position \<open>h\<close>: the next
  valid packet of the thread, in its memory, or the old slot.
\<close>

definition sent_slot :: "nmgen \<Rightarrow> nmgen_thread \<Rightarrow> (nat \<Rightarrow> u16) \<Rightarrow> memory \<Rightarrow> pop_buf \<Rightarrow> nat \<Rightarrow> nat
    \<Rightarrow> netmap_slot \<Rightarrow> netmap_slot \<Rightarrow> bool" where
  "sent_slot gen th rnd bytes b k i old new \<longleftrightarrow>
     (if i < k
      then ns_ptr new = pb_paddr b + of_nat (2048 * i) \<and> unat (ns_len new) = nat (nm_pktlen gen) \<and>
        pkt_valid gen th (rnd i) bytes (pb_vaddr b + of_nat (2048 * i)) \<and>
        span (pb_vaddr b + of_nat (2048 * i)) 2048 \<subseteq> buf_bytes b
      else new = old)"

lemma sent_slotI:
  assumes "ns_ptr new = ns_ptr (nm_tx_slot A gen phys i old)" "ns_len new = ns_len (nm_tx_slot A gen phys i old)"
    and "0 \<le> nm_pktlen gen" "nm_pktlen gen \<le> 2048"
    and "phys ! i = pb_paddr b + of_nat (2048 * i) \<and>
       pkt_valid gen th (rnd i) bytes (pb_vaddr b + of_nat (2048 * i)) \<and>
       span (pb_vaddr b + of_nat (2048 * i)) 2048 \<subseteq> buf_bytes b"
  shows "i < k \<Longrightarrow> sent_slot gen th rnd bytes b k i old new"
  using assms by (simp add: sent_slot_def nm_tx_slot_def unat_word_of_int_nowrap del: of_nat_mult)


definition lab_nmgen :: nmgen where
  "lab_nmgen = nmgen_defaults\<lparr>nm_port := Some ''netmap:eth0'', nm_batch := 2\<rparr>"

definition lab_nmthread :: nmgen_thread where
  "lab_nmthread = \<lparr>nt_cpu = 0, nt_cancel = 0, nt_npkts = 0, nt_nbits = 0\<rparr>"


end
