(* ===== verification/Netmap_Ports.thy ===== *)
theory Netmap_Ports
  imports Pop_Prelude
begin

text \<open>
  The netmap ports of \<^verbatim>\<open>apps/nmgen.c\<close>, \<^verbatim>\<open>apps/nvgen.c\<close> and \<^verbatim>\<open>apps/generator.c\<close>: \<^verbatim>\<open>main\<close> opens one
  port per thread, on the hardware ring with the number of the thread. The first two programs open
  them with libnetmap when they are built with \<^verbatim>\<open>LIBNETMAP\<close> (as \<^verbatim>\<open>apps/Makefile\<close> does) and with the
  functions of \<^verbatim>\<open>netmap_user.h\<close> otherwise; \<^verbatim>\<open>generator\<close> always does the latter.

  netmap is a parameter: the records \<open>libnetmap\<close> and \<open>netmap_user\<close> over an arbitrary type of states.
  A descriptor has the fields that the sources read and write and a rest. The locale \<open>port_opener\<close>
  is the contract that the loop over the threads relies on.
\<close>

section \<open>libnetmap\<close>

record 'x nmport_d =
  reg_nr_mode :: u32
  reg_nr_ringid :: u16
  nmport_rest :: 'x

record ('x, 'n) libnetmap =
  nmport_prepare :: "string \<Rightarrow> 'n \<Rightarrow> 'x nmport_d option \<times> 'n"
  nmport_open_desc :: "'x nmport_d \<Rightarrow> 'n \<Rightarrow> int \<times> 'x nmport_d \<times> 'n"
  nmport_clone :: "'x nmport_d \<Rightarrow> 'n \<Rightarrow> 'x nmport_d option \<times> 'n"
  LIB_NR_REG_ONE_NIC :: u32

text \<open>
  The port of thread \<open>n\<close>; \<open>ds\<close> are the ports opened before it. The left result is the return value of
  \<^verbatim>\<open>main\<close>. The result of \<^verbatim>\<open>nmport_clone\<close> is used without a check.
\<close>

definition lib_port :: "('x, 'n) libnetmap \<Rightarrow> string \<Rightarrow> nat \<Rightarrow> 'x nmport_d list \<Rightarrow> 'n
    \<Rightarrow> ((int + 'x nmport_d) \<times> 'n) outcome" where
  "lib_port L port n ds s =
     (if n = 0
      then (case nmport_prepare L port s of
          (None, s1) \<Rightarrow> Inr (Inl (- 1), s1)
        | (Some d, s1) \<Rightarrow>
            (let (r, d1, s2) = nmport_open_desc L (d\<lparr>reg_nr_mode := LIB_NR_REG_ONE_NIC L\<rparr>) s1
             in if r < 0 then Inr (Inl (- 1), s2) else Inr (Inr d1, s2)))
      else (case nmport_clone L (ds ! 0) s of
          (None, s1) \<Rightarrow> Inl NullDeref
        | (Some d, s1) \<Rightarrow>
            (let (r, d1, s2) = nmport_open_desc L (d\<lparr>reg_nr_ringid := of_nat n\<rparr>) s1
             in if r < 0 then Inr (Inl (- 1), s2) else Inr (Inr d1, s2))))"

text \<open>
  The documented behaviour: a clone has the registration of the original, and opening a descriptor
  keeps what was asked for.
\<close>

definition lib_documented :: "('x, 'n) libnetmap \<Rightarrow> bool" where
  "lib_documented L \<longleftrightarrow>
     (\<forall>d s d' s'. nmport_clone L d s = (Some d', s') \<longrightarrow> reg_nr_mode d' = reg_nr_mode d) \<and>
     (\<forall>d s r d' s'. nmport_open_desc L d s = (r, d', s') \<and> 0 \<le> r \<longrightarrow>
        reg_nr_mode d' = reg_nr_mode d \<and> reg_nr_ringid d' = reg_nr_ringid d)"

lemma lib_documentedD:
  assumes "lib_documented L"
  shows "nmport_clone L d s = (Some d', s') \<Longrightarrow> reg_nr_mode d' = reg_nr_mode d"
    "nmport_open_desc L d s = (r, d', s') \<Longrightarrow> \<not> r < 0 \<Longrightarrow> reg_nr_mode d' = reg_nr_mode d"
    "nmport_open_desc L d s = (r, d', s') \<Longrightarrow> \<not> r < 0 \<Longrightarrow> reg_nr_ringid d' = reg_nr_ringid d"
  using assms unfolding lib_documented_def not_less by blast+

section \<open>netmap_user.h\<close>

record 'x nm_desc =
  req_nr_flags :: u32
  req_nr_ringid :: u16
  desc_rest :: 'x

record ('x, 'n) netmap_user =
  nm_parse :: "string \<Rightarrow> 'x nm_desc \<Rightarrow> int \<times> 'x nm_desc"
  nm_open :: "string \<Rightarrow> u64 \<Rightarrow> 'x nm_desc \<Rightarrow> 'n \<Rightarrow> 'x nm_desc option \<times> 'n"
  zero_desc :: "'x nm_desc"
  NR_REG_MASK :: u32
  NR_REG_ONE_NIC :: u32
  NM_OPEN_NO_MMAP :: u64
  NM_OPEN_IFNAME :: u64
  NM_OPEN_ARG1 :: u64
  NM_OPEN_ARG2 :: u64
  NM_OPEN_ARG3 :: u64
  NM_OPEN_RING_CFG :: u64

text \<open>The request for ring \<open>n\<close>: the register mode is replaced, the other flags stay.\<close>

definition ring_request :: "('x, 'n) netmap_user \<Rightarrow> nat \<Rightarrow> 'x nm_desc \<Rightarrow> 'x nm_desc" where
  "ring_request N n d = d\<lparr>req_nr_flags := (req_nr_flags d AND NOT (NR_REG_MASK N)) OR NR_REG_ONE_NIC N,
     req_nr_ringid := of_nat n\<rparr>"

text \<open>
  The port of thread \<open>n\<close>. The programs differ in the value they return when the name of the port
  cannot be parsed, which \<open>code\<close> computes from the result of \<^verbatim>\<open>nm_parse\<close>.
\<close>

definition user_port :: "('x, 'n) netmap_user \<Rightarrow> (int \<Rightarrow> int) \<Rightarrow> string \<Rightarrow> nat \<Rightarrow> 'x nm_desc list \<Rightarrow> 'n
    \<Rightarrow> ((int + 'x nm_desc) \<times> 'n) outcome" where
  "user_port N code port n ds s =
     (if n = 0
      then let (ret, base) = nm_parse N port (zero_desc N) in
        if ret \<noteq> 0 then Inr (Inl (code ret), s)
        else let flags = NM_OPEN_IFNAME N OR NM_OPEN_ARG1 N OR NM_OPEN_ARG2 N OR NM_OPEN_ARG3 N OR NM_OPEN_RING_CFG N
          in (case nm_open N port flags (ring_request N 0 base) s of
                (None, s1) \<Rightarrow> Inr (Inl (- 1), s1) | (Some d, s1) \<Rightarrow> Inr (Inr d, s1))
      else (case nm_open N port (NM_OPEN_NO_MMAP N) (ring_request N n (ds ! 0)) s of
              (None, s1) \<Rightarrow> Inr (Inl (- 1), s1) | (Some d, s1) \<Rightarrow> Inr (Inr d, s1)))"

lemma user_port_error:
  "user_port N code port n ds s = Inr (Inl c, s') \<Longrightarrow> (\<And>r. r \<noteq> 0 \<Longrightarrow> code r \<noteq> 0) \<Longrightarrow> c \<noteq> 0"
  by (auto simp: user_port_def Let_def split: prod.split_asm option.split_asm if_split_asm)

definition user_documented :: "('x, 'n) netmap_user \<Rightarrow> bool" where
  "user_documented N \<longleftrightarrow> NR_REG_ONE_NIC N AND NR_REG_MASK N = NR_REG_ONE_NIC N"

section \<open>The loop over the threads\<close>

text \<open>
  The structures of the threads are arrays of 32 elements. A failure gives the value to return and
  the ports that are open then.
\<close>

fun open_ports :: "(nat \<Rightarrow> 'd list \<Rightarrow> 'n \<Rightarrow> ((int + 'd) \<times> 'n) outcome) \<Rightarrow> nat \<Rightarrow> 'd list \<Rightarrow> 'n
    \<Rightarrow> (((int \<times> 'd list) + 'd list) \<times> 'n) outcome" where
  "open_ports opener 0 ds s = Inr (Inr ds, s)"
| "open_ports opener (Suc k) ds s =
     (if length ds < 32
      then obind (opener (length ds) ds s) (\<lambda>(r, s1).
        case r of Inl c \<Rightarrow> Inr (Inl (c, ds), s1) | Inr d \<Rightarrow> open_ports opener k (ds @ [d]) s1)
      else Inl OutOfBounds)"

locale port_opener =
  fixes opener :: "nat \<Rightarrow> 'd list \<Rightarrow> 'n \<Rightarrow> ((int + 'd) \<times> 'n) outcome"
    and good :: "nat \<Rightarrow> 'd \<Rightarrow> bool"
  assumes opened_good: "opener (length ds) ds s = Inr (Inr d, s') \<Longrightarrow>
    (\<forall>i < length ds. good i (ds ! i)) \<Longrightarrow> good (length ds) d"
begin

lemma ports_from:
  assumes "open_ports opener k ds s = Inr (Inr ds', s')" "\<forall>i < length ds. good i (ds ! i)"
  shows "length ds' = length ds + k \<and> (\<forall>i < length ds'. good i (ds' ! i)) \<and> (0 < k \<longrightarrow> length ds' \<le> 32)"
  using assms
proof (induction k arbitrary: ds s)
  case (Suc k)
  from Suc.prems(1) obtain r s1 where r: "opener (length ds) ds s = Inr (r, s1)" "length ds < 32"
    by (auto simp: obind_Inr_iff split: if_splits)
  with Suc.prems(1) obtain d where d: "opener (length ds) ds s = Inr (Inr d, s1)" "length ds < 32"
    and rest: "open_ports opener k (ds @ [d]) s1 = Inr (Inr ds', s')" by (cases r) auto
  have "\<forall>i < length (ds @ [d]). good i ((ds @ [d]) ! i)"
    using Suc.prems(2) opened_good [OF d(1)] by (auto simp: nth_append less_Suc_eq)
  from Suc.IH [OF rest this] d(2) show ?case by (cases k) (use rest in auto)
qed simp

lemma all_ports:
  "open_ports opener k [] s = Inr (Inr ds, s') \<Longrightarrow>
    length ds = k \<and> (\<forall>i < k. good i (ds ! i)) \<and> k \<le> 32"
  using ports_from [of k "[]" s ds s'] by (cases "k = 0") auto

lemma failed_from:
  assumes "open_ports opener k ds s = Inr (Inl (c, ds'), s')" "\<forall>i < length ds. good i (ds ! i)"
  shows "length ds' < length ds + k \<and> length ds' < 32 \<and> (\<forall>i < length ds'. good i (ds' ! i)) \<and>
    (\<exists>s0. opener (length ds') ds' s0 = Inr (Inl c, s'))"
  using assms
proof (induction k arbitrary: ds s)
  case (Suc k)
  from Suc.prems(1) obtain r s1 where r: "opener (length ds) ds s = Inr (r, s1)" "length ds < 32"
    by (auto simp: obind_Inr_iff split: if_splits)
  show ?case
  proof (cases r)
    case (Inl e)
    with Suc.prems r show ?thesis by auto
  next
    case (Inr d)
    with Suc.prems(1) r have rest: "open_ports opener k (ds @ [d]) s1 = Inr (Inl (c, ds'), s')" by simp
    have "\<forall>i < length (ds @ [d]). good i ((ds @ [d]) ! i)"
      using Suc.prems(2) opened_good r Inr by (auto simp: nth_append less_Suc_eq)
    from Suc.IH [OF rest this] show ?thesis by simp
  qed
qed simp

end

text \<open>
  What an opened port was asked for. With libnetmap it is one hardware ring, and for the later threads
  the ring with the number of the thread; the first thread has the ring that the name of the port says.
\<close>

definition lib_port_ok :: "('x, 'n) libnetmap \<Rightarrow> nat \<Rightarrow> 'x nmport_d \<Rightarrow> bool" where
  "lib_port_ok L n d \<longleftrightarrow> (lib_documented L \<longrightarrow> reg_nr_mode d = LIB_NR_REG_ONE_NIC L \<and>
     (0 < n \<longrightarrow> reg_nr_ringid d = of_nat n))"

definition user_port_ok :: "('x, 'n) netmap_user \<Rightarrow> string \<Rightarrow> nat \<Rightarrow> 'x nm_desc \<Rightarrow> bool" where
  "user_port_ok N port n d \<longleftrightarrow> (\<exists>fl req s s'. nm_open N port fl req s = (Some d, s') \<and> req_nr_ringid req = of_nat n \<and>
     (user_documented N \<longrightarrow> req_nr_flags req AND NR_REG_MASK N = NR_REG_ONE_NIC N))"

lemma ring_request_mode:
  assumes "user_documented N"
  shows "req_nr_flags (ring_request N n d) AND NR_REG_MASK N = NR_REG_ONE_NIC N"
    "req_nr_flags (ring_request N n d) AND NOT (NR_REG_MASK N) = req_nr_flags d AND NOT (NR_REG_MASK N)"
proof -
  note e = assms [unfolded user_documented_def]
  have "(NR_REG_ONE_NIC N AND NR_REG_MASK N) AND NOT (NR_REG_MASK N) = 0" by (simp add: and.assoc)
  then have z: "NR_REG_ONE_NIC N AND NOT (NR_REG_MASK N) = 0" by (simp only: e)
  show "req_nr_flags (ring_request N n d) AND NR_REG_MASK N = NR_REG_ONE_NIC N"
    using assms by (simp add: ring_request_def user_documented_def bit.conj_disj_distrib2 and.assoc)
  show "req_nr_flags (ring_request N n d) AND NOT (NR_REG_MASK N) = req_nr_flags d AND NOT (NR_REG_MASK N)"
    using z by (simp add: ring_request_def bit.conj_disj_distrib2 and.assoc)
qed

interpretation lib: port_opener "lib_port L port" "lib_port_ok L" for L port
proof
  fix L :: "('x, 'n) libnetmap" and port ds s d s'
  assume o: "lib_port L port (length ds) ds s = Inr (Inr d, s')" and g: "\<forall>i < length ds. lib_port_ok L i (ds ! i)"
  show "lib_port_ok L (length ds) d"
  proof (cases "ds = []")
    case True
    with o show ?thesis
      by (auto simp: lib_port_def lib_port_ok_def dest: lib_documentedD split: prod.splits option.splits if_splits)
  next
    case False
    then have "lib_port_ok L 0 (ds ! 0)" using g by simp
    moreover from o False obtain b s1 r where b: "nmport_clone L (ds ! 0) s = (Some b, s1)"
      "nmport_open_desc L (b\<lparr>reg_nr_ringid := of_nat (length ds)\<rparr>) s1 = (r, d, s')" "\<not> r < 0"
      by (auto simp: lib_port_def split: prod.splits option.splits if_splits)
    ultimately show ?thesis
      using lib_documentedD(1) [OF _ b(1)] lib_documentedD(2,3) [OF _ b(2,3)] by (simp add: lib_port_ok_def)
  qed
qed

interpretation user: port_opener "user_port N code port" "user_port_ok N port" for N code port
proof
  fix N :: "('x, 'n) netmap_user" and code port ds s d s'
  assume "user_port N code port (length ds) ds s = Inr (Inr d, s')"
  then obtain fl base where "nm_open N port fl (ring_request N (length ds) base) s = (Some d, s')"
    by (auto simp: user_port_def Let_def split: prod.splits option.splits if_splits)
  moreover have "req_nr_ringid (ring_request N (length ds) base) = of_nat (length ds)" by (simp add: ring_request_def)
  ultimately show "user_port_ok N port (length ds) d"
    using ring_request_mode(1) unfolding user_port_ok_def by blast
qed

section \<open>Instances\<close>

text \<open>A netmap that grants every request, with the numbers of its header files.\<close>

definition lab_libnetmap :: "(unit, unit) libnetmap" where
  "lab_libnetmap = \<lparr>nmport_prepare = (\<lambda>name s. (Some \<lparr>reg_nr_mode = 0, reg_nr_ringid = 0, nmport_rest = ()\<rparr>, s)),
     nmport_open_desc = (\<lambda>d s. (0, d, s)), nmport_clone = (\<lambda>d s. (Some d, s)), LIB_NR_REG_ONE_NIC = 4\<rparr>"

definition lab_netmap_user :: "(unit, unit) netmap_user" where
  "lab_netmap_user = \<lparr>nm_parse = (\<lambda>name d. (0, d)), nm_open = (\<lambda>name flags d s. (Some d, s)),
     zero_desc = \<lparr>req_nr_flags = 0, req_nr_ringid = 0, desc_rest = ()\<rparr>,
     NR_REG_MASK = 0xf, NR_REG_ONE_NIC = 4, NM_OPEN_NO_MMAP = 0x040000, NM_OPEN_IFNAME = 0x080000,
     NM_OPEN_ARG1 = 0x100000, NM_OPEN_ARG2 = 0x200000, NM_OPEN_ARG3 = 0x400000, NM_OPEN_RING_CFG = 0x800000\<rparr>"

lemma lab_netmap_documented: "lib_documented lab_libnetmap" "user_documented lab_netmap_user"
  by (simp_all add: lib_documented_def lab_libnetmap_def user_documented_def lab_netmap_user_def)

lemma lab_port:
  "\<exists>d. lib_port lab_libnetmap port n ds s = Inr (Inr d, s)"
  "\<exists>d. user_port lab_netmap_user code port n es s = Inr (Inr d, s)"
  by (simp_all add: lib_port_def lab_libnetmap_def user_port_def lab_netmap_user_def Let_def)

lemma lab_open_ports:
  assumes "\<And>n ds. \<exists>d. opener n ds s = Inr (Inr d, s)"
  shows "length ds + k \<le> 32 \<Longrightarrow> \<exists>ds'. open_ports opener k ds s = Inr (Inr ds', s)"
proof (induction k arbitrary: ds)
  case (Suc k)
  obtain d where "opener (length ds) ds s = Inr (Inr d, s)" using assms by blast
  with Suc.IH [of "ds @ [d]"] Suc.prems show ?case by simp
qed simp

end
