(* ===== verification/Nmgen_Main.thy ===== *)
theory Nmgen_Main
  imports C_Print Nmgen Pop_System Netmap_Ports Lifecycle
begin

text \<open>
  \<^verbatim>\<open>main\<close> of \<^verbatim>\<open>apps/nmgen.c\<close>: the command line, the region of pop memory, the netmap ports, and the
  calls that create the threads, wait for them and release the region.
\<close>

section \<open>The report of the configuration\<close>

text \<open>
  The lines of \<^verbatim>\<open>print_nmgen_info\<close>. The interval is a \<^verbatim>\<open>float\<close> in the code; what \<^verbatim>\<open>%f\<close> prints for it
  in seconds is the argument \<open>show_sec\<close>.
\<close>

definition nmgen_info_rows :: "(int \<Rightarrow> string) \<Rightarrow> nmgen \<Rightarrow> (string \<times> string) list" where
  "nmgen_info_rows show_sec gen = (let na = nm_addrs gen in
     [(''netmap port (-p):    '', case nm_port gen of Some p \<Rightarrow> p | None \<Rightarrow> ''(null)''),
      (''pci (-P):            '', show_pci (nm_pci gen)),
      (''mode (-m):           '', if nm_mode gen = NMGEN_MODE_TX then ''tx'' else ''rx''),
      (''pktlen (-l):         '', show_int (nm_pktlen gen)),
      (''ncpus (-n):          '', show_int (nm_ncpus gen)),
      (''batch (-b):          '', show_int (nm_batch gen)),
      (''interval (-i):       '', show_sec (nm_interval gen)),
      (''timeout (-t):        '', show_int (nm_timeout gen)),
      (''dstip (-d):          '', inet_ntop (na_dstip na)),
      (''srcip (-s):          '', inet_ntop (na_srcip na)),
      (''dstmac (-D):         '', print_mac (na_dstmac na)),
      (''srcmac (-S):         '', print_mac (na_srcmac na))])"

definition print_nmgen_info :: "(int \<Rightarrow> string) \<Rightarrow> nmgen \<Rightarrow> string" where
  "print_nmgen_info show_sec gen =
     println ''================ nmgen ================'' @
     print_rows (nmgen_info_rows show_sec gen) @
     println ''=======================================''"

text \<open>Addresses are read as they are printed.\<close>

lemma split_dots_word: "CHR ''.'' \<notin> set w \<Longrightarrow> split_dots w = [w]"
  by (induction w) auto

lemma split_dots_append: "CHR ''.'' \<notin> set w \<Longrightarrow> split_dots (w @ CHR ''.'' # s) = w # split_dots s"
  by (induction w) auto

lemma octet_ok_to_dec:
  assumes "n < 256"
  shows "octet_ok (to_dec n)"
proof -
  have z: "xdigit k = CHR ''0'' \<longleftrightarrow> k = 0" if "k < 10" for k
    using that of_char_xdigit [of k] by (auto dest: arg_cong [of _ _ of_char])
  have one: "to_dec k = [xdigit k]" if "k < 10" for k
    using that by (simp add: to_dec.simps [of k])
  consider "n < 10" | "\<not> n < 10" "n div 10 < 10" "0 < n div 10"
    | "\<not> n < 10" "\<not> n div 10 < 10" "n div 10 div 10 < 10" "0 < n div 10 div 10" using assms by arith
  then have "length (to_dec n) \<le> 3 \<and> (hd (to_dec n) = CHR ''0'' \<longrightarrow> length (to_dec n) = 1)"
  proof cases
    case 2
    then show ?thesis by (simp add: to_dec.simps [of n] one z)
  next
    case 3
    then show ?thesis by (simp add: to_dec.simps [of n] to_dec.simps [of "n div 10"] one z del: div_mult2_eq)
  qed (simp add: one)
  then show ?thesis
    using assms to_dec_digits [of n] by (simp add: octet_ok_def list_all_iff)
qed

lemma inet_roundtrip:
  assumes "length bs = 4"
  shows "inet_pton (inet_ntop bs) dst = bs"
proof -
  have d: "CHR ''.'' \<notin> set (to_dec n)" for n using to_dec_digits [of n] digit_not_special by blast
  from assms obtain a b c e where bs: "bs = [a, b, c, e]" by (auto simp: length_Suc_conv eval_nat_numeral)
  have "octet_ok (to_dec (unat x))" for x :: u8
    using octet_ok_to_dec unat_u8_less [of x] by simp
  then show ?thesis
    by (simp add: bs inet_ntop_def inet_pton_def split_dots_append split_dots_word d)
qed

lemma mac_roundtrip:
  assumes "length bs = 6" "length dst = 6"
  shows "scan_mac (print_mac bs) dst = bs"
proof -
  from assms(1) obtain a b c d e f where bs: "bs = [a, b, c, d, e, f]" by (auto simp: length_Suc_conv eval_nat_numeral)
  have u: "unat x < 2 ^ 64" for x :: u8 using unat_u8_less [of x] by simp
  have go: "scan_x True (hex_pad 2 (unat x) @ CHR '':'' # r) = Some (of_nat (unat x), CHR '':'' # r)" for x :: u8 and r
    by (rule scan_x_hex_pad [OF u]) (simp add: separators)
  have stop: "scan_x True (hex_pad 2 (unat x)) = Some (of_nat (unat x), [])" for x :: u8
    using scan_x_hex_pad [OF u [of x], of "[]" True 2] by simp
  have "ucast (of_nat (unat x) :: u64) = x" for x :: u8 by (simp add: ucast_up_ucast_id is_up)
  then show ?thesis
    using assms(2) by (simp add: bs print_mac_def scan_mac_def Let_def go stop)
qed



section \<open>The program\<close>

text \<open>The structure of thread \<open>n\<close>, zeroed and filled by the loop of \<^verbatim>\<open>main\<close>.\<close>

definition nmgen_thread_init :: "nat \<Rightarrow> nmgen_thread" where
  "nmgen_thread_init n = \<lparr>nt_cpu = int n, nt_cancel = 0, nt_npkts = 0, nt_nbits = 0\<rparr>"

text \<open>The creation of the threads, the wait for the end, and the joins.\<close>

definition nmgen_spawn :: "nmgen \<Rightarrow> nat \<Rightarrow> op list" where
  "nmgen_spawn gen n =
     (if nm_mode gen = NMGEN_MODE_TX then [Create (Ths n) (Nmgen_sender_body n)]
      else if nm_mode gen = NMGEN_MODE_RX then [Create (Ths n) (Nmgen_receiver_body n)]
      else []) @ [Pause]"

definition nmgen_ops :: "nmgen \<Rightarrow> op list" where
  "nmgen_ops gen =
     concat (map (nmgen_spawn gen) [0..<nat (nm_ncpus gen)]) @
     [Create Ctid (Count_thread (nm_ncpus gen))] @
     (if nm_timeout gen \<noteq> 0 then [Pause, Raise] else []) @
     [Join Ctid] @ map (\<lambda>n. Join (Ths n)) [0..<nat (nm_ncpus gen)] @
     [Exit_region, Return]"

text \<open>
  The whole of \<^verbatim>\<open>main\<close>. The left result is a return value; the right one is the state in which the
  threads are created, after which \<^verbatim>\<open>main\<close> makes the calls of \<open>nmgen_ops\<close> and returns 0. \<open>opener\<close> opens
  the port of a thread, \<open>sig\<close> is whether the signal handler could be installed.
\<close>

definition nmgen_main :: "'s sysif \<Rightarrow> (string \<Rightarrow> nat \<Rightarrow> 'd list \<Rightarrow> 'n \<Rightarrow> ((int + 'd) \<times> 'n) outcome) \<Rightarrow> nat option
    \<Rightarrow> (string \<Rightarrow> int option) \<Rightarrow> bool \<Rightarrow> string list \<Rightarrow> 's \<Rightarrow> 'n
    \<Rightarrow> ((int + (nmgen, addr \<times> pop_mem, nmgen_thread, 'd) launch) \<times> 's \<times> 'n) outcome" where
  "nmgen_main S opener aff scan_usec sig argv s ns =
     (case nmgen_args (count_online_cpus aff) scan_usec argv of
        Inl r \<Rightarrow> Inr (Inl r, s, ns)
      | Inr gen \<Rightarrow>
          obind (pop_mem_init S (nm_pci gen) 0 s) (\<lambda>(m, s1).
            case m of
              Inl e \<Rightarrow> Inr (Inl (- 1), s1, ns)
            | Inr mem \<Rightarrow>
                if \<not> sig then Inr (Inl (- 1), s1, ns)
                else obind (open_ports (opener (case nm_port gen of Some p \<Rightarrow> p | None \<Rightarrow> ''''))
                              (nat (nm_ncpus gen)) [] ns) (\<lambda>(q, ns1).
                  case q of
                    Inl f \<Rightarrow> Inr (Inl (- 1), s1, ns1)
                  | Inr ds \<Rightarrow> Inr (Inr \<lparr>la_gen = gen, la_mem = mem,
                                  la_ths = map nmgen_thread_init [0..<nat (nm_ncpus gen)], la_ports = ds, la_caught = False,
                                  la_ops = nmgen_ops gen, la_ret = 0\<rparr>,
                                s1, ns1))))"

section \<open>The order of the calls\<close>

definition nmgen_worker :: "nmgen \<Rightarrow> nat \<Rightarrow> body" where
  "nmgen_worker gen n = (if nm_mode gen = NMGEN_MODE_TX then Nmgen_sender_body n else Nmgen_receiver_body n)"

lemma nmgen_spawn_eq:
  assumes "nm_mode gen = NMGEN_MODE_TX \<or> nm_mode gen = NMGEN_MODE_RX"
  shows "nmgen_spawn gen = (\<lambda>n. Create (Ths n) (nmgen_worker gen n) # [Pause])"
  using assms by (auto simp: nmgen_spawn_def nmgen_worker_def NMGEN_MODE_TX_def NMGEN_MODE_RX_def)

lemma nmgen_disciplined:
  assumes "nm_mode gen = NMGEN_MODE_TX \<or> nm_mode gen = NMGEN_MODE_RX" "0 < nm_ncpus gen"
  shows "disciplined E (nmgen_ops gen) live_start"
  using assms(2) counted_disciplined [where B = "nmgen_worker gen" and N = "nat (nm_ncpus gen)" and post = "[Pause]"
    and E = E and stop = "if nm_timeout gen \<noteq> 0 then [Pause, Raise] else []"]
  unfolding nmgen_ops_def nmgen_spawn_eq [OF assms(1)]
  by (simp add: nmgen_worker_def may_use_def live_start_def)

text \<open>The number of threads of a configuration and its mode as the program sets them.\<close>

interpretation nmgen: joined_program "all_created owner"
  "nmgen_ops (gen\<lparr>nm_mode := if tx then NMGEN_MODE_TX else NMGEN_MODE_RX, nm_ncpus := int (Suc k)\<rparr>)" for owner gen tx k
  by unfold_locales (simp, rule nmgen_disciplined, auto)

lemma nmgen_as_started:
  assumes "nm_mode gen = NMGEN_MODE_TX \<or> nm_mode gen = NMGEN_MODE_RX" "0 < nm_ncpus gen"
  shows "gen\<lparr>nm_mode := if nm_mode gen = NMGEN_MODE_TX then NMGEN_MODE_TX else NMGEN_MODE_RX,
    nm_ncpus := int (Suc (nat (nm_ncpus gen) - 1))\<rparr> = gen"
  using assms by (auto intro!: nmgen.equality)

section \<open>From the command line to the threads\<close>

lemma nmgen_main_eval:
  assumes "nmgen_args (count_online_cpus aff) su argv = Inr gen" "pop_mem_init S (nm_pci gen) 0 s = Inr (Inr mem, s')"
    and "open_ports (opener (the (nm_port gen))) (nat (nm_ncpus gen)) [] ns = Inr (Inr ds, ns')"
  shows "nmgen_main S opener aff su True argv s ns = Inr (Inr \<lparr>la_gen = gen, la_mem = mem,
    la_ths = map nmgen_thread_init [0..<nat (nm_ncpus gen)], la_ports = ds, la_caught = False,
    la_ops = nmgen_ops gen, la_ret = 0\<rparr>, s', ns')"
proof -
  obtain port where "nm_port gen = Some port"
    using assms(1) by (auto simp: nmgen_args_def split: sum.splits if_splits)
  with assms show ?thesis by (simp add: nmgen_main_def)
qed

lemma nmgen_args_mode:
  assumes "nmgen_args cpus su argv = Inr gen"
  shows "nm_mode gen = NMGEN_MODE_TX \<or> nm_mode gen = NMGEN_MODE_RX"
  using nmgen_args_ok [of cpus su argv] assms by (auto simp: nmgen_ok_def)


definition lab_nmgen_argv :: "string list" where
  "lab_nmgen_argv = [''-P'', ''17:00.0'', ''-p'', ''netmap:eth0'', ''-n'', ''2'']"

lemma lab_nmgen_args:
  "nmgen_args (count_online_cpus (Some 8)) su lab_nmgen_argv
     = Inr (nmgen_defaults\<lparr>nm_pci := Some ''17:00.0'', nm_port := Some ''netmap:eth0'', nm_ncpus := 2\<rparr>)"
proof -
  have "atoi ''2'' = 2" by code_simp
  then show ?thesis
    by (simp add: nmgen_args_def lab_nmgen_argv_def nmgen_opt_def strncmp_eq_def, simp add: nmgen_defaults_def
        NMGEN_MODE_TX_def NMGEN_MODE_RX_def)
qed


end
