(* ===== verification/Nvgen.thy ===== *)
theory Nvgen
  imports Netmap_Io Nvme_Io Packets C_Getopt Counters
begin

text \<open>
  \<^verbatim>\<open>apps/nvgen.c\<close>: packets are read from an NVMe device into a ring of 256 slots of 2048 bytes
  by one thread and handed to netmap by another.

  Modelled are the ring between the threads, the set-up of a thread, one round of each thread body
  with every guard, the interleaving of the rounds of the two threads that share a ring, the
  receiver, and the command line. The rest of \<^verbatim>\<open>main\<close> and its report of the configuration are in the
  theory \<open>Nvgen_Main\<close>; the affinity calls are not modelled.
\<close>

section \<open>Structures\<close>

definition SLOT_NUM :: nat where "SLOT_NUM = 256"
definition NVGEN_MODE_TX :: int where "NVGEN_MODE_TX = 0"
definition NVGEN_MODE_RX :: int where "NVGEN_MODE_RX = 1"

record nvgen =
  g_pci :: "string option"
  g_mode :: int
  g_ncpus :: int
  g_port :: "string option"
  g_batch :: int
  g_nvme :: "string option"
  g_nvbatch :: int
  g_walk :: int
  g_lba_start :: u64
  g_lba_end :: u64
  g_interval :: int
  g_timeout :: int

record nvgen_ring =
  r_head :: u32
  r_tail :: u32
  r_mask :: u32

record nvgen_thread =
  th_cpu :: int
  th_lba_start :: u64
  th_lba_end :: u64
  th_ring :: nvgen_ring
  th_buf :: addr
  th_cancel :: int
  th_npkts :: u64
  th_nbits :: u64
  th_nbytes :: u64

section \<open>The ring between the threads\<close>

definition nvgen_ring_init :: nvgen_ring where
  "nvgen_ring_init = \<lparr>r_head = 0, r_tail = 0, r_mask = of_nat SLOT_NUM - 1\<rparr>"

definition ring_empty :: "nvgen_ring \<Rightarrow> bool" where
  "ring_empty r \<longleftrightarrow> r_head r = r_tail r"

definition ring_full :: "nvgen_ring \<Rightarrow> bool" where
  "ring_full r \<longleftrightarrow> (r_head r + 1) AND r_mask r = r_tail r"

definition ring_write_next :: "nvgen_ring \<Rightarrow> u32 \<Rightarrow> u32" where
  "ring_write_next r head = (head + 1) AND r_mask r"

definition ring_write_next_batch :: "nvgen_ring \<Rightarrow> u32 \<Rightarrow> u32 \<Rightarrow> u32" where
  "ring_write_next_batch r head batch = (head + batch) AND r_mask r"

definition ring_read_next :: "nvgen_ring \<Rightarrow> u32 \<Rightarrow> u32" where
  "ring_read_next r tail = (tail + 1) AND r_mask r"

text \<open>
  The macro \<^verbatim>\<open>ring_read_avail\<close> compares an unsigned difference with zero; the branch that would
  add \<^verbatim>\<open>SLOT_NUM\<close> is never taken.
\<close>

definition ring_read_avail :: "nvgen_ring \<Rightarrow> u32" where
  "ring_read_avail r =
     (if r_head r - r_tail r < 0 then r_head r - r_tail r + of_nat SLOT_NUM else r_head r - r_tail r)"

definition ring_write_avail :: "nvgen_ring \<Rightarrow> u32" where
  "ring_write_avail r =
     (let remain = sint (r_tail r - r_head r) in
      if remain = 0 then of_nat SLOT_NUM
      else if remain < 0 then word_of_int (remain + (int SLOT_NUM - 1))
      else word_of_int remain)"

section \<open>The threads\<close>

text \<open>\<^const>\<open>None\<close> when the allocation does not return; the result is the return value.\<close>

definition nvgen_init_thread_body ::
    "bool \<Rightarrow> addr \<Rightarrow> nvgen \<Rightarrow> nvgen_thread \<Rightarrow> pop_mem \<Rightarrow> (int \<times> nvgen_thread \<times> pop_mem) option" where
  "nvgen_init_thread_body mo mp gen th m =
     (let th1 = th\<lparr>th_lba_start := split_start (g_lba_end gen) (word_of_int (g_ncpus gen)) (word_of_int (th_cpu th)),
                   th_lba_end := split_end (g_lba_end gen) (word_of_int (g_ncpus gen)) (word_of_int (th_cpu th))\<rparr>
      in case pop_buf_alloc mo mp m (of_nat (2048 * SLOT_NUM)) of
           None \<Rightarrow> None
         | Some (Inl e, m1) \<Rightarrow> Some (- 1, th1, m1)
         | Some (Inr pbuf, m1) \<Rightarrow>
             Some (0, th1\<lparr>th_buf := pop_buf_data (snd (pop_buf_put pbuf (of_nat (2048 * SLOT_NUM)))),
                          th_ring := nvgen_ring_init\<rparr>, m1))"

text \<open>The arrays \<^verbatim>\<open>pkts\<close> and \<^verbatim>\<open>slots\<close>; an index outside them is a fault.\<close>

definition slot_addr :: "nvgen_thread \<Rightarrow> u32 \<Rightarrow> addr outcome" where
  "slot_addr th i = (if unat i < SLOT_NUM then Inr (th_buf th + of_nat (2048 * unat i)) else Inl OutOfBounds)"

text \<open>
  The loop that fills netmap slots: \<open>k\<close> packets from \<open>tail\<close> of the ring to \<open>head\<close> of the netmap
  ring. \<open>bytes\<close> is the memory; the counters are those of one round.
\<close>

fun netmap_fill :: "nmapi \<Rightarrow> pop_mem \<Rightarrow> memory \<Rightarrow> nvgen_thread \<Rightarrow> netmap_ring \<Rightarrow> nat \<Rightarrow> u32 \<Rightarrow> u32
    \<Rightarrow> netmap_slot list \<Rightarrow> u64 \<Rightarrow> u64 \<Rightarrow> (u32 \<times> u32 \<times> netmap_slot list \<times> u64 \<times> u64) outcome" where
  "netmap_fill A mem bytes th ring 0 head tail sl npkts nbits = Inr (head, tail, sl, npkts, nbits)"
| "netmap_fill A mem bytes th ring (Suc k) head tail sl npkts nbits =
     (if unat head < length sl
      then obind (slot_addr th tail) (\<lambda>pkt.
        let slot = (sl ! unat head)
              \<lparr>ns_flags := ns_flags (sl ! unat head) OR NS_PHY_INDIRECT A,
               ns_ptr := pop_virt_to_phys mem pkt,
               ns_len := ucast (get_pktlen_from_desc bytes pkt 2048)\<rparr>
        in netmap_fill A mem bytes th ring k (nm_ring_next A ring head) (ring_read_next (th_ring th) tail)
             (sl[unat head := slot]) (npkts + 1) (nbits + push_bit 3 (ucast (ns_len slot))))
      else Inl OutOfBounds)"

text \<open>
  One round of \<^verbatim>\<open>nvgen_sender_netmap_body\<close>. The first result is true when the thread leaves
  its loop. The comparison with \<^verbatim>\<open>gen->batch\<close> is unsigned.
\<close>

definition nvgen_netmap_round :: "nmapi \<Rightarrow> nvgen \<Rightarrow> pop_mem \<Rightarrow> memory \<Rightarrow> nvgen_thread \<Rightarrow> netmap_ring
    \<Rightarrow> (bool \<times> nvgen_thread \<times> netmap_ring) outcome" where
  "nvgen_netmap_round A gen mem bytes th ring =
     (let loaded = ring_read_avail (th_ring th) in
      if loaded < 2 then Inr (False, th, ring)
      else let (ret, ring1) = nm_txsync A ring in
      if ret < 0 then Inr (True, th, ring1)
      else let space = nm_ring_space A ring1 in
      if space = 0 then Inr (False, th, ring1)
      else let space1 = space AND NOT 1;
               batch = (if space1 > word_of_int (g_batch gen) then word_of_int (g_batch gen) else space1);
               batch1 = (if batch > loaded then loaded else batch)
      in obind (netmap_fill A mem bytes th ring1 (unat batch1) (nr_head ring1) (r_tail (th_ring th))
                  (nr_slot ring1) 0 0)
           (\<lambda>(head, tail, sl, npkts, nbits).
              Inr (False,
                th\<lparr>th_ring := (th_ring th)\<lparr>r_tail := tail\<rparr>,
                   th_npkts := th_npkts th + npkts, th_nbits := th_nbits th + nbits\<rparr>,
                ring1\<lparr>nr_slot := sl, nr_head := head, nr_cur := head\<rparr>)))"

text \<open>
  The loop that sends read commands: \<open>k\<close> commands of \<open>nblocks\<close> blocks from \<open>head\<close> of the ring, one
  random number each. \<open>lba\<close> is an \<^verbatim>\<open>unsigned int\<close>.
\<close>

fun unvme_reads :: "nvgen \<Rightarrow> nvgen_thread \<Rightarrow> u32 \<Rightarrow> nat \<Rightarrow> (nat \<Rightarrow> u64) \<Rightarrow> u32 \<Rightarrow> u32
    \<Rightarrow> (nvme_cmd list \<times> u32 \<times> u32) outcome" where
  "unvme_reads gen th nblocks 0 rs head lba = Inr ([], head, lba)"
| "unvme_reads gen th nblocks (Suc k) rs head lba =
     obind (slot_addr th head) (\<lambda>buf.
     obind (nvgen_next_lba (g_walk gen) (rs 0) (ucast lba) (th_lba_start th) (th_lba_end th) (ucast nblocks)) (\<lambda>lba'.
     obind (unvme_reads gen th nblocks k (rs \<circ> Suc)
              (ring_write_next_batch (th_ring th) head (push_bit 1 nblocks)) (ucast lba')) (\<lambda>(cs, head', lba'').
     Inr (\<lparr>cmd_mode = NVME_CMD_READ, cmd_qid = th_cpu th, cmd_buf = buf, cmd_lba = ucast lba,
           cmd_nblocks = nblocks\<rparr> # cs, head', lba''))))"

fun unvme_poll :: "u32 \<Rightarrow> int list \<Rightarrow> u64 \<Rightarrow> u64" where
  "unvme_poll nblocks [] nbytes = nbytes"
| "unvme_poll nblocks (ret # rets) nbytes =
     unvme_poll nblocks rets (if ret = 0 then nbytes + ucast (nblocks * 4096) else nbytes)"

text \<open>
  One round of \<^verbatim>\<open>nvgen_sender_unvme_body\<close>. The first result is true when the thread leaves its
  loop; \<open>rs\<close> are the values of \<^verbatim>\<open>rand\<close>, \<open>rets\<close> the results of the polls.
\<close>

definition nvgen_unvme_round :: "nvgen \<Rightarrow> (nat \<Rightarrow> u64) \<Rightarrow> (nat \<Rightarrow> int) \<Rightarrow> nvgen_thread \<Rightarrow> u32
    \<Rightarrow> (bool \<times> nvme_cmd list \<times> nvgen_thread \<times> u32) outcome" where
  "nvgen_unvme_round gen rs rets th lba =
     (let space = ring_write_avail (th_ring th) in
      if space < 2 then Inr (False, [], th, lba)
      else let space1 = space AND NOT 1;
               batch = (if drop_bit 1 space1 > word_of_int (g_nvbatch gen) then word_of_int (g_nvbatch gen)
                        else drop_bit 1 space1)
      in if g_walk gen \<noteq> NVGEN_WALK_MODE_SEQ \<and> g_walk gen \<noteq> NVGEN_WALK_MODE_RANDOM
         then Inr (True, [], th, lba)
         else let nblocks = (if g_walk gen = NVGEN_WALK_MODE_SEQ then batch else 1);
                  batch1 = (if g_walk gen = NVGEN_WALK_MODE_SEQ then 1 else batch)
         in obind (unvme_reads gen th nblocks (unat batch1) rs (r_head (th_ring th)) lba) (\<lambda>(cs, head, lba').
              Inr (False, cs,
                th\<lparr>th_ring := (th_ring th)\<lparr>r_head := head\<rparr>,
                   th_nbytes := unvme_poll nblocks (map rets [0..<unat batch1]) (th_nbytes th)\<rparr>, lba')))"

text \<open>One round of \<^verbatim>\<open>nvgen_receiver_body\<close>, after the ring was set up.\<close>

definition nvgen_recv_round :: "nmapi \<Rightarrow> nvgen_thread \<Rightarrow> netmap_ring
    \<Rightarrow> (bool \<times> nvgen_thread \<times> netmap_ring) outcome option" where
  "nvgen_recv_round A th ring =
     map_option (\<lambda>x. obind x (\<lambda>(stop, (npkts, nbits), ring').
        Inr (stop, th\<lparr>th_npkts := npkts, th_nbits := nbits\<rparr>, ring')))
       (recv_round A ring (th_npkts th, th_nbits th))"

text \<open>
  The whole bodies. A thread sees what the other one did between its rounds: the transmit thread the
  new \<^verbatim>\<open>head\<close> and memory, the NVMe thread the new \<^verbatim>\<open>tail\<close>. The lists have one element for each
  turn of the loop and end when the thread is cancelled. A failed synchronisation skips the wait at
  the end of the transmit thread.
\<close>

fun nvgen_netmap_loop :: "nmapi \<Rightarrow> nvgen \<Rightarrow> pop_mem \<Rightarrow> (u32 \<times> memory) list \<Rightarrow> nvgen_thread \<Rightarrow> netmap_ring
    \<Rightarrow> (bool \<times> nvgen_thread \<times> netmap_ring) outcome" where
  "nvgen_netmap_loop A gen mem [] th ring = Inr (False, th, ring)"
| "nvgen_netmap_loop A gen mem ((head, bytes) # env) th ring =
     obind (nvgen_netmap_round A gen mem bytes (th\<lparr>th_ring := (th_ring th)\<lparr>r_head := head\<rparr>\<rparr>) ring)
       (\<lambda>(out, th1, ring1). if out then Inr (True, th1, ring1) else nvgen_netmap_loop A gen mem env th1 ring1)"

definition nvgen_sender_netmap_body :: "nmapi \<Rightarrow> nvgen \<Rightarrow> pop_mem \<Rightarrow> (u32 \<times> memory) list \<Rightarrow> nvgen_thread
    \<Rightarrow> netmap_ring \<Rightarrow> (nvgen_thread \<times> netmap_ring) outcome option" where
  "nvgen_sender_netmap_body A gen mem env th ring =
     (case nvgen_netmap_loop A gen mem env th ring of
        Inl f \<Rightarrow> Some (Inl f)
      | Inr (True, th1, ring1) \<Rightarrow> Some (Inr (th1, ring1))
      | Inr (False, th1, ring1) \<Rightarrow> map_option (\<lambda>ring2. Inr (th1, ring2)) (drain_tx A ring1))"

fun nvgen_unvme_loop :: "nvgen \<Rightarrow> (u32 \<times> (nat \<Rightarrow> u64) \<times> (nat \<Rightarrow> int)) list \<Rightarrow> nvgen_thread \<Rightarrow> u32
    \<Rightarrow> (nvme_cmd list \<times> nvgen_thread) outcome" where
  "nvgen_unvme_loop gen [] th lba = Inr ([], th)"
| "nvgen_unvme_loop gen ((tail, rs, rets) # env) th lba =
     obind (nvgen_unvme_round gen rs rets (th\<lparr>th_ring := (th_ring th)\<lparr>r_tail := tail\<rparr>\<rparr>) lba)
       (\<lambda>(out, cs, th1, lba1). if out then Inr (cs, th1)
          else obind (nvgen_unvme_loop gen env th1 lba1) (\<lambda>(cs', th2). Inr (cs @ cs', th2)))"

definition nvgen_sender_unvme_body :: "nvgen \<Rightarrow> (u32 \<times> (nat \<Rightarrow> u64) \<times> (nat \<Rightarrow> int)) list \<Rightarrow> nvgen_thread
    \<Rightarrow> (nvme_cmd list \<times> nvgen_thread) outcome" where
  "nvgen_sender_unvme_body gen env th = nvgen_unvme_loop gen env th (ucast (th_lba_start th))"

definition nvgen_receiver_body :: "nmapi \<Rightarrow> bool \<Rightarrow> bool \<Rightarrow> addr \<Rightarrow> addr \<Rightarrow> nat \<Rightarrow> nvgen_thread \<Rightarrow> netmap_ring \<Rightarrow> pop_mem
    \<Rightarrow> (nvgen_thread \<times> netmap_ring \<times> pop_mem) outcome option" where
  "nvgen_receiver_body A mo mo' mp rp rounds th ring m =
     map_option (\<lambda>x. obind x (\<lambda>((npkts, nbits), ring', m').
        Inr (th\<lparr>th_npkts := npkts, th_nbits := nbits\<rparr>, ring', m')))
       (recv_body A mo mo' mp rp rounds (th_npkts th, th_nbits th) ring m)"

section \<open>Lemmas on the ring\<close>

lemma unat_and_255: "unat (w AND 255 :: u32) = unat w mod 256"
proof -
  have "(255 :: u32) = mask 8" by (simp add: mask_eq_exp_minus_1)
  then have "w AND 255 = take_bit 8 w" by (simp only: take_bit_eq_mask)
  then show ?thesis by (simp add: unsigned_take_bit_eq take_bit_eq_mod unat_mod)
qed

definition ring_wf :: "nvgen_ring \<Rightarrow> bool" where
  "ring_wf r \<longleftrightarrow> r_mask r = 255 \<and> unat (r_head r) < 256 \<and> unat (r_tail r) < 256"

lemma ring_init_wf: "ring_wf nvgen_ring_init" "r_mask nvgen_ring_init = 255"
  by (simp_all add: ring_wf_def nvgen_ring_init_def SLOT_NUM_def)

text \<open>Both ends of the ring walk around it; this is the contract of \<open>ring_index\<close>.\<close>

interpretation rd: ring_index SLOT_NUM "ring_read_next nvgen_ring_init"
proof
  show "unat (ring_read_next nvgen_ring_init i) = Suc (unat i) mod SLOT_NUM" if "unat i < SLOT_NUM" for i
    using that by (simp add: ring_read_next_def ring_init_wf unat_and_255 SLOT_NUM_def nowrap)
qed (simp add: SLOT_NUM_def)

interpretation wr: ring_index SLOT_NUM "ring_write_next nvgen_ring_init"
proof
  show "unat (ring_write_next nvgen_ring_init i) = Suc (unat i) mod SLOT_NUM" if "unat i < SLOT_NUM" for i
    using that by (simp add: ring_write_next_def ring_init_wf unat_and_255 SLOT_NUM_def nowrap)
qed (simp add: SLOT_NUM_def)

lemma ring_read_next_init: "ring_wf r \<Longrightarrow> ring_read_next r = ring_read_next nvgen_ring_init"
  by (rule ext) (simp add: ring_read_next_def ring_wf_def ring_init_wf)

lemma read_iterate:
  assumes "ring_wf r" "unat t < 256"
  shows "unat ((ring_read_next r ^^ k) t) = (unat t + k) mod 256"
  using rd.iterate_mod [of t k] assms by (simp add: ring_read_next_init SLOT_NUM_def)

lemma write_batch_nat:
  assumes "ring_wf r" "unat h < 256" "unat k \<le> 256"
  shows "unat (ring_write_next_batch r h k) = (unat h + unat k) mod 256"
  using assms by (simp add: ring_write_next_batch_def ring_wf_def unat_and_255 nowrap)

text \<open>A batch of writes is that many single steps.\<close>

lemma write_batch_iterate:
  assumes "ring_wf r" "unat h < 256" "unat k \<le> 256"
  shows "ring_write_next_batch r h k = (ring_write_next r ^^ unat k) h"
proof -
  have "ring_write_next r = ring_write_next nvgen_ring_init"
    using assms(1) by (intro ext) (simp add: ring_write_next_def ring_wf_def ring_init_wf)
  then show ?thesis
    using wr.iterate_mod [of h "unat k"] write_batch_nat [OF assms] assms(2)
    by (simp add: word_nat SLOT_NUM_def)
qed

text \<open>
  What the two ends believe to be available. \<^verbatim>\<open>ring_read_avail\<close> is right only while the ring does
  not wrap around; \<^verbatim>\<open>ring_write_avail\<close> leaves no slot free when the writer is behind the reader
  or the ring is empty.
\<close>

lemma read_avail_nat:
  assumes "ring_wf r"
  shows "unat (ring_read_avail r) = (if unat (r_tail r) \<le> unat (r_head r)
    then unat (r_head r) - unat (r_tail r) else 2 ^ 32 - (unat (r_tail r) - unat (r_head r)))"
  using assms unat_u32_less [of "r_tail r"]
  by (auto simp: ring_read_avail_def ring_wf_def unat_sub_if' word_nat)

lemma write_avail_nat:
  assumes "ring_wf r"
  shows "unat (ring_write_avail r) =
    (if r_head r = r_tail r then 256
     else if unat (r_tail r) < unat (r_head r) then 255 - (unat (r_head r) - unat (r_tail r))
     else unat (r_tail r) - unat (r_head r))"
proof -
  define h t where "h = unat (r_head r)" and "t = unat (r_tail r)"
  have b: "h < 256" "t < 256" using assms by (simp_all add: ring_wf_def h_def t_def)
  have d: "r_tail r - r_head r = word_of_int (int t - int h)" by (simp add: h_def t_def)
  have s: "sint (r_tail r - r_head r) = int t - int h"
    unfolding d by (rule sint_of_int_u32) (use b in linarith)+
  have "unat (ring_write_avail r) = (if int t - int h = 0 then 256
      else if int t - int h < 0 then nat (int t - int h + 255) else nat (int t - int h))"
    unfolding ring_write_avail_def Let_def s using b
    by (simp add: SLOT_NUM_def unat_word_of_int_nowrap del: of_int_diff of_int_add of_int_of_nat_eq)
  moreover have "r_head r = r_tail r \<longleftrightarrow> h = t" by (simp add: h_def t_def word_nat)
  ultimately show ?thesis
    unfolding h_def [symmetric] t_def [symmetric] using b by auto
qed

section \<open>Transmission\<close>

text \<open>What the transmit loop puts in a slot for the packet in slot \<open>i\<close> of the ring.\<close>

definition pkt_addr :: "nvgen_thread \<Rightarrow> nat \<Rightarrow> addr" where
  "pkt_addr th i = th_buf th + of_nat (2048 * i)"

definition tx_slot :: "nmapi \<Rightarrow> pop_mem \<Rightarrow> memory \<Rightarrow> nvgen_thread \<Rightarrow> nat \<Rightarrow> netmap_slot \<Rightarrow> netmap_slot" where
  "tx_slot A mem bytes th i s = s\<lparr>ns_flags := ns_flags s OR NS_PHY_INDIRECT A,
     ns_ptr := pop_virt_to_phys mem (pkt_addr th i),
     ns_len := ucast (get_pktlen_from_desc bytes (pkt_addr th i) 2048)\<rparr>"

definition pkt_bits :: "memory \<Rightarrow> nvgen_thread \<Rightarrow> nat \<Rightarrow> u64" where
  "pkt_bits bytes th i = push_bit 3 (ucast (ucast (get_pktlen_from_desc bytes (pkt_addr th i) 2048) :: u16))"

lemma netmap_fill_put_slots:
  assumes "ring_wf (th_ring th)" "unat t < 256"
  shows "netmap_fill A mem bytes th ring k head ((ring_read_next (th_ring th) ^^ i) t) sl np nb =
    obind (put_slots (nm_ring_next A ring) (\<lambda>j. tx_slot A mem bytes th ((unat t + j) mod 256)) i k head sl)
      (\<lambda>(sl', h). Inr (h, (ring_read_next (th_ring th) ^^ (i + k)) t, sl', np + of_nat k,
         nb + sum_list (map (\<lambda>j. pkt_bits bytes th ((unat t + j) mod 256)) [i..<i + k])))"
proof (induction k arbitrary: i head sl np nb)
  case (Suc k)
  let ?t = "(ring_read_next (th_ring th) ^^ i) t"
  have "slot_addr th ?t = Inr (pkt_addr th ((unat t + i) mod 256))"
    using read_iterate [OF assms, of i] by (simp add: slot_addr_def pkt_addr_def SLOT_NUM_def)
  moreover have "[i..<i + Suc k] = i # [Suc i..<Suc i + k]" by (simp add: upt_rec)
  ultimately show ?case
    using Suc.IH [of _ "Suc i"]
    by (simp add: Let_def tx_slot_def pkt_bits_def add.assoc split: sum.splits)
qed (simp)

text \<open>The number of packets of a round.\<close>

definition tx_batch :: "nmapi \<Rightarrow> nvgen \<Rightarrow> nvgen_ring \<Rightarrow> netmap_ring \<Rightarrow> u32" where
  "tx_batch A gen r ring1 = min (min (nm_ring_space A ring1 AND NOT 1) (word_of_int (g_batch gen))) (ring_read_avail r)"

lemma and_not_1_le: "w AND NOT 1 \<le> (w :: u32)"
  by (simp add: word_and_le2)

lemma netmap_round_eq:
  assumes "2 \<le> ring_read_avail (th_ring th)" "0 \<le> fst (nm_txsync A ring)"
    and "nm_ring_space A (snd (nm_txsync A ring)) \<noteq> 0"
  shows "nvgen_netmap_round A gen mem bytes th ring =
    (let ring1 = snd (nm_txsync A ring) in
     obind (netmap_fill A mem bytes th ring1 (unat (tx_batch A gen (th_ring th) ring1)) (nr_head ring1)
              (r_tail (th_ring th)) (nr_slot ring1) 0 0)
       (\<lambda>(head, tail, sl, npkts, nbits). Inr (False,
          th\<lparr>th_ring := (th_ring th)\<lparr>r_tail := tail\<rparr>,
             th_npkts := th_npkts th + npkts, th_nbits := th_nbits th + nbits\<rparr>,
          ring1\<lparr>nr_slot := sl, nr_head := head, nr_cur := head\<rparr>)))"
proof -
  have m: "(if b > l then l else b) = min b l" for b l :: u32 by (auto simp: min_def)
  show ?thesis
    using assms unfolding nvgen_netmap_round_def tx_batch_def Let_def m
    by (auto simp: split_beta not_less)
qed


definition lab_nvgen :: nvgen where
  "lab_nvgen = \<lparr>g_pci = None, g_mode = 0, g_ncpus = 1, g_port = Some ''netmap:eth0'', g_batch = 64,
     g_nvme = Some ''01:00.0'', g_nvbatch = 127, g_walk = 0, g_lba_start = 0, g_lba_end = 0xF0000,
     g_interval = 1000000, g_timeout = 0\<rparr>"

definition lab_thread :: "u32 \<Rightarrow> u32 \<Rightarrow> nvgen_thread" where
  "lab_thread head tail = \<lparr>th_cpu = 0, th_lba_start = 0, th_lba_end = 0xF0000,
     th_ring = \<lparr>r_head = head, r_tail = tail, r_mask = 255\<rparr>, th_buf = 0x7F0000000000, th_cancel = 0,
     th_npkts = 0, th_nbits = 0, th_nbytes = 0\<rparr>"


section \<open>The two threads\<close>

text \<open>
  Rounds of the two threads on one ring, in any order. The bytes in memory are those that the device
  has written by then; random numbers and poll results are arbitrary.
\<close>

type_synonym nvgen_state = "nvgen_thread \<times> netmap_ring \<times> u32"

inductive nvgen_step :: "nmapi \<Rightarrow> nvgen \<Rightarrow> pop_mem \<Rightarrow> nvgen_state \<Rightarrow> nvgen_state \<Rightarrow> bool" for A gen mem where
  transmit: "nvgen_netmap_round A gen mem bytes th ring = Inr (False, th', ring') \<Longrightarrow>
    nvgen_step A gen mem (th, ring, lba) (th', ring', lba)"
| reading: "nvgen_unvme_round gen rs rets th lba = Inr (False, cs, th', lba') \<Longrightarrow>
    nvgen_step A gen mem (th, ring, lba) (th', ring, lba')"

inductive_cases nvgen_stepE: "nvgen_step A gen mem s s'"

abbreviation nvgen_reach :: "nmapi \<Rightarrow> nvgen \<Rightarrow> pop_mem \<Rightarrow> nvgen_state \<Rightarrow> nvgen_state \<Rightarrow> bool" where
  "nvgen_reach A gen mem \<equiv> (nvgen_step A gen mem)\<^sup>*\<^sup>*"

text \<open>The commands of a round, one after the other around the ring.\<close>

lemma lba_truncate:
  assumes "lba_inside s e n l" "unat e \<le> 2 ^ 32" "0 < unat n"
  shows "ucast (ucast l :: u32) = l"
proof -
  have "unat l < 2 ^ 32" using assms by (simp add: lba_inside_def)
  then show ?thesis
    by (simp add: word_nat unsigned_ucast_eq unsigned_take_bit_eq take_bit_nat_eq_self)
qed

definition read_cmd_ok :: "nvgen_thread \<Rightarrow> nat \<Rightarrow> nvme_cmd \<Rightarrow> bool" where
  "read_cmd_ok th i c \<longleftrightarrow> cmd_buf c = pkt_addr th i \<and> cmd_nblocks c = 1 \<and> cmd_mode c = NVME_CMD_READ \<and>
     cmd_blocks c \<subseteq> {unat (th_lba_start th) ..< unat (th_lba_end th)}"

lemma unvme_reads_random:
  assumes "ring_wf (th_ring th)" "g_walk gen = NVGEN_WALK_MODE_RANDOM"
    and "lba_ok (th_lba_start th) (th_lba_end th) 1" "unat (th_lba_end th) \<le> 2 ^ 32"
    and "unat head < 256" "lba_inside (th_lba_start th) (th_lba_end th) 1 (ucast lba)"
  shows "\<exists>cs head' lba'. unvme_reads gen th 1 k rs head lba = Inr (cs, head', lba') \<and>
    length cs = k \<and> unat head' = (unat head + 2 * k) mod 256 \<and>
    lba_inside (th_lba_start th) (th_lba_end th) 1 (ucast lba') \<and>
    (\<forall>j < k. read_cmd_ok th ((unat head + 2 * j) mod 256) (cs ! j))"
  using assms(5,6)
proof (induction k arbitrary: rs head lba)
  case (Suc k)
  let ?s = "th_lba_start th" and ?e = "th_lba_end th"
  from nv_random.next_at [OF assms(3) Suc.prems(2), of "rs 0"] obtain l where
    l: "nvgen_next_lba (g_walk gen) (rs 0) (ucast lba) ?s ?e 1 = Inr l" "lba_inside ?s ?e 1 l"
    unfolding assms(2) by blast
  have tr: "ucast (ucast l :: u32) = l" by (rule lba_truncate [OF l(2) assms(4)]) simp
  let ?h = "ring_write_next_batch (th_ring th) head 2"
  have h: "unat ?h = (unat head + 2) mod 256" using write_batch_nat [OF assms(1) Suc.prems(1), of 2] by simp
  then have "unat ?h < 256" by simp
  moreover have "lba_inside ?s ?e 1 (ucast (ucast l :: u32))" using l(2) tr by simp
  ultimately obtain cs head' lba' where
    ih: "unvme_reads gen th 1 k (rs \<circ> Suc) ?h (ucast l) = Inr (cs, head', lba')" "length cs = k"
    "unat head' = (unat ?h + 2 * k) mod 256" "lba_inside ?s ?e 1 (ucast lba')"
    "\<forall>j < k. read_cmd_ok th ((unat ?h + 2 * j) mod 256) (cs ! j)"
    using Suc.IH by meson
  let ?c = "\<lparr>cmd_mode = NVME_CMD_READ, cmd_qid = th_cpu th, cmd_buf = pkt_addr th (unat head),
    cmd_lba = ucast lba, cmd_nblocks = 1\<rparr>"
  have "slot_addr th head = Inr (pkt_addr th (unat head))"
    using Suc.prems(1) by (simp add: slot_addr_def pkt_addr_def SLOT_NUM_def)
  then have eval: "unvme_reads gen th 1 (Suc k) rs head lba = Inr (?c # cs, head', lba')"
    using l(1) ih(1) by simp
  have first: "read_cmd_ok th (unat head) ?c"
    using lba_inside_range [OF Suc.prems(2)] by (simp add: read_cmd_ok_def cmd_blocks_def)
  have "read_cmd_ok th ((unat head + 2 * j) mod 256) ((?c # cs) ! j)" if "j < Suc k" for j
  proof (cases j)
    case 0
    then show ?thesis using first Suc.prems(1) by simp
  next
    case (Suc i)
    then have "read_cmd_ok th ((unat ?h + 2 * i) mod 256) (cs ! i)" using ih(5) that by simp
    then show ?thesis by (simp add: Suc h mod_simps)
  qed
  with eval ih(2,4) show ?case by (simp add: ih(3) h mod_simps)
qed simp

text \<open>What holds in every state that the two threads reach with the random walk.\<close>

definition nv_inv :: "nvgen_thread \<Rightarrow> nvgen_state \<Rightarrow> bool" where
  "nv_inv th0 s \<longleftrightarrow> (case s of (th, ring, lba) \<Rightarrow>
     ring_wf (th_ring th) \<and> even (unat (r_head (th_ring th))) \<and> th_buf th = th_buf th0 \<and>
     th_lba_start th = th_lba_start th0 \<and> th_lba_end th = th_lba_end th0 \<and>
     lba_inside (th_lba_start th0) (th_lba_end th0) 1 (ucast lba))"

definition nv_confined :: "nvgen_thread \<Rightarrow> nvme_ns \<Rightarrow> nvme_cmd \<Rightarrow> bool" where
  "nv_confined th ns c \<longleftrightarrow> cmd_dma ns c \<subseteq> span (th_buf th) (of_nat (2048 * SLOT_NUM)) \<and>
     cmd_blocks c \<subseteq> {unat (th_lba_start th) ..< unat (th_lba_end th)}"

lemma read_cmd_confined:
  assumes "read_cmd_ok th i c" "even i" "i < 256" "ns_blockshift ns = 12"
    and "unat (th_buf th) + 2048 * SLOT_NUM < 2 ^ 64"
  shows "nv_confined th ns c"
proof -
  have "i + 2 \<le> 256" using assms(2,3) by presburger
  moreover have "unat (pkt_addr th i) = unat (th_buf th) + 2048 * i"
  proof -
    have "unat (of_nat (2048 * i) :: addr) = 2048 * i" using assms(3) by (intro unat_of_nat_nowrap) simp
    then show ?thesis
      unfolding pkt_addr_def using assms(3,5) by (subst unat_add_nowrap) (simp_all add: SLOT_NUM_def)
  qed
  ultimately show ?thesis
    using assms(1,4) by (auto simp: nv_confined_def read_cmd_ok_def cmd_dma_def span_def SLOT_NUM_def)
qed

lemma nv_inv_transmit:
  assumes "nv_inv th0 (th, ring, lba)" "nvgen_netmap_round A gen mem bytes th ring = Inr (False, th', ring')"
  shows "nv_inv th0 (th', ring', lba)"
proof -
  have wf: "ring_wf (th_ring th)" "unat (r_tail (th_ring th)) < 256"
    using assms(1) by (simp_all add: nv_inv_def ring_wf_def)
  show ?thesis
  proof (cases "2 \<le> ring_read_avail (th_ring th) \<and> 0 \<le> fst (nm_txsync A ring) \<and>
      nm_ring_space A (snd (nm_txsync A ring)) \<noteq> 0")
    case True
    let ?r = "snd (nm_txsync A ring)"
    let ?k = "unat (tx_batch A gen (th_ring th) ?r)"
    note fill = netmap_fill_put_slots [OF wf, of A mem bytes ?r ?k "nr_head ?r" 0 "nr_slot ?r" 0 0]
    from True have "2 \<le> ring_read_avail (th_ring th)" "0 \<le> fst (nm_txsync A ring)"
      "nm_ring_space A ?r \<noteq> 0" by simp_all
    note eq = netmap_round_eq [OF this, of gen mem bytes, unfolded Let_def]
    have "th_ring th' = (th_ring th)\<lparr>r_tail := (ring_read_next (th_ring th) ^^ ?k) (r_tail (th_ring th))\<rparr> \<and>
        th_buf th' = th_buf th \<and> th_lba_start th' = th_lba_start th \<and> th_lba_end th' = th_lba_end th"
      using assms(2) fill unfolding eq by (auto simp: obind_def split: sum.splits)
    with assms(1) read_iterate [OF wf, of ?k] show ?thesis by (simp add: nv_inv_def ring_wf_def)
  next
    case False
    then have "th' = th"
      using assms(2) by (auto simp: nvgen_netmap_round_def Let_def split_beta not_less split: if_splits)
    with assms(1) show ?thesis by (simp add: nv_inv_def)
  qed
qed

text \<open>A round of the reader in such a state.\<close>

lemma nv_round_random:
  assumes "nv_inv th0 (th, ring, lba)" "g_walk gen = NVGEN_WALK_MODE_RANDOM"
    and "lba_ok (th_lba_start th0) (th_lba_end th0) 1" "unat (th_lba_end th0) \<le> 2 ^ 32"
    and "ns_blockshift ns = 12" "unat (th_buf th0) + 2048 * SLOT_NUM < 2 ^ 64"
  shows "\<exists>cs th' lba'. nvgen_unvme_round gen rs rets th lba = Inr (False, cs, th', lba') \<and>
    nv_inv th0 (th', ring, lba') \<and> (\<forall>c \<in> set cs. nv_confined th0 ns c)"
proof (cases "ring_write_avail (th_ring th) < 2")
  case True
  then show ?thesis using assms(1) by (simp add: nvgen_unvme_round_def)
next
  case False
  let ?h = "r_head (th_ring th)" and ?sp = "ring_write_avail (th_ring th)"
  have inv: "ring_wf (th_ring th)" "even (unat ?h)" "unat ?h < 256" "th_buf th = th_buf th0"
    "th_lba_start th = th_lba_start th0" "th_lba_end th = th_lba_end th0"
    "lba_inside (th_lba_start th) (th_lba_end th) 1 (ucast lba)"
    using assms(1) by (simp_all add: nv_inv_def ring_wf_def)
  obtain k where k: "nvgen_unvme_round gen rs rets th lba
      = obind (unvme_reads gen th 1 k rs ?h lba) (\<lambda>(cs, head, lba'). Inr (False, cs,
          th\<lparr>th_ring := (th_ring th)\<lparr>r_head := head\<rparr>,
             th_nbytes := unvme_poll 1 (map rets [0..<k]) (th_nbytes th)\<rparr>, lba'))"
    using False assms(2)
    by (simp add: nvgen_unvme_round_def Let_def NVGEN_WALK_MODE_SEQ_def NVGEN_WALK_MODE_RANDOM_def)
  from unvme_reads_random [OF inv(1) assms(2) _ _ inv(3,7), of k rs] assms(3,4) inv(5,6)
  obtain cs head' lba' where r: "unvme_reads gen th 1 k rs ?h lba = Inr (cs, head', lba')" "length cs = k"
    "unat head' = (unat ?h + 2 * k) mod 256" "lba_inside (th_lba_start th) (th_lba_end th) 1 (ucast lba')"
    "\<forall>j < k. read_cmd_ok th ((unat ?h + 2 * j) mod 256) (cs ! j)" by auto
  have "even ((unat ?h + 2 * j) mod 256)" for j using inv(2) by (simp add: dvd_mod_iff)
  then have "nv_confined th ns c" if "c \<in> set cs" for c
    using that r(2,5) read_cmd_confined [OF _ _ _ assms(5)] assms(6) inv(4)
    by (metis in_set_conv_nth mod_less_divisor zero_less_numeral)
  moreover have "nv_confined th ns c = nv_confined th0 ns c" for c
    using inv(4-6) by (simp add: nv_confined_def)
  moreover have "even (unat head')" using r(3) inv(2) by (simp add: dvd_mod_iff)
  ultimately show ?thesis
    using inv r(1,3,4) by (simp add: k nv_inv_def ring_wf_def)
qed

lemma nv_inv_reach:
  assumes "nvgen_reach A gen mem s s'" "nv_inv th0 s" "g_walk gen = NVGEN_WALK_MODE_RANDOM"
    and "lba_ok (th_lba_start th0) (th_lba_end th0) 1" "unat (th_lba_end th0) \<le> 2 ^ 32"
    and "unat (th_buf th0) + 2048 * SLOT_NUM < 2 ^ 64"
  shows "nv_inv th0 s'"
  using assms(1,2)
proof (induction rule: rtranclp_induct)
  case (step y z)
  from step.hyps(2) step.IH [OF step.prems] show ?case
  proof (cases rule: nvgen_step.cases)
    case (reading rs rets th lba cs th' lba' ring)
    have "nv_inv th0 (th, ring, lba)" using step.IH [OF step.prems] reading by simp
    from nv_round_random [OF this assms(3-5), of "\<lparr>ns_blocksize = 4096, ns_blockshift = 12\<rparr>" rs rets] assms(6) reading
    show ?thesis by simp
  qed (use step.IH [OF step.prems] nv_inv_transmit in blast)
qed

lemma init_thread_eq:
  assumes "mem_ok m" "nvgen_init_thread_body mo mp gen th m = Some (0, th0, m1)"
  shows "th_ring th0 = nvgen_ring_init \<and> mem_ok m1 \<and>
    span (th_buf th0) (of_nat (2048 * SLOT_NUM)) \<subseteq> free_bytes m - free_bytes m1 \<and>
    unat (th_buf th0) + 2048 * SLOT_NUM < 2 ^ 64 \<and>
    th_lba_start th0 = split_start (g_lba_end gen) (word_of_int (g_ncpus gen)) (word_of_int (th_cpu th)) \<and>
    th_lba_end th0 = split_end (g_lba_end gen) (word_of_int (g_ncpus gen)) (word_of_int (th_cpu th))"
proof -
  let ?sz = "of_nat (2048 * SLOT_NUM) :: u64"
  from assms(2) obtain b where a: "pop_buf_alloc mo mp m ?sz = Some (Inr b, m1)"
    and t: "th_ring th0 = nvgen_ring_init" "th_buf th0 = pop_buf_data (snd (pop_buf_put b ?sz))"
      "th_lba_start th0 = split_start (g_lba_end gen) (word_of_int (g_ncpus gen)) (word_of_int (th_cpu th))"
      "th_lba_end th0 = split_end (g_lba_end gen) (word_of_int (g_ncpus gen)) (word_of_int (th_cpu th))"
    unfolding nvgen_init_thread_body_def Let_def by (auto split: option.splits sum.splits)
  have g: "mem_ok m1 \<and> buf_bytes b \<subseteq> free_bytes m \<and> free_bytes m1 = free_bytes m - buf_bytes b"
    by (rule virt.grant [OF assms(1), of "(mo, mp, ?sz)"]) (simp only: alloc_req_run.simps a)
  note d = alloc_put_data [OF assms(1) a]
  have sp: "span (th_buf th0) ?sz \<subseteq> free_bytes m - free_bytes m1"
    using g d by (auto simp: t(2))
  have sz: "unat ?sz = 524288" by (simp add: SLOT_NUM_def)
  then have "unat (th_buf th0) + 524287 \<in> span (th_buf th0) ?sz" by (simp add: span_def)
  with sp have "unat (th_buf th0) + 524287 < unat (pm_mem m) + unat (pm_num_pages m) * 4096"
    by (auto simp: free_bytes_def free_from_def)
  with mem_ok_bounds(1) [OF assms(1)] have "unat (th_buf th0) + 2048 * SLOT_NUM < 2 ^ 64"
    by (simp add: SLOT_NUM_def)
  with t g sp show ?thesis by blast
qed

text \<open>
  (C12) With the random walk, whatever the interleaving of the two threads, the reader never faults
  and every read command that it sends writes only inside the buffer that the thread took from the
  region and reads only blocks of the thread's range (on a device with blocks of 4096 bytes and
  fewer than \<open>2 ^ 32\<close> blocks, as the program assumes).
\<close>

theorem random_reads_confined:
  assumes "mem_ok m" "nvgen_init_thread_body mo mp gen th m = Some (0, th0, m1)"
    and "g_walk gen = NVGEN_WALK_MODE_RANDOM" "ns_blockshift ns = 12"
    and "lba_ok (th_lba_start th0) (th_lba_end th0) 1" "unat (th_lba_end th0) \<le> 2 ^ 32"
    and "nvgen_reach A gen mem (th0, ring, ucast (th_lba_start th0)) (th', ring', lba)"
  shows "\<exists>cs th'' lba'. nvgen_unvme_round gen rs rets th' lba = Inr (False, cs, th'', lba') \<and>
    (\<forall>c \<in> set cs. cmd_dma ns c \<subseteq> free_bytes m - free_bytes m1 \<and>
       cmd_blocks c \<subseteq> {unat (th_lba_start th0) ..< unat (th_lba_end th0)})"
proof -
  note i = init_thread_eq [OF assms(1,2)]
  have "lba_inside (th_lba_start th0) (th_lba_end th0) 1 (th_lba_start th0)"
    by (rule lba_inside_start [OF assms(5)])
  moreover from this have "ucast (ucast (th_lba_start th0) :: u32) = th_lba_start th0"
    by (rule lba_truncate [OF _ assms(6)]) simp
  ultimately have "nv_inv th0 (th0, ring, ucast (th_lba_start th0))"
    using i ring_init_wf by (simp add: nv_inv_def nvgen_ring_init_def)
  from nv_inv_reach [OF assms(7) this assms(3,5,6)] i have "nv_inv th0 (th', ring', lba)" by blast
  from nv_round_random [OF this assms(3,5,6,4), of rs rets] i obtain cs th'' lba' where
    "nvgen_unvme_round gen rs rets th' lba = Inr (False, cs, th'', lba')"
    "\<forall>c \<in> set cs. nv_confined th0 ns c" by blast
  with i show ?thesis by (auto simp: nv_confined_def)
qed

theorem random_reads_confined_witness:
  "\<exists>th0 m1 cs th'' lba'.
     nvgen_init_thread_body True 0x1000 (lab_nvgen\<lparr>g_walk := 1\<rparr>) (lab_thread 0 0) lab_mem = Some (0, th0, m1) \<and>
     nvgen_unvme_round (lab_nvgen\<lparr>g_walk := 1\<rparr>) (\<lambda>_. 77) (\<lambda>_. 0) th0 (ucast (th_lba_start th0)) = Inr (False, cs, th'', lba') \<and>
     (\<forall>c \<in> set cs. cmd_dma \<lparr>ns_blocksize = 4096, ns_blockshift = 12\<rparr> c \<subseteq> free_bytes lab_mem - free_bytes m1)"
proof -
  let ?g = "lab_nvgen\<lparr>g_walk := 1\<rparr>"
  have "pop_buf_alloc True 0x1000 lab_mem (of_nat (2048 * SLOT_NUM))
      = Some (Inr (fill_buf 0x1000 lab_mem 128), lab_mem\<lparr>pm_alloced_pages := 128\<rparr>)"
    by (subst pop_buf_alloc_cases) (simp_all add: SLOT_NUM_def pages_needed_def)
  then obtain th0 where i: "nvgen_init_thread_body True 0x1000 ?g (lab_thread 0 0) lab_mem
      = Some (0, th0, lab_mem\<lparr>pm_alloced_pages := 128\<rparr>)"
    unfolding nvgen_init_thread_body_def Let_def by simp
  from init_thread_eq [OF lab_mem_ok(1) i] have "th_lba_start th0 = 0" "th_lba_end th0 = 0xF0000"
    by (simp_all add: split_start_def split_end_def lab_nvgen_def lab_thread_def)
  then have l: "lba_ok (th_lba_start th0) (th_lba_end th0) 1" "unat (th_lba_end th0) \<le> 2 ^ 32"
    by (simp_all add: lba_ok_def)
  have w: "g_walk ?g = NVGEN_WALK_MODE_RANDOM" by (simp add: NVGEN_WALK_MODE_RANDOM_def)
  have n: "ns_blockshift \<lparr>ns_blocksize = 4096, ns_blockshift = 12\<rparr> = 12" by simp
  from random_reads_confined [OF lab_mem_ok(1) i w n l rtranclp.rtrancl_refl, of "\<lambda>_. 77" "\<lambda>_. 0"] i
  show ?thesis by blast
qed

lemma lab_run_1: "nvgen_unvme_round lab_nvgen (\<lambda>_. 0) (\<lambda>_. 0) (lab_thread 0 0) 0
  = Inr (False, [\<lparr>cmd_mode = NVME_CMD_READ, cmd_qid = 0, cmd_buf = 0x7F0000000000, cmd_lba = 0, cmd_nblocks = 127\<rparr>],
      (lab_thread 254 0)\<lparr>th_nbytes := 520192\<rparr>, 127)"
  by code_simp

definition lab_filled :: "u32 \<Rightarrow> u32 \<Rightarrow> u64 list \<Rightarrow> netmap_ring" where
  "lab_filled head tail ptrs = lab_ring\<lparr>nr_head := head, nr_cur := head, nr_tail := tail,
     nr_slot := map (\<lambda>p. \<lparr>ns_buf_idx = 0, ns_len = 0, ns_flags = (if p = 0 then 0 else 0x40), ns_ptr = p\<rparr>) ptrs\<rparr>"

lemma lab_run_2: "nvgen_netmap_round lab_tx lab_nvgen lab_mem (\<lambda>_. 0) ((lab_thread 254 0)\<lparr>th_nbytes := 520192\<rparr>) lab_ring
  = Inr (False, (lab_thread 254 2)\<lparr>th_nbytes := 520192, th_npkts := 2\<rparr>,
      lab_filled 2 3 [0x100000000, 0x100000800, 0, 0])"
  by code_simp

lemma lab_run_3: "nvgen_netmap_round lab_tx lab_nvgen lab_mem (\<lambda>_. 0)
    ((lab_thread 254 2)\<lparr>th_nbytes := 520192, th_npkts := 2\<rparr>) (lab_filled 2 3 [0x100000000, 0x100000800, 0, 0])
  = Inr (False, (lab_thread 254 4)\<lparr>th_nbytes := 520192, th_npkts := 4\<rparr>,
      lab_filled 0 1 [0x100000000, 0x100000800, 0x100001000, 0x100001800])"
  by code_simp

lemma lab_run_4: "nvgen_unvme_round lab_nvgen (\<lambda>_. 0) (\<lambda>_. 0) ((lab_thread 254 4)\<lparr>th_nbytes := 520192, th_npkts := 4\<rparr>) 127
  = Inr (False, [\<lparr>cmd_mode = NVME_CMD_READ, cmd_qid = 0, cmd_buf = 0x7F000007F000, cmd_lba = 127, cmd_nblocks = 2\<rparr>],
      (lab_thread 2 4)\<lparr>th_nbytes := 528384, th_npkts := 4\<rparr>, 129)"
proof -
  have "ring_write_avail (th_ring ((lab_thread 254 4)\<lparr>th_nbytes := 520192, th_npkts := 4\<rparr>)) = 5"
    by code_simp
  then show ?thesis
    unfolding nvgen_unvme_round_def Let_def
    by (simp add: lab_nvgen_def lab_thread_def NVGEN_WALK_MODE_SEQ_def NVGEN_WALK_MODE_RANDOM_def
        slot_addr_def SLOT_NUM_def nvgen_next_lba_def ring_write_next_batch_def)
qed

lemma lab_run_5: "nvgen_unvme_round lab_nvgen (\<lambda>_. 0) (\<lambda>_. 0) ((lab_thread 2 4)\<lparr>th_nbytes := 528384, th_npkts := 4\<rparr>) 129
  = Inr (False, [\<lparr>cmd_mode = NVME_CMD_READ, cmd_qid = 0, cmd_buf = 0x7F0000001000, cmd_lba = 129, cmd_nblocks = 1\<rparr>],
      (lab_thread 4 4)\<lparr>th_nbytes := 532480, th_npkts := 4\<rparr>, 130)"
  by code_simp

text \<open>
  (C33) With the sequential walk the threads reach a state in which the next read command runs past
  the end of the thread's buffer; the round after it advances \<^verbatim>\<open>head\<close> onto \<^verbatim>\<open>tail\<close>, so that a
  ring with 254 packets waiting becomes a ring that looks empty.
\<close>

theorem nvgen_run_overruns:
  "\<exists>th1 ring1 lba1 c1 th2 lba2 c2 th3 lba3.
     nvgen_reach lab_tx lab_nvgen lab_mem (lab_thread 0 0, lab_ring, 0) (th1, ring1, lba1) \<and>
     nvgen_unvme_round lab_nvgen (\<lambda>_. 0) (\<lambda>_. 0) th1 lba1 = Inr (False, [c1], th2, lba2) \<and>
     \<not> cmd_dma \<lparr>ns_blocksize = 4096, ns_blockshift = 12\<rparr> c1 \<subseteq> span (th_buf th1) (of_nat (2048 * SLOT_NUM)) \<and>
     ring_dist SLOT_NUM (unat (r_tail (th_ring th2))) (unat (r_head (th_ring th2))) = 254 \<and>
     nvgen_unvme_round lab_nvgen (\<lambda>_. 0) (\<lambda>_. 0) th2 lba2 = Inr (False, [c2], th3, lba3) \<and>
     ring_empty (th_ring th3)"
proof -
  let ?t1 = "(lab_thread 254 0)\<lparr>th_nbytes := 520192\<rparr>"
  let ?t2 = "(lab_thread 254 2)\<lparr>th_nbytes := 520192, th_npkts := 2\<rparr>"
  let ?t3 = "(lab_thread 254 4)\<lparr>th_nbytes := 520192, th_npkts := 4\<rparr>"
  let ?c = "\<lparr>cmd_mode = NVME_CMD_READ, cmd_qid = 0, cmd_buf = 0x7F000007F000, cmd_lba = 127, cmd_nblocks = 2\<rparr> :: nvme_cmd"
  let ?step = "nvgen_step lab_tx lab_nvgen lab_mem"
  have "?step (lab_thread 0 0, lab_ring, 0) (?t1, lab_ring, 127)"
    by (rule nvgen_step.reading [OF lab_run_1])
  moreover have "?step (?t1, lab_ring, 127) (?t2, lab_filled 2 3 [0x100000000, 0x100000800, 0, 0], 127)"
    by (rule nvgen_step.transmit [OF lab_run_2])
  moreover have "?step (?t2, lab_filled 2 3 [0x100000000, 0x100000800, 0, 0], 127)
      (?t3, lab_filled 0 1 [0x100000000, 0x100000800, 0x100001000, 0x100001800], 127)"
    by (rule nvgen_step.transmit [OF lab_run_3])
  ultimately have reach: "nvgen_reach lab_tx lab_nvgen lab_mem (lab_thread 0 0, lab_ring, 0)
      (?t3, lab_filled 0 1 [0x100000000, 0x100000800, 0x100001000, 0x100001800], 127)"
    by (meson rtranclp.rtrancl_into_rtrancl rtranclp.rtrancl_refl)
  have "unat (0x7F000007F000 :: addr) + 4096 \<in> cmd_dma \<lparr>ns_blocksize = 4096, ns_blockshift = 12\<rparr> ?c"
    by (simp add: cmd_dma_def)
  moreover have "unat (0x7F000007F000 :: addr) + 4096 \<notin> span (th_buf ?t3) (of_nat (2048 * SLOT_NUM))"
    by (simp add: span_def lab_thread_def SLOT_NUM_def)
  ultimately have "\<not> cmd_dma \<lparr>ns_blocksize = 4096, ns_blockshift = 12\<rparr> ?c \<subseteq> span (th_buf ?t3) (of_nat (2048 * SLOT_NUM))"
    by blast
  moreover have "ring_dist SLOT_NUM (unat (r_tail (th_ring ((lab_thread 2 4)\<lparr>th_nbytes := 528384, th_npkts := 4\<rparr>))))
      (unat (r_head (th_ring ((lab_thread 2 4)\<lparr>th_nbytes := 528384, th_npkts := 4\<rparr>)))) = 254"
    by (simp add: ring_dist_def SLOT_NUM_def lab_thread_def)
  moreover have "ring_empty (th_ring ((lab_thread 4 4)\<lparr>th_nbytes := 532480, th_npkts := 4\<rparr>))"
    by (simp add: ring_empty_def lab_thread_def)
  ultimately show ?thesis
    using reach lab_run_4 lab_run_5 by blast
qed

section \<open>Reception\<close>

text \<open>
  (C14) One round of the receiver, when the synchronisation succeeds: the loop over the ring ends, the
  counters grow by the packets that were waiting between \<^verbatim>\<open>head\<close> and \<^verbatim>\<open>tail\<close> and by eight
  times the sum of their lengths, and the whole ring has been released to netmap.
\<close>

theorem receive_counts_packets:
  assumes "nm_documented A" "rxsync_documented A" "ring_ok ring" "0 \<le> fst (nm_rxsync A ring)"
  shows "\<exists>ring'. nvgen_recv_round A th ring = Some (Inr (False,
      th\<lparr>th_npkts := th_npkts th + of_nat (length (waiting (snd (nm_rxsync A ring)))),
         th_nbits := th_nbits th + 8 * (\<Sum>s\<leftarrow>waiting (snd (nm_rxsync A ring)). ucast (ns_len s))\<rparr>, ring')) \<and>
    nr_head ring' = nr_tail ring' \<and> waiting ring' = []"
proof -
  let ?r = "snd (nm_rxsync A ring)"
  have ok: "ring_ok ?r" using assms(2,3) by (simp add: rxsync_documented_def)
  have "sum_list (map slot_bits xs) = 8 * (\<Sum>s\<leftarrow>xs. ucast (ns_len s))" for xs
    by (induction xs) (simp_all add: slot_bits_def push_bit_eq_mult algebra_simps)
  moreover obtain c where "recv_drain A ?r 0 0 = Some (Inr (0 + of_nat (length (waiting ?r)),
      0 + sum_list (map slot_bits (waiting ?r)), ?r\<lparr>nr_head := nr_tail ?r, nr_cur := c\<rparr>))"
    using recv_drain_counts [OF assms(1) ok] by blast
  moreover have "waiting (?r\<lparr>nr_head := nr_tail ?r, nr_cur := c\<rparr>) = []"
    using ok by (simp add: waiting_def Let_def ring_ok_def)
  ultimately show ?thesis
    using assms(4) by (simp add: nvgen_recv_round_def recv_round_def split_beta)
qed

definition lab_rx :: nmapi where
  "lab_rx = lab_nm\<lparr>nm_rxsync := (\<lambda>r. (0, if nr_num_slots r = 4 then r\<lparr>nr_tail := 2\<rparr> else r))\<rparr>"

lemma lab_rx_documented: "nm_documented lab_rx" "rxsync_documented lab_rx"
  using lab_nm_documented
  by (simp_all add: nm_documented_def rxsync_documented_def ring_ok_def lab_rx_def)

theorem receive_counts_packets_witness:
  "\<exists>th' ring'. nvgen_recv_round lab_rx (lab_thread 0 0)
     (lab_ring\<lparr>nr_slot := replicate 4 \<lparr>ns_buf_idx = 0, ns_len = 60, ns_flags = 0, ns_ptr = 0\<rparr>\<rparr>)
       = Some (Inr (False, th', ring')) \<and> th_npkts th' = 2 \<and> th_nbits th' = 960"
proof -
  let ?r = "lab_ring\<lparr>nr_slot := replicate 4 \<lparr>ns_buf_idx = 0, ns_len = 60, ns_flags = 0, ns_ptr = 0\<rparr>\<rparr>"
  have "ring_ok ?r" by (simp add: ring_ok_def lab_ring_def)
  moreover have "waiting (snd (nm_rxsync lab_rx ?r)) = [\<lparr>ns_buf_idx = 0, ns_len = 60, ns_flags = 0, ns_ptr = 0\<rparr>, \<lparr>ns_buf_idx = 0, ns_len = 60, ns_flags = 0, ns_ptr = 0\<rparr>]"
    by code_simp
  moreover have "0 \<le> fst (nm_rxsync lab_rx ?r)" by (simp add: lab_rx_def)
  ultimately show ?thesis
    using receive_counts_packets [OF lab_rx_documented, of ?r "lab_thread 0 0"]
    by (auto simp: lab_thread_def)
qed

text \<open>The report thread: packets, bits and bytes.\<close>

definition nvgen_count_thread :: "nvgen \<Rightarrow> nvgen_thread observation list \<Rightarrow> nvgen_thread list
    \<Rightarrow> ((int list \<times> int) list \<times> nvgen_thread list) outcome" where
  "nvgen_count_thread gen = count_thread [th_npkts, th_nbits, th_nbytes] (\<lambda>th. th\<lparr>th_cancel := 1\<rparr>) (g_ncpus gen)"

section \<open>The command line\<close>

definition nvgen_defaults :: nvgen where
  "nvgen_defaults = \<lparr>g_pci = None, g_mode = NVGEN_MODE_TX, g_ncpus = 1, g_port = None, g_batch = 1,
     g_nvme = None, g_nvbatch = 1, g_walk = 0, g_lba_start = 0, g_lba_end = 0xF0000,
     g_interval = 1000000, g_timeout = 0\<rparr>"

definition nvgen_opt :: "(string \<Rightarrow> int option) \<Rightarrow> nvgen \<Rightarrow> char \<times> string \<Rightarrow> int + nvgen" where
  "nvgen_opt scan_usec gen x = (let (ch, optarg) = x in
     if ch = CHR ''p'' then Inr (gen\<lparr>g_port := Some optarg\<rparr>)
     else if ch = CHR ''P'' then
       Inr (gen\<lparr>g_pci := (if strncmp_eq optarg ''hugepage'' 8 then None else Some optarg)\<rparr>)
     else if ch = CHR ''u'' then Inr (gen\<lparr>g_nvme := Some optarg\<rparr>)
     else if ch = CHR ''m'' then
       (if strncmp_eq optarg ''tx'' 2 then Inr (gen\<lparr>g_mode := NVGEN_MODE_TX\<rparr>)
        else if strncmp_eq optarg ''rx'' 2 then Inr (gen\<lparr>g_mode := NVGEN_MODE_RX\<rparr>)
        else Inl (- 1))
     else if ch = CHR ''n'' then
       (if atoi optarg > 32 then Inl (- 1) else Inr (gen\<lparr>g_ncpus := atoi optarg\<rparr>))
     else if ch = CHR ''b'' then
       (if atoi optarg > 64 then Inl (- 1) else Inr (gen\<lparr>g_batch := atoi optarg\<rparr>))
     else if ch = CHR ''e'' then
       (case scan_0x optarg of None \<Rightarrow> Inl (- 1) | Some v \<Rightarrow> Inr (gen\<lparr>g_lba_end := v\<rparr>))
     else if ch = CHR ''B'' then
       (if atoi optarg > 128 then Inl (- 1) else Inr (gen\<lparr>g_nvbatch := atoi optarg\<rparr>))
     else if ch = CHR ''w'' then
       (if strncmp_eq ''seq'' optarg 3 then Inr (gen\<lparr>g_walk := NVGEN_WALK_MODE_SEQ\<rparr>)
        else if strncmp_eq ''random'' optarg 6 then Inr (gen\<lparr>g_walk := NVGEN_WALK_MODE_RANDOM\<rparr>)
        else Inl (- 1))
     else if ch = CHR ''i'' then
       Inr (gen\<lparr>g_interval := (case scan_usec optarg of Some v \<Rightarrow> v | None \<Rightarrow> g_interval gen * 1000000)\<rparr>)
     else if ch = CHR ''t'' then Inr (gen\<lparr>g_timeout := atoi optarg\<rparr>)
     else Inl (- 1))"

text \<open>\<^verbatim>\<open>main\<close> up to the initialisation of libpop; \<open>cpus\<close> is \<^verbatim>\<open>count_online_cpus()\<close>.\<close>

definition nvgen_args :: "int \<Rightarrow> (string \<Rightarrow> int option) \<Rightarrow> string list \<Rightarrow> int + nvgen" where
  "nvgen_args cpus scan_usec argv =
     (case opt_loop (nvgen_opt scan_usec) (getopts ''p:P:u:m:n:b:e:B:w:i:t:h'' argv) nvgen_defaults of
        Inl r \<Rightarrow> Inl r
      | Inr gen \<Rightarrow>
          if g_port gen = None then Inl (- 1)
          else if g_nvme gen = None then Inl (- 1)
          else if g_ncpus gen * 2 > cpus then Inl (- 1)
          else if g_mode gen = NVGEN_MODE_RX then Inr (gen\<lparr>g_ncpus := cpus\<rparr>)
          else Inr gen)"

definition nvgen_ok :: "nvgen \<Rightarrow> bool" where
  "nvgen_ok gen \<longleftrightarrow> g_ncpus gen \<le> 32 \<and> g_batch gen \<le> 64 \<and> g_nvbatch gen \<le> 128 \<and>
     (g_walk gen = NVGEN_WALK_MODE_SEQ \<or> g_walk gen = NVGEN_WALK_MODE_RANDOM) \<and>
     (g_mode gen = NVGEN_MODE_TX \<or> g_mode gen = NVGEN_MODE_RX)"

interpretation nvgen_options: option_parser "nvgen_opt su" nvgen_defaults nvgen_ok "- 1" for su
proof
  show "nvgen_ok nvgen_defaults"
    by (simp add: nvgen_ok_def nvgen_defaults_def NVGEN_WALK_MODE_SEQ_def)
  show "nvgen_ok p'" if "nvgen_ok p" "nvgen_opt su p x = Inr p'" for su p x p'
    using that by (auto simp: nvgen_opt_def nvgen_ok_def Let_def split: prod.splits if_splits option.splits)
  show "r = - 1" if "nvgen_opt su p x = Inl r" for su p x r
    using that by (simp add: nvgen_opt_def Let_def split: prod.splits if_splits option.splits)
qed

lemma nvgen_args_ok:
  "case nvgen_args cpus su argv of Inl r \<Rightarrow> r = - 1
   | Inr gen \<Rightarrow> nvgen_ok (gen\<lparr>g_ncpus := 1\<rparr>) \<and> (g_mode gen = NVGEN_MODE_TX \<longrightarrow> nvgen_ok gen \<and> g_ncpus gen * 2 \<le> cpus) \<and>
       (g_mode gen = NVGEN_MODE_RX \<longrightarrow> g_ncpus gen = cpus)"
  using nvgen_options.parsed [of su "getopts ''p:P:u:m:n:b:e:B:w:i:t:h'' argv"]
  by (auto simp: nvgen_args_def nvgen_ok_def NVGEN_MODE_TX_def NVGEN_MODE_RX_def split: sum.splits)

end
