(* ===== verification/Nvgen_Main.thy ===== *)
theory Nvgen_Main
  imports C_Print Nvgen Pop_System Netmap_Ports Lifecycle
begin

text \<open>
  \<^verbatim>\<open>main\<close> of \<^verbatim>\<open>apps/nvgen.c\<close>. The sender starts two threads per structure and keeps both handles in the
  same field, so that it joins only one of them; the receiver joins all it starts.
\<close>

section \<open>The report of the configuration\<close>

definition nvgen_info_rows :: "(int \<Rightarrow> string) \<Rightarrow> nvgen \<Rightarrow> (string \<times> string) list" where
  "nvgen_info_rows show_sec gen =
     [(''netmap port (-p):    '', case g_port gen of Some p \<Rightarrow> p | None \<Rightarrow> ''(null)''),
      (''pci (-P):            '', show_pci (g_pci gen)),
      (''unvme device (-u):   '', case g_nvme gen of Some p \<Rightarrow> p | None \<Rightarrow> ''(null)''),
      (''mode (-m):           '', if g_mode gen = NVGEN_MODE_TX then ''tx'' else ''rx''),
      (''ncpus (-n):          '', show_int (g_ncpus gen)),
      (''batch (-b):          '', show_int (g_batch gen)),
      (''nvme end lba (-e)    '', show_lx (g_lba_end gen)),
      (''nvme batch (-B):     '', show_int (g_nvbatch gen)),
      (''nvme walk mode (-w): '', if g_walk gen = NVGEN_WALK_MODE_SEQ then ''seq''
                                  else if g_walk gen = NVGEN_WALK_MODE_RANDOM then ''random'' else ''invalid''),
      (''interval (-i):       '', show_sec (g_interval gen)),
      (''timeout (-t):        '', show_int (g_timeout gen))]"

definition print_nvgen_info :: "(int \<Rightarrow> string) \<Rightarrow> nvgen \<Rightarrow> string" where
  "print_nvgen_info show_sec gen =
     println ''================ nvgen ================'' @
     print_rows (nvgen_info_rows show_sec gen) @
     println ''=======================================''"

lemma nvgen_info_roundtrip:
  assumes "g_port gen \<noteq> None" "g_nvme gen \<noteq> None" "\<And>p. g_pci gen = Some p \<Longrightarrow> \<not> strncmp_eq p ''hugepage'' 8"
    and "nvgen_ok gen" "g_mode gen = NVGEN_MODE_TX" "g_ncpus gen * 2 \<le> cpus" "g_lba_start gen = 0"
    and "- (2 ^ 31) \<le> g_ncpus gen" "- (2 ^ 31) \<le> g_batch gen" "- (2 ^ 31) \<le> g_nvbatch gen"
    and "- (2 ^ 31) \<le> g_timeout gen" "g_timeout gen < 2 ^ 31"
    and "su (show_sec (g_interval gen)) = Some (g_interval gen)"
  shows "nvgen_args cpus su (row_argv (nvgen_info_rows show_sec gen)) = Inr gen"
proof -
  note p = pci_roundtrip [of "g_pci gen", OF assms(3)]
  have g: "getopts ''p:P:u:m:n:b:e:B:w:i:t:h'' (row_argv (nvgen_info_rows show_sec gen))
      = row_options (nvgen_info_rows show_sec gen)"
    by (rule getopts_row_argv) (simp add: nvgen_info_rows_def)
  have "opt_loop (nvgen_opt su) (row_options (nvgen_info_rows show_sec gen)) nvgen_defaults = Inr gen"
    using assms(1,2,4-13) p atoi_show_int
    by (auto simp: nvgen_info_rows_def nvgen_opt_def Let_def strncmp_eq_def scan_0x_show_lx nvgen_ok_def nvgen_defaults_def
        NVGEN_WALK_MODE_SEQ_def NVGEN_WALK_MODE_RANDOM_def)
  with g assms(1,2,5,6) show ?thesis
    by (simp add: nvgen_args_def NVGEN_MODE_TX_def NVGEN_MODE_RX_def)
qed

section \<open>The program\<close>

definition nvgen_thread_init :: "nat \<Rightarrow> nvgen_thread" where
  "nvgen_thread_init n = \<lparr>th_cpu = int n, th_lba_start = 0, th_lba_end = 0,
     th_ring = \<lparr>r_head = 0, r_tail = 0, r_mask = 0\<rparr>, th_buf = 0, th_cancel = 0, th_npkts = 0, th_nbits = 0, th_nbytes = 0\<rparr>"

definition nvgen_spawn :: "nvgen \<Rightarrow> nat \<Rightarrow> op list" where
  "nvgen_spawn gen n =
     (if g_mode gen = NVGEN_MODE_TX
      then [Init n, Create (Ths n) (Nvgen_sender_netmap_body n), Create (Ths n) (Nvgen_sender_unvme_body n)]
      else if g_mode gen = NVGEN_MODE_RX then [Create (Ths n) (Nvgen_receiver_body n)]
      else []) @ [Pause]"

definition nvgen_ops :: "nvgen \<Rightarrow> op list" where
  "nvgen_ops gen =
     concat (map (nvgen_spawn gen) [0..<nat (g_ncpus gen)]) @
     [Create Ctid (Count_thread (g_ncpus gen))] @
     (if g_timeout gen \<noteq> 0 then [Pause, Raise] else []) @
     [Join Ctid] @ map (\<lambda>n. Join (Ths n)) [0..<nat (g_ncpus gen)] @
     [Exit_region, Return]"

text \<open>
  The result of \<^verbatim>\<open>unvme_open\<close> is kept without a check. \<open>us\<close> is the state of the NVMe library, \<open>ns\<close> that
  of netmap.
\<close>

definition nvgen_main :: "'s sysif \<Rightarrow> (addr \<times> pop_mem, 'u) unvme_api
    \<Rightarrow> (string \<Rightarrow> nat \<Rightarrow> 'd list \<Rightarrow> 'n \<Rightarrow> ((int + 'd) \<times> 'n) outcome) \<Rightarrow> nat option
    \<Rightarrow> (string \<Rightarrow> int option) \<Rightarrow> bool \<Rightarrow> string list \<Rightarrow> 's \<Rightarrow> 'u \<Rightarrow> 'n
    \<Rightarrow> ((int + (nvgen, (addr \<times> pop_mem) \<times> nvme_ns option, nvgen_thread, 'd) launch) \<times> 's \<times> 'u \<times> 'n) outcome" where
  "nvgen_main S U opener aff scan_usec sig argv s us ns =
     (case nvgen_args (count_online_cpus aff) scan_usec argv of
        Inl r \<Rightarrow> Inr (Inl r, s, us, ns)
      | Inr gen \<Rightarrow>
          obind (pop_mem_init S (g_pci gen) 0 s) (\<lambda>(m, s1).
            case m of
              Inl e \<Rightarrow> Inr (Inl (- 1), s1, us, ns)
            | Inr mem \<Rightarrow>
                let (unvme, us1) = unvme_open U (g_nvme gen) us;
                    us2 = unvme_register_pop_mem U mem us1
                in if \<not> sig then Inr (Inl (- 1), s1, us2, ns)
                else obind (open_ports (opener (case g_port gen of Some p \<Rightarrow> p | None \<Rightarrow> ''''))
                              (nat (g_ncpus gen)) [] ns) (\<lambda>(q, ns1).
                  case q of
                    Inl f \<Rightarrow> Inr (Inl (- 1), s1, us2, ns1)
                  | Inr ds \<Rightarrow> Inr (Inr \<lparr>la_gen = gen, la_mem = (mem, unvme),
                                  la_ths = map nvgen_thread_init [0..<nat (g_ncpus gen)], la_ports = ds, la_caught = False,
                                  la_ops = nvgen_ops gen, la_ret = 0\<rparr>, s1, us2, ns1))))"

section \<open>The receiver\<close>

lemma nvgen_rx_disciplined:
  assumes "g_mode gen = NVGEN_MODE_RX" "0 < g_ncpus gen"
  shows "disciplined E (nvgen_ops gen) live_start"
proof -
  have "nvgen_spawn gen = (\<lambda>n. Create (Ths n) (Nvgen_receiver_body n) # [Pause])"
    using assms(1) by (auto simp: nvgen_spawn_def NVGEN_MODE_TX_def NVGEN_MODE_RX_def)
  then show ?thesis
    using assms(2) counted_disciplined [where B = Nvgen_receiver_body and N = "nat (g_ncpus gen)" and post = "[Pause]"
      and E = E and stop = "if g_timeout gen \<noteq> 0 then [Pause, Raise] else []"]
    unfolding nvgen_ops_def by (simp add: may_use_def live_start_def)
qed

interpretation nvgen_rx: joined_program "all_created owner"
  "nvgen_ops (gen\<lparr>g_mode := NVGEN_MODE_RX, g_ncpus := int (Suc k)\<rparr>)" for owner gen k
  by unfold_locales (simp, rule nvgen_rx_disciplined, auto)

section \<open>The sender\<close>

text \<open>
  An execution of the sender: \<^verbatim>\<open>main\<close> starts all threads, the report thread stops them after a signal,
  and the threads that read the NVMe device end and are joined. The threads that send have not taken
  a step. Thread \<open>2 * n\<close> is the sending thread of structure \<open>n\<close>, thread \<open>2 * n + 1\<close> its reading one.
\<close>

definition tx_thread :: "nat \<Rightarrow> nat \<Rightarrow> thread" where
  "tx_thread i j =
     (if even j then \<lparr>t_body = Nvgen_sender_netmap_body (j div 2), t_phase = Working, t_joined = False\<rparr>
      else if j div 2 < i then \<lparr>t_body = Nvgen_sender_unvme_body (j div 2), t_phase = Ended, t_joined = True\<rparr>
      else \<lparr>t_body = Nvgen_sender_unvme_body (j div 2), t_phase = Working, t_joined = False\<rparr>)"

definition tx_started :: "op list \<Rightarrow> nat \<Rightarrow> proc" where
  "tx_started ops k = \<lparr>pr_ops = ops, pr_threads = map (tx_thread 0) [0..<2 * k],
     pr_tid = (\<lambda>f. case f of Ths n \<Rightarrow> if n < k then Some (2 * n + 1) else None | Ctid \<Rightarrow> None),
     pr_cancel = (\<lambda>_. False), pr_caught = False, pr_region = True, pr_nvme = True, pr_closed = {}\<rparr>"

definition tx_joined :: "op list \<Rightarrow> nat \<Rightarrow> nat \<Rightarrow> proc" where
  "tx_joined ops N i = \<lparr>pr_ops = ops,
     pr_threads = map (tx_thread i) [0..<2 * N] @ [\<lparr>t_body = Count_thread (int N), t_phase = Ended, t_joined = True\<rparr>],
     pr_tid = (\<lambda>f. case f of Ths n \<Rightarrow> if n < N then Some (2 * n + 1) else None | Ctid \<Rightarrow> Some (2 * N)),
     pr_cancel = (\<lambda>n. n < N), pr_caught = True, pr_region = True, pr_nvme = True, pr_closed = {}\<rparr>"

lemma tx_start_step:
  assumes "g_mode gen = NVGEN_MODE_TX"
  shows "proc_run (all_created owner) [Main, Main, Main, Main] (tx_started (nvgen_spawn gen k @ ops) k)
    = Some (Inr (tx_started ops (Suc k)))"
  using assms
  by (auto simp: nvgen_spawn_def tx_started_def tx_thread_def fun_eq_iff less_Suc_eq split: tid_field.splits)

lemma tx_start_all:
  assumes "g_mode gen = NVGEN_MODE_TX" "proc_reach (all_created owner) s0 (tx_started (concat (map (nvgen_spawn gen) [0..<N]) @ ops) 0)"
  shows "k \<le> N \<Longrightarrow> proc_reach (all_created owner) s0 (tx_started (concat (map (nvgen_spawn gen) [k..<N]) @ ops) k)"
proof (induction k)
  case (Suc k)
  then have "[k..<N] = k # [Suc k..<N]" by (simp add: upt_conv_Cons)
  with Suc proc_reach_run [OF tx_start_step [OF assms(1)]] show ?case by simp
qed (use assms(2) in simp)

lemma tx_count_step:
  assumes "0 < N" "stop = [] \<or> stop = [Pause, Raise]"
  shows "proc_run (all_created owner) (Main # map (\<lambda>_. Main) stop @ [Sigint, Turn (2 * N), Turn (2 * N), Main])
    (tx_started ([Create Ctid (Count_thread (int N))] @ stop @ [Join Ctid] @ ops) N) = Some (Inr (tx_joined ops N 0))"
  using assms
  by (auto simp: tx_started_def tx_joined_def thread_turn_def body_accessible_def body_stops_def set_phase_def
      nth_append list_update_append fun_eq_iff split: tid_field.splits)

lemma tx_thread_join:
  "(map (tx_thread i) [0..<2 * N])[Suc (2 * i) := (tx_thread i (Suc (2 * i)))\<lparr>t_phase := Ended, t_joined := True\<rparr>]
    = map (tx_thread (Suc i)) [0..<2 * N]"
  by (rule nth_equalityI) (auto simp: nth_list_update tx_thread_def less_Suc_eq elim!: oddE)

lemma tx_join_step:
  assumes "i < N"
  shows "proc_run (all_created owner) [Turn (2 * i + 1), Turn (2 * i + 1), Main] (tx_joined (Join (Ths i) # ops) N i)
    = Some (Inr (tx_joined ops N (Suc i)))"
proof -
  have th: "tx_thread i (Suc (2 * i)) = \<lparr>t_body = Nvgen_sender_unvme_body i, t_phase = Working, t_joined = False\<rparr>"
    by (simp add: tx_thread_def)
  have "Suc (2 * i) < 2 * N" using assms by simp
  then show ?thesis
    using assms tx_thread_join [of i N]
    by (simp add: tx_joined_def thread_turn_def body_accessible_def body_stops_def set_phase_def th
        nth_append list_update_append)
qed

lemma tx_join_all:
  assumes "proc_reach (all_created owner) s0 (tx_joined (map (\<lambda>n. Join (Ths n)) [0..<N] @ ops) N 0)"
  shows "k \<le> N \<Longrightarrow> proc_reach (all_created owner) s0 (tx_joined (map (\<lambda>n. Join (Ths n)) [k..<N] @ ops) N k)"
proof (induction k)
  case (Suc k)
  then have "[k..<N] = k # [Suc k..<N]" by (simp add: upt_conv_Cons)
  with Suc proc_reach_run [OF tx_join_step [of k N]] show ?case by simp
qed (use assms in simp)

lemma tx_reaches_exit:
  assumes "g_mode gen = NVGEN_MODE_TX" "0 < g_ncpus gen"
  shows "proc_reach (all_created owner) (proc_start (nvgen_ops gen) False)
    (tx_joined [Exit_region, Return] (nat (g_ncpus gen)) (nat (g_ncpus gen)))"
proof -
  let ?E = "all_created owner" and ?s = "proc_start (nvgen_ops gen) False" and ?N = "nat (g_ncpus gen)"
  let ?joins = "map (\<lambda>n. Join (Ths n)) [0..<?N] @ [Exit_region, Return]"
  let ?stop = "if g_timeout gen \<noteq> 0 then [Pause, Raise] else []"
  let ?rest = "[Create Ctid (Count_thread (int ?N))] @ ?stop @ [Join Ctid] @ ?joins"
  have "?s = tx_started (concat (map (nvgen_spawn gen) [0..<?N]) @ ?rest) 0"
    using assms(2) by (auto simp: proc_start_def tx_started_def nvgen_ops_def fun_eq_iff split: tid_field.splits)
  then have "proc_reach ?E ?s (tx_started (concat (map (nvgen_spawn gen) [0..<?N]) @ ?rest) 0)"
    by (metis proc_reach_start)
  from tx_start_all [OF assms(1) this, of ?N] have "proc_reach ?E ?s (tx_started ?rest ?N)" by simp
  from proc_reach_run [OF tx_count_step this] assms(2) have "proc_reach ?E ?s (tx_joined ?joins ?N 0)" by simp
  from tx_join_all [OF this, of ?N] show ?thesis by simp
qed

text \<open>
  (C29) Every sender configuration of \<^verbatim>\<open>nvgen\<close> has an execution in which \<^verbatim>\<open>main\<close> has joined what it has
  a handle for and has called \<^verbatim>\<open>pop_mem_exit\<close> while every thread that sends packets is still at work on
  the region: \<^verbatim>\<open>pthread_create\<close> for the second thread of a structure overwrites \<^verbatim>\<open>ths[n].tid\<close>. The next
  step of any of these threads uses the released region.
\<close>

theorem nvgen_sender_outlives_region:
  assumes "g_mode gen = NVGEN_MODE_TX" "0 < g_ncpus gen"
  shows "\<exists>s. proc_reach (all_created owner) (proc_start (nvgen_ops gen) False) s \<and> pr_ops s = [Return] \<and>
    \<not> pr_region s \<and> (\<forall>n < nat (g_ncpus gen).
      t_body (pr_threads s ! (2 * n)) = Nvgen_sender_netmap_body n \<and> \<not> t_joined (pr_threads s ! (2 * n)) \<and>
      proc_exec (all_created owner) (Turn (2 * n)) s = Some (Inl UseAfterFree))"
proof -
  let ?N = "nat (g_ncpus gen)"
  let ?s = "(tx_joined [Return] ?N ?N)\<lparr>pr_region := False\<rparr>"
  have "proc_exec (all_created owner) Main (tx_joined [Exit_region, Return] ?N ?N) = Some (Inr ?s)"
    by (simp add: tx_joined_def)
  from proc_reach_step [OF tx_reaches_exit [OF assms] this] show ?thesis
    by (intro exI [of _ ?s])
      (auto simp: tx_joined_def tx_thread_def nth_append thread_turn_def body_accessible_def)
qed

theorem nvgen_sender_outlives_region_witness:
  "\<exists>s. proc_reach own_maps (proc_start (nvgen_ops nvgen_defaults) False) s \<and> \<not> pr_region s \<and>
     proc_exec own_maps (Turn 0) s = Some (Inl UseAfterFree)"
  using nvgen_sender_outlives_region [of nvgen_defaults "\<lambda>n. n"]
  by (auto simp: nvgen_defaults_def simp del: proc_exec.simps)

end
