(* ===== verification/Generator.thy ===== *)
theory Generator
  imports Netmap_Io Nvme_Io Packets C_Getopt Counters
begin

text \<open>
  \<^verbatim>\<open>apps/generator.c\<close>: every thread reads packets from an NVMe device into its buffers and puts
  them into the slots of a netmap ring, in the same loop.

  Modelled are the buffers of a thread, one round of \<^verbatim>\<open>thread_body\<close> with its two batch loops and
  the synchronisation, the whole body, the totals of the report thread, the set-up of a thread
  structure and the command line. The reports, the hexadecimal dump of a packet and the rest of
  \<^verbatim>\<open>main\<close> are in the theory \<open>Generator_Main\<close>.
\<close>

section \<open>Structures\<close>

definition MAX_CPUS :: int where "MAX_CPUS = 32"
definition GEN_MAX_BATCH_SIZE :: nat where "GEN_MAX_BATCH_SIZE = 32"
definition MAX_NVBATCH_SIZE :: nat where "MAX_NVBATCH_SIZE = 64"

record generator =
  ge_pci :: "string option"
  ge_nvme :: "string option"
  ge_port :: "string option"
  ge_ncpus :: int
  ge_batch :: int
  ge_nvbatch :: int
  ge_walk :: gen_walk
  ge_lba_start :: u64
  ge_lba_end :: u64
  ge_fake_packet :: int
  ge_hex_dump :: int
  ge_interval :: int
  ge_verbose :: int
  ge_timeout :: int
  ge_bpkts :: u64

record gen_thread =
  gt_cpu :: int
  gt_nmport :: string
  gt_lba_start :: u64
  gt_lba_end :: u64
  gt_npkts :: u64
  gt_nbytes :: u64
  gt_ncmds :: u64
  gt_nbytes_nvme :: u64
  gt_no_slot :: u64
  gt_start :: timeval
  gt_end :: timeval

text \<open>The macro \<^verbatim>\<open>NM_BATCH_TO_NBLOCKS\<close>: the blocks of a batch of packets, at least one.\<close>

definition NM_BATCH_TO_NBLOCKS :: "int \<Rightarrow> nvme_ns \<Rightarrow> u64" where
  "NM_BATCH_TO_NBLOCKS b u =
     (if push_bit 11 b \<ge> int (ns_blocksize u) then word_of_int (drop_bit (ns_blockshift u) (push_bit 11 b)) else 1)"

section \<open>The thread\<close>

text \<open>
  The buffers: one more than there are commands in a batch. The array has 64 elements; the result of
  the allocation is not checked before \<^verbatim>\<open>pop_buf_put\<close> uses it. \<open>mo\<close> gives the answers of
  \<^verbatim>\<open>malloc\<close>.
\<close>

fun gen_bufs :: "(nat \<Rightarrow> bool) \<Rightarrow> addr \<Rightarrow> generator \<Rightarrow> nat \<Rightarrow> nat \<Rightarrow> pop_mem \<Rightarrow> (pop_buf list outcome \<times> pop_mem) option" where
  "gen_bufs mo mp gen n 0 m = Some (Inr [], m)"
| "gen_bufs mo mp gen n (Suc k) m =
     (let sz = word_of_int (2048 * ge_batch gen) :: u64 in
      case pop_buf_alloc (mo n) mp m sz of
        None \<Rightarrow> None
      | Some (r, m1) \<Rightarrow>
          if MAX_NVBATCH_SIZE \<le> n then Some (Inl OutOfBounds, m1)
          else (case r of
              Inl e \<Rightarrow> Some (Inl NullDeref, m1)
            | Inr b \<Rightarrow>
                (case gen_bufs mo mp gen (Suc n) k m1 of
                   None \<Rightarrow> None
                 | Some (x, m2) \<Rightarrow> Some (obind x (\<lambda>bs. Inr (snd (pop_buf_put b sz) # bs)), m2))))"

text \<open>The packet buffer \<^verbatim>\<open>pkts[vb][b]\<close>.\<close>

definition gen_pkt :: "pop_buf list \<Rightarrow> nat \<Rightarrow> nat \<Rightarrow> addr" where
  "gen_pkt bufs vb b = pop_buf_data (bufs ! vb) + of_nat (2048 * b)"

text \<open>The number of packets of command \<open>vb\<close>: the last one may be shorter.\<close>

definition gen_batch :: "generator \<Rightarrow> u64 \<Rightarrow> nat \<Rightarrow> nat \<Rightarrow> nat" where
  "gen_batch gen rest nvbatch vb =
     (if rest = 0 \<or> vb + 1 < nvbatch then nat (ge_batch gen) else unat rest)"

text \<open>The loop that sends the read commands; all of them read the blocks of a full batch.\<close>

fun gen_reads :: "nvme_ns \<Rightarrow> generator \<Rightarrow> gen_thread \<Rightarrow> pop_buf list \<Rightarrow> (nat \<Rightarrow> u64) \<Rightarrow> nat \<Rightarrow> nat \<Rightarrow> u64 \<Rightarrow> u64
    \<Rightarrow> (nvme_cmd list \<times> u64 \<times> u64) outcome" where
  "gen_reads ns gen th bufs rs vb 0 lba nbytes_nvme = Inr ([], lba, nbytes_nvme)"
| "gen_reads ns gen th bufs rs vb (Suc k) lba nbytes_nvme =
     (if vb < length bufs
      then let nblocks = NM_BATCH_TO_NBLOCKS (ge_batch gen) ns in
        obind (gen_next_lba (ge_walk gen) (rs vb) lba (gt_lba_start th) (gt_lba_end th) nblocks) (\<lambda>lba'.
        obind (gen_reads ns gen th bufs rs (Suc vb) k lba' (nbytes_nvme + push_bit (ns_blockshift ns) nblocks))
          (\<lambda>(cs, lba'', nb). Inr (\<lparr>cmd_mode = NVME_CMD_READ, cmd_qid = gt_cpu th,
             cmd_buf = pop_buf_data (bufs ! vb), cmd_lba = lba, cmd_nblocks = ucast nblocks\<rparr> # cs, lba'', nb)))
      else Inl OutOfBounds)"

text \<open>The inner loop that fills the slots from one buffer.\<close>

fun gen_slots :: "nmapi \<Rightarrow> generator \<Rightarrow> pop_mem \<Rightarrow> netmap_ring \<Rightarrow> pop_buf list \<Rightarrow> nat \<Rightarrow> nat \<Rightarrow> nat \<Rightarrow> memory \<Rightarrow> u32
    \<Rightarrow> netmap_slot list \<Rightarrow> u64 \<Rightarrow> u64 \<Rightarrow> (memory \<times> u32 \<times> netmap_slot list \<times> u64 \<times> u64) outcome" where
  "gen_slots A gen mem ring bufs vb b 0 bytes head sl npkts nbytes = Inr (bytes, head, sl, npkts, nbytes)"
| "gen_slots A gen mem ring bufs vb b (Suc k) bytes head sl npkts nbytes =
     (if vb < length bufs \<and> b < GEN_MAX_BATCH_SIZE \<and> unat head < length sl
      then let p = gen_pkt bufs vb b in
        obind (if ge_fake_packet gen \<noteq> 0
               then obind (gen_build_pkt p 1500 (int b) bytes) (\<lambda>m1. Inr (set_pktlen_in_desc p 2048 1500 m1))
               else Inr bytes) (\<lambda>bytes1.
        let slot = (sl ! unat head)
              \<lparr>ns_flags := ns_flags (sl ! unat head) OR NS_PHY_INDIRECT A,
               ns_ptr := pop_virt_to_phys mem p,
               ns_len := ucast (get_pktlen_from_desc bytes1 p 2048)\<rparr>
        in gen_slots A gen mem ring bufs vb (Suc b) k bytes1 (nm_ring_next A ring head) (sl[unat head := slot])
             (npkts + 1) (nbytes + ucast (ns_len slot)))
      else Inl OutOfBounds)"

text \<open>
  The loop over the commands: poll, and fill the slots of those that succeeded. With
  \<^verbatim>\<open>fake_packet\<close> no command was sent and the descriptors that are polled were never set; \<open>rets\<close>
  is arbitrary then, too.
\<close>

fun gen_fill :: "nmapi \<Rightarrow> generator \<Rightarrow> pop_mem \<Rightarrow> netmap_ring \<Rightarrow> pop_buf list \<Rightarrow> u64 \<Rightarrow> nat \<Rightarrow> (nat \<Rightarrow> int) \<Rightarrow> nat \<Rightarrow> nat
    \<Rightarrow> memory \<Rightarrow> u32 \<Rightarrow> netmap_slot list \<Rightarrow> u64 \<Rightarrow> u64 \<Rightarrow> u64
    \<Rightarrow> (memory \<times> u32 \<times> netmap_slot list \<times> u64 \<times> u64 \<times> u64) outcome" where
  "gen_fill A gen mem ring bufs rest nvbatch rets vb 0 bytes head sl npkts nbytes ncmds =
     Inr (bytes, head, sl, npkts, nbytes, ncmds)"
| "gen_fill A gen mem ring bufs rest nvbatch rets vb (Suc k) bytes head sl npkts nbytes ncmds =
     (if rets vb \<noteq> 0
      then gen_fill A gen mem ring bufs rest nvbatch rets (Suc vb) k bytes head sl npkts nbytes ncmds
      else obind (gen_slots A gen mem ring bufs vb 0 (gen_batch gen rest nvbatch vb) bytes head sl npkts nbytes)
        (\<lambda>(bytes1, head1, sl1, npkts1, nbytes1).
           gen_fill A gen mem ring bufs rest nvbatch rets (Suc vb) k bytes1 head1 sl1 npkts1 nbytes1 (ncmds + 1)))"

text \<open>The end of a round, from the label \<^verbatim>\<open>sync_out\<close> on. True means that the loop is left.\<close>

definition gen_sync :: "nmapi \<Rightarrow> generator \<Rightarrow> u64 \<Rightarrow> u64 \<times> u64 \<times> u64 \<times> u64 \<Rightarrow> gen_thread \<Rightarrow> netmap_ring
    \<Rightarrow> bool \<times> gen_thread \<times> netmap_ring" where
  "gen_sync A gen space counters th ring =
     (let (npkts, nbytes, ncmds, nbytes_nvme) = counters;
          ring1 = (if space < ge_bpkts gen then ring\<lparr>nr_cur := nr_tail ring\<rparr> else ring);
          (ret, ring2) = nm_txsync A ring1
      in if ret < 0 then (True, th, ring2)
         else (False, th\<lparr>gt_npkts := gt_npkts th + npkts, gt_nbytes := gt_nbytes th + nbytes,
                         gt_ncmds := gt_ncmds th + ncmds, gt_nbytes_nvme := gt_nbytes_nvme th + nbytes_nvme\<rparr>,
               ring2))"

text \<open>The number of commands of a round and the packets of the last one when it is not full.\<close>

definition gen_plan :: "generator \<Rightarrow> u64 \<Rightarrow> u64 \<times> u64" where
  "gen_plan gen space =
     (if space \<ge> ge_bpkts gen then (word_of_int (ge_nvbatch gen), 0)
      else (space div word_of_int (ge_batch gen) + 1, space mod word_of_int (ge_batch gen)))"

text \<open>
  One round. \<open>bytes\<close> is the memory when the slots are filled, after the device has answered.
  The results are whether the loop is left, the commands sent, the memory, the thread, the ring and
  the next block.
\<close>

definition gen_round :: "nmapi \<Rightarrow> nvme_ns \<Rightarrow> generator \<Rightarrow> pop_mem \<Rightarrow> pop_buf list \<Rightarrow> (nat \<Rightarrow> u64) \<Rightarrow> (nat \<Rightarrow> int) \<Rightarrow> memory
    \<Rightarrow> gen_thread \<Rightarrow> netmap_ring \<Rightarrow> u64
    \<Rightarrow> (nvme_cmd list \<times> memory \<times> u64 \<times> bool \<times> gen_thread \<times> netmap_ring) outcome" where
  "gen_round A ns gen mem bufs rs rets bytes th ring lba =
     (let space = ucast (nm_ring_space A ring) :: u64 in
      if space = 0
      then Inr ([], bytes, lba, gen_sync A gen space (0, 0, 0, 0) (th\<lparr>gt_no_slot := gt_no_slot th + 1\<rparr>) ring)
      else if space < ge_bpkts gen \<and> ge_batch gen = 0 then Inl DivByZero
      else let (nvbatch, rest) = gen_plan gen space; n = unat nvbatch
      in obind (if ge_fake_packet gen \<noteq> 0 then Inr ([], lba, 0) else gen_reads ns gen th bufs rs 0 n lba 0)
           (\<lambda>(cs, lba', nbytes_nvme).
         obind (gen_fill A gen mem ring bufs rest n rets 0 n bytes (nr_head ring) (nr_slot ring) 0 0 0)
           (\<lambda>(bytes', head, sl, npkts, nbytes, ncmds).
         Inr (cs, bytes', lba', gen_sync A gen space (npkts, nbytes, ncmds, nbytes_nvme) th
                (ring\<lparr>nr_slot := sl, nr_head := head, nr_cur := head\<rparr>)))))"

text \<open>
  The whole body: the buffers, and one round for each element of \<open>env\<close> (random numbers, poll results
  and memory) until the signal or a failed synchronisation.
\<close>

fun gen_loop :: "nmapi \<Rightarrow> nvme_ns \<Rightarrow> generator \<Rightarrow> pop_mem \<Rightarrow> pop_buf list \<Rightarrow> ((nat \<Rightarrow> u64) \<times> (nat \<Rightarrow> int) \<times> memory) list
    \<Rightarrow> gen_thread \<Rightarrow> netmap_ring \<Rightarrow> u64 \<Rightarrow> (nvme_cmd list \<times> gen_thread \<times> netmap_ring) outcome" where
  "gen_loop A ns gen mem bufs [] th ring lba = Inr ([], th, ring)"
| "gen_loop A ns gen mem bufs ((rs, rets, bytes) # env) th ring lba =
     obind (gen_round A ns gen mem bufs rs rets bytes th ring lba) (\<lambda>(cs, bytes', lba', out, th', ring').
       if out then Inr (cs, th', ring')
       else obind (gen_loop A ns gen mem bufs env th' ring' lba') (\<lambda>(ds, th'', ring''). Inr (cs @ ds, th'', ring'')))"

definition thread_body :: "nmapi \<Rightarrow> nvme_ns \<Rightarrow> generator \<Rightarrow> (nat \<Rightarrow> bool) \<Rightarrow> addr \<Rightarrow> timeval \<times> timeval
    \<Rightarrow> ((nat \<Rightarrow> u64) \<times> (nat \<Rightarrow> int) \<times> memory) list \<Rightarrow> gen_thread \<Rightarrow> netmap_ring \<Rightarrow> pop_mem
    \<Rightarrow> ((nvme_cmd list \<times> gen_thread \<times> netmap_ring) outcome \<times> pop_mem) option" where
  "thread_body A ns gen mo mp ts env th ring m =
     (case gen_bufs mo mp gen 0 (nat (ge_nvbatch gen + 1)) m of
        None \<Rightarrow> None
      | Some (x, m1) \<Rightarrow> Some (obind x (\<lambda>bufs.
          obind (gen_loop A ns gen m1 bufs env (th\<lparr>gt_start := fst ts\<rparr>) ring (gt_lba_start th))
            (\<lambda>(cs, th', ring'). Inr (cs, th'\<lparr>gt_end := snd ts\<rparr>, ring'))), m1))"

section \<open>Reports and set-up\<close>

text \<open>
  The totals of \<^verbatim>\<open>count_thread\<close> over the copies of the counters before and after the second of
  sleep: packets, bits, bytes read from the device, commands and rounds without a free slot. They
  are \<^verbatim>\<open>unsigned long\<close>s.
\<close>

definition gen_count_totals :: "generator \<Rightarrow> gen_thread list \<Rightarrow> gen_thread list \<Rightarrow> (u64 \<times> u64 \<times> u64 \<times> u64 \<times> u64) outcome" where
  "gen_count_totals gen b a =
     (let n = nat (ge_ncpus gen);
          total = (\<lambda>f. sum_list (map (\<lambda>i. f (a ! i) - f (b ! i)) [0..<n]))
      in if n \<le> nat MAX_CPUS \<and> n \<le> length b \<and> n \<le> length a
         then Inr (total gt_npkts, sum_list (map (\<lambda>i. (gt_nbytes (a ! i) - gt_nbytes (b ! i)) * 8) [0..<n]),
                   total gt_nbytes_nvme, total gt_ncmds, total gt_no_slot)
         else Inl OutOfBounds)"

text \<open>
  The structure of thread \<open>n\<close>. Both ends of its range are computed from the length of the device
  range; \<^verbatim>\<open>lba_start\<close> is not added. The printed number has two digits since there are at most 32
  threads.
\<close>

definition print_02d :: "nat \<Rightarrow> string" where
  "print_02d n = [xdigit (n div 10 mod 10), xdigit (n mod 10)]"

definition gen_thread_init :: "generator \<Rightarrow> nat \<Rightarrow> gen_thread" where
  "gen_thread_init gen n =
     \<lparr>gt_cpu = int n,
      gt_nmport = snprintf 64 (''netmap:'' @ (case ge_port gen of Some p \<Rightarrow> p | None \<Rightarrow> '''') @ ''-'' @ print_02d n),
      gt_lba_start = gen_split_start (ge_lba_start gen) (ge_lba_end gen) (word_of_int (ge_ncpus gen)) (of_nat n),
      gt_lba_end = gen_split_end (ge_lba_start gen) (ge_lba_end gen) (word_of_int (ge_ncpus gen)) (of_nat n),
      gt_npkts = 0, gt_nbytes = 0, gt_ncmds = 0, gt_nbytes_nvme = 0, gt_no_slot = 0,
      gt_start = \<lparr>tv_sec = 0, tv_usec = 0\<rparr>, gt_end = \<lparr>tv_sec = 0, tv_usec = 0\<rparr>\<rparr>"

section \<open>The command line\<close>

definition gen_defaults :: generator where
  "gen_defaults = \<lparr>ge_pci = None, ge_nvme = None, ge_port = None, ge_ncpus = 1, ge_batch = 1, ge_nvbatch = 1,
     ge_walk = WALK_MODE_SEQ, ge_lba_start = 0, ge_lba_end = 0x40000, ge_fake_packet = 0, ge_hex_dump = 0,
     ge_interval = 0, ge_verbose = 0, ge_timeout = 0, ge_bpkts = 0\<rparr>"

definition gen_opt :: "int \<Rightarrow> generator \<Rightarrow> char \<times> string \<Rightarrow> int + generator" where
  "gen_opt max_cpu gen x = (let (ch, optarg) = x; v = atoi optarg in
     if ch = CHR ''p'' then
       Inr (gen\<lparr>ge_pci := (if strncmp_eq optarg ''hugepage'' 8 then None else Some optarg)\<rparr>)
     else if ch = CHR ''u'' then Inr (gen\<lparr>ge_nvme := Some optarg\<rparr>)
     else if ch = CHR ''i'' then Inr (gen\<lparr>ge_port := Some optarg\<rparr>)
     else if ch = CHR ''n'' then
       (if v < 1 \<or> v > max_cpu then Inl (- 1) else Inr (gen\<lparr>ge_ncpus := v\<rparr>))
     else if ch = CHR ''b'' then
       (if v < 1 \<or> v > int GEN_MAX_BATCH_SIZE then Inl (- 1) else Inr (gen\<lparr>ge_batch := v\<rparr>))
     else if ch = CHR ''B'' then
       (if v < 1 \<or> v > int MAX_NVBATCH_SIZE then Inl (- 1) else Inr (gen\<lparr>ge_nvbatch := v\<rparr>))
     else if ch = CHR ''w'' then
       (if strncmp_eq optarg ''seq'' 3 then Inr (gen\<lparr>ge_walk := WALK_MODE_SEQ\<rparr>)
        else if strncmp_eq optarg ''random'' 5 then Inr (gen\<lparr>ge_walk := WALK_MODE_RANDOM\<rparr>)
        else Inl (- 1))
     else if ch = CHR ''s'' then
       (case scan_0x optarg of None \<Rightarrow> Inl (- 1) | Some l \<Rightarrow> Inr (gen\<lparr>ge_lba_start := l\<rparr>))
     else if ch = CHR ''e'' then
       (case scan_0x optarg of None \<Rightarrow> Inl (- 1) | Some l \<Rightarrow> Inr (gen\<lparr>ge_lba_end := l\<rparr>))
     else if ch = CHR ''I'' then Inr (gen\<lparr>ge_interval := v * 1000\<rparr>)
     else if ch = CHR ''v'' then Inr (gen\<lparr>ge_verbose := ge_verbose gen + 1\<rparr>)
     else if ch = CHR ''F'' then Inr (gen\<lparr>ge_fake_packet := 1\<rparr>)
     else if ch = CHR ''H'' then Inr (gen\<lparr>ge_hex_dump := 1\<rparr>)
     else if ch = CHR ''T'' then Inr (gen\<lparr>ge_timeout := v\<rparr>)
     else Inl (- 1))"

text \<open>\<^verbatim>\<open>main\<close> up to the initialisation of libpop; \<open>cpus\<close> is \<^verbatim>\<open>count_online_cpus()\<close>.\<close>

definition gen_args :: "int \<Rightarrow> string list \<Rightarrow> int + generator" where
  "gen_args cpus argv =
     (let max_cpu = (if cpus > MAX_CPUS then MAX_CPUS else cpus) in
      case opt_loop (gen_opt max_cpu) (getopts ''p:u:i:n:b:B:w:s:e:I:FHT:v'' argv) gen_defaults of
        Inl r \<Rightarrow> Inl r
      | Inr gen \<Rightarrow>
          if ge_nvme gen = None then Inl (- 1)
          else if ge_port gen = None then Inl (- 1)
          else Inr (gen\<lparr>ge_bpkts := word_of_int (ge_batch gen * ge_nvbatch gen)\<rparr>))"

text \<open>What the accepted parameters satisfy.\<close>

definition gen_ok :: "generator \<Rightarrow> bool" where
  "gen_ok gen \<longleftrightarrow> 1 \<le> ge_ncpus gen \<and> ge_ncpus gen \<le> 32 \<and> 1 \<le> ge_batch gen \<and> ge_batch gen \<le> 32 \<and>
     1 \<le> ge_nvbatch gen \<and> ge_nvbatch gen \<le> 64"

interpretation gen_options: option_parser "gen_opt (min 32 max_cpu)" gen_defaults gen_ok "- 1" for max_cpu
proof
  show "gen_ok gen_defaults" by (simp add: gen_ok_def gen_defaults_def)
  show "gen_ok p'" if "gen_ok p" "gen_opt (min 32 max_cpu) p x = Inr p'" for max_cpu p x p'
    using that by (auto simp: gen_opt_def gen_ok_def GEN_MAX_BATCH_SIZE_def MAX_NVBATCH_SIZE_def Let_def
        split: prod.splits if_splits option.splits)
  show "r = - 1" if "gen_opt (min 32 max_cpu) p x = Inl r" for max_cpu p x r
    using that by (simp add: gen_opt_def Let_def split: prod.splits if_splits option.splits)
qed

lemma gen_args_ok:
  "case gen_args cpus argv of Inl r \<Rightarrow> r = - 1
   | Inr gen \<Rightarrow> gen_ok gen \<and> ge_bpkts gen = word_of_int (ge_batch gen * ge_nvbatch gen) \<and>
       ge_nvme gen \<noteq> None \<and> ge_port gen \<noteq> None"
proof -
  have "(if cpus > MAX_CPUS then MAX_CPUS else cpus) = min 32 cpus" by (simp add: MAX_CPUS_def min_def)
  with gen_options.parsed [of cpus "getopts ''p:u:i:n:b:B:w:s:e:I:FHT:v'' argv"] show ?thesis
    by (auto simp: gen_args_def gen_ok_def Let_def split: sum.splits)
qed

section \<open>The packets of a round\<close>

text \<open>What the round puts in a slot for its \<open>i\<close>-th packet.\<close>

definition gen_tx :: "nmapi \<Rightarrow> pop_mem \<Rightarrow> memory \<Rightarrow> pop_buf list \<Rightarrow> nat \<Rightarrow> nat \<Rightarrow> netmap_slot \<Rightarrow> netmap_slot" where
  "gen_tx A mem bytes bufs B i s =
     (let p = gen_pkt bufs (i div B) (i mod B) in
      s\<lparr>ns_flags := ns_flags s OR NS_PHY_INDIRECT A, ns_ptr := pop_virt_to_phys mem p,
        ns_len := ucast (get_pktlen_from_desc bytes p 2048)\<rparr>)"

lemma gen_slots_put_slots:
  assumes "ge_fake_packet gen = 0" "vb < length bufs" "B \<le> 32"
  shows "b + k \<le> B \<Longrightarrow> \<exists>nb'. gen_slots A gen mem ring bufs vb b k bytes head sl np nb =
    obind (put_slots (nm_ring_next A ring) (gen_tx A mem bytes bufs B) (vb * B + b) k head sl)
      (\<lambda>(sl', h). Inr (bytes, h, sl', np + of_nat k, nb' sl'))"
proof (induction k arbitrary: b head sl np nb)
  case (Suc k)
  let ?s = "gen_tx A mem bytes bufs B (vb * B + b) (sl ! unat head)"
  have b: "b < B" "Suc b + k \<le> B" using Suc.prems by simp_all
  then have i: "(vb * B + b) div B = vb" "(vb * B + b) mod B = b" by simp_all
  from Suc.IH [OF b(2), of "nm_ring_next A ring head" "sl[unat head := ?s]" "np + 1" "nb + ucast (ns_len ?s)"]
  show ?case
    using assms b(1) by (auto simp: Let_def gen_tx_def i GEN_MAX_BATCH_SIZE_def add.assoc split: sum.splits)
qed auto

definition gen_total :: "nat \<Rightarrow> nat \<Rightarrow> nat \<Rightarrow> nat" where
  "gen_total B rest k = (if k = 0 then 0 else (k - 1) * B + (if rest = 0 then B else rest))"

lemma gen_fill_put_slots:
  assumes "ge_fake_packet gen = 0" "\<forall>i. rets i = 0" "B = nat (ge_batch gen)" "B \<le> 32" "unat rest < B" "n \<le> length bufs"
  shows "vb + k = n \<Longrightarrow> \<exists>nb'. gen_fill A gen mem ring bufs rest n rets vb k bytes head sl np nb nc =
    obind (put_slots (nm_ring_next A ring) (gen_tx A mem bytes bufs B) (vb * B) (gen_total B (unat rest) k) head sl)
      (\<lambda>(sl', h). Inr (bytes, h, sl', np + of_nat (gen_total B (unat rest) k), nb' sl', nc + of_nat k))"
proof (induction k arbitrary: vb head sl np nb nc)
  case (Suc k)
  let ?nx = "nm_ring_next A ring" and ?f = "gen_tx A mem bytes bufs B" and ?l = "gen_batch gen rest n vb"
  have l: "?l \<le> B" "gen_total B (unat rest) (Suc k) = ?l + gen_total B (unat rest) k"
    "k \<noteq> 0 \<Longrightarrow> vb * B + ?l = Suc vb * B"
    using Suc.prems assms(3,5) unat_eq_zero [of rest]
    by (auto simp: gen_total_def gen_batch_def algebra_simps gr0_conv_Suc)
  have z: "rets vb = 0" using assms(2) by simp
  have "vb < length bufs" "0 + ?l \<le> B" using Suc.prems assms(6) l(1) by simp_all
  from gen_slots_put_slots [OF assms(1) this(1) assms(4) this(2), of A mem ring bytes head sl np nb]
  obtain nb1 where s: "gen_slots A gen mem ring bufs vb 0 ?l bytes head sl np nb =
      obind (put_slots ?nx ?f (vb * B + 0) ?l head sl) (\<lambda>(sl', h). Inr (bytes, h, sl', np + of_nat ?l, nb1 sl'))" by blast
  show ?case
  proof (cases "put_slots ?nx ?f (vb * B + 0) ?l head sl")
    case (Inl e)
    with s l(2) z show ?thesis by (simp add: put_slots_append)
  next
    case (Inr x)
    obtain sl1 h1 where x: "x = (sl1, h1)" by force
    have "Suc vb + k = n" using Suc.prems by simp
    from Suc.IH [OF this, of h1 sl1 "np + of_nat ?l" "nb1 sl1" "nc + 1"] obtain nb2 where
      r: "gen_fill A gen mem ring bufs rest n rets (Suc vb) k bytes h1 sl1 (np + of_nat ?l) (nb1 sl1) (nc + 1) =
        obind (put_slots ?nx ?f (Suc vb * B) (gen_total B (unat rest) k) h1 sl1)
          (\<lambda>(sl', h). Inr (bytes, h, sl', np + of_nat ?l + of_nat (gen_total B (unat rest) k), nb2 sl', nc + 1 + of_nat k))"
      by blast
    have "put_slots ?nx ?f (vb * B + ?l) (gen_total B (unat rest) k) h1 sl1 =
        put_slots ?nx ?f (Suc vb * B) (gen_total B (unat rest) k) h1 sl1"
    proof (cases "k = 0")
      case False
      then show ?thesis unfolding l(3) [OF False] by simp
    qed (simp add: gen_total_def)
    with s Inr x r l(2) z show ?thesis
      by (intro exI [of _ nb2]) (simp add: put_slots_append add.assoc)
  qed
qed (auto simp: gen_total_def)

lemma gen_reads_returns:
  assumes "k = 0 \<or> gt_lba_end th - gt_lba_start th \<noteq> NM_BATCH_TO_NBLOCKS (ge_batch gen) ns"
  shows "vb + k \<le> length bufs \<Longrightarrow> \<exists>cs lba' nb'. gen_reads ns gen th bufs rs vb k lba nb = Inr (cs, lba', nb') \<and> length cs = k"
  using assms
proof (induction k arbitrary: vb lba nb)
  case (Suc k)
  obtain lba1 where l: "gen_next_lba (ge_walk gen) (rs vb) lba (gt_lba_start th) (gt_lba_end th)
      (NM_BATCH_TO_NBLOCKS (ge_batch gen) ns) = Inr lba1"
    using Suc.prems(2) by (cases "ge_walk gen") (auto simp: rand_lba_def)
  obtain cs lba' nb' where "gen_reads ns gen th bufs rs (Suc vb) k lba1
      (nb + push_bit (ns_blockshift ns) (NM_BATCH_TO_NBLOCKS (ge_batch gen) ns)) = Inr (cs, lba', nb')" "length cs = k"
    using Suc.IH [of "Suc vb" lba1] Suc.prems by fastforce
  with l Suc.prems(1) show ?case by (simp add: Let_def)
qed simp

text \<open>
  The packets of a round for a given number of free slots: a full batch, or all the free slots, or
  one batch more than there are.
\<close>

definition gen_sent :: "generator \<Rightarrow> nat \<Rightarrow> nat" where
  "gen_sent gen space =
     (let B = nat (ge_batch gen); bpkts = B * nat (ge_nvbatch gen) in
      if bpkts \<le> space then bpkts else if space mod B = 0 then space + B else space)"

lemma gen_total_sent:
  assumes "gen_ok gen" "ge_bpkts gen = word_of_int (ge_batch gen * ge_nvbatch gen)" "space \<noteq> 0"
  defines "B \<equiv> word_of_int (ge_batch gen) :: u64" and "nvr \<equiv> gen_plan gen space"
  shows "unat (fst nvr) \<le> nat (ge_nvbatch gen)" "unat (snd nvr) < nat (ge_batch gen)"
    "gen_total (nat (ge_batch gen)) (unat (snd nvr)) (unat (fst nvr)) = gen_sent gen (unat space)"
proof -
  define b v where "b = nat (ge_batch gen)" and "v = nat (ge_nvbatch gen)"
  have g: "ge_batch gen = int b" "ge_nvbatch gen = int v" "0 < b" "b \<le> 32" "0 < v" "v \<le> 64"
    using assms(1) unfolding gen_ok_def b_def v_def by linarith+
  have bv: "b * v \<le> 2048" using mult_le_mono [OF g(4,6)] by simp
  have uB: "unat B = b" "unat (word_of_int (ge_nvbatch gen) :: u64) = v"
    unfolding B_def using g by (simp_all add: nowrap)
  have "unat (ge_bpkts gen) = b * v"
    unfolding assms(2) g using bv unat_of_nat_nowrap [of "b * v", where ?'a = 64] by simp
  then have le: "space \<ge> ge_bpkts gen \<longleftrightarrow> b * v \<le> unat space" by (simp add: word_nat)
  have nvr: "nvr = (if b * v \<le> unat space then (word_of_int (ge_nvbatch gen), 0) else (space div B + 1, space mod B))"
    by (simp add: nvr_def gen_plan_def B_def le)
  have sent: "gen_sent gen (unat space) = (if b * v \<le> unat space then b * v
      else if unat space mod b = 0 then unat space + b else unat space)"
    by (simp add: gen_sent_def b_def v_def)
  have "unat (fst nvr) \<le> v \<and> unat (snd nvr) < b \<and> gen_total b (unat (snd nvr)) (unat (fst nvr)) = gen_sent gen (unat space)"
  proof (cases "b * v \<le> unat space")
    case True
    obtain v' where "v = Suc v'" using g(5) by (cases v) simp_all
    with True show ?thesis using g(3) uB(2) by (simp add: nvr sent gen_total_def)
  next
    case False
    then have d: "unat space div b < v" by (simp add: div_less_iff_less_mult g(3) mult.commute)
    then have "unat (space div B + 1) = unat space div b + 1" "unat (space mod B) = unat space mod b"
      using uB g(6) by (simp_all add: nowrap unat_div unat_mod)
    moreover have "unat space div b * b + unat space mod b = unat space" by simp
    ultimately show ?thesis using False d g(3) by (auto simp: nvr sent gen_total_def)
  qed
  then show "unat (fst nvr) \<le> nat (ge_nvbatch gen)" "unat (snd nvr) < nat (ge_batch gen)"
    "gen_total (nat (ge_batch gen)) (unat (snd nvr)) (unat (fst nvr)) = gen_sent gen (unat space)"
    by (simp_all add: b_def v_def)
qed


definition lab_gen :: generator where
  "lab_gen = gen_defaults\<lparr>ge_nvme := Some ''01:00.0'', ge_port := Some ''eth0'', ge_batch := 2, ge_nvbatch := 2, ge_bpkts := 4\<rparr>"


text \<open>
  With the largest number of commands that the command line accepts, a thread writes its last buffer
  behind the end of the array.
\<close>

lemma gen_bufs_overflow:
  assumes "mem_ok m" "\<not> pm_mutex m" "1 \<le> ge_batch gen" "ge_batch gen \<le> 32"
    and "n \<le> 64" "64 - n < k" "16 * (65 - n) \<le> free_pages m"
  shows "\<exists>m'. gen_bufs (\<lambda>_. True) mp gen n k m = Some (Inl OutOfBounds, m')"
  using assms
proof (induction k arbitrary: n m)
  case (Suc k)
  define sz where "sz = (word_of_int (2048 * ge_batch gen) :: u64)"
  have "unat sz = 2048 * nat (ge_batch gen)"
    unfolding sz_def using Suc.prems(3,4) by (subst unat_word_of_int_nowrap) auto
  moreover have "nat (ge_batch gen) \<le> 32" using Suc.prems(4) by linarith
  ultimately have sz: "unat sz \<le> 2 ^ 64 - 4096" "pages_needed (unat sz) \<le> 16" by (simp_all add: pages_needed_def)
  have "pages_needed (unat sz) \<le> free_pages m" using sz(2) Suc.prems(5,7) by linarith
  then obtain b m1 where a: "pop_buf_alloc True mp m sz = Some (Inr b, m1)"
    and m1: "m1 = m\<lparr>pm_alloced_pages := pm_alloced_pages m + of_nat (pages_needed (unat sz))\<rparr>"
    using pop_buf_alloc_cases [OF Suc.prems(1,2), of sz True mp] sz(1) by (auto simp: Let_def)
  show ?case
  proof (cases "n = 64")
    case True
    with a show ?thesis by (simp add: Let_def sz_def MAX_NVBATCH_SIZE_def)
  next
    case False
    have u: "unat (of_nat (pages_needed (unat sz)) :: u64) = pages_needed (unat sz)"
      using sz(2) by (intro unat_of_nat_nowrap) simp
    have f: "unat (of_nat (pages_needed (unat sz)) :: u64) \<le> free_pages m" unfolding u by fact
    have "16 * (65 - Suc n) + 16 = 16 * (65 - n)" using False Suc.prems(5) by simp
    then have "16 * (65 - Suc n) \<le> free_pages m1"
      using Suc.prems(7) sz(2) unat_alloced_add [OF Suc.prems(1) f] u unfolding m1 free_pages_def by simp
    moreover have "mem_ok m1" unfolding m1 by (rule mem_ok_alloced [OF Suc.prems(1) f])
    moreover have "\<not> pm_mutex m1" "Suc n \<le> 64" "64 - Suc n < k" using False Suc.prems(2,5,6) by (simp_all add: m1)
    ultimately have "\<exists>m'. gen_bufs (\<lambda>_. True) mp gen (Suc n) k m1 = Some (Inl OutOfBounds, m')"
      using Suc.IH Suc.prems(3,4) by blast
    with a False Suc.prems(5) show ?thesis by (auto simp: Let_def sz_def MAX_NVBATCH_SIZE_def)
  qed
qed simp

end
