(* ===== verification/Generator_Main.thy ===== *)
theory Generator_Main
  imports C_Print Generator Pop_System Netmap_Ports Lifecycle
begin

text \<open>
  The reports and \<^verbatim>\<open>main\<close> of \<^verbatim>\<open>apps/generator.c\<close>. Unlike the other programs it closes its ports and the
  NVMe device, in a loop that is also the target of its error paths.
\<close>

section \<open>Reports\<close>

text \<open>
  A null string is printed as the C library does it. The last line reads the namespace, which may be a
  null pointer since the result of \<^verbatim>\<open>unvme_open\<close> is not checked. Its first two numbers are printed as
  \<^verbatim>\<open>int\<close>s.
\<close>

definition show_str :: "string option \<Rightarrow> string" where
  "show_str s = (case s of Some t \<Rightarrow> t | None \<Rightarrow> ''(null)'')"

definition walk_mode_string :: "gen_walk \<Rightarrow> string" where
  "walk_mode_string w = (case w of WALK_MODE_SEQ \<Rightarrow> ''seq'' | WALK_MODE_RANDOM \<Rightarrow> ''random'')"

definition gen_info_rows :: "generator \<Rightarrow> (string \<times> string) list" where
  "gen_info_rows gen =
     [(''p2pmem (-p):     '', show_str (ge_pci gen)),
      (''unvme (-u):      '', show_str (ge_nvme gen)),
      (''port (-i):       '', show_str (ge_port gen)),
      (''ncpus (-n):      '', show_int (ge_ncpus gen)),
      (''batch (-b):      '', show_int (ge_batch gen)),
      (''nvme batch (-B): '', show_int (ge_nvbatch gen)),
      (''walk (-w):       '', walk_mode_string (ge_walk gen)),
      (''start lba (-s):  '', show_lx (ge_lba_start gen)),
      (''end lba (-e):    '', show_lx (ge_lba_end gen)),
      (''interval (-I):   '', show_int (ge_interval gen)),
      (''timeout (-T):    '', show_int (ge_timeout gen))]"

definition print_gen_info :: "generator \<Rightarrow> nvme_ns option \<Rightarrow> string outcome" where
  "print_gen_info gen unvme =
     (case unvme of
        None \<Rightarrow> Inl NullDeref
      | Some u \<Rightarrow>
          let nb = NM_BATCH_TO_NBLOCKS (ge_batch gen) u in
          Inr (println ''============= generator ============='' @ print_rows (gen_info_rows gen) @ println '''' @
               println (''nblocks in a nvme cmd: '' @ show_int (sint (ucast nb :: u32)) @ '' ('' @
                 show_int (sint (push_bit (ns_blockshift u) (ucast nb :: u32))) @ '' byte, '' @
                 to_dec (ns_blocksize u) @ '' byte block)'') @
               println ''=====================================''))"

text \<open>\<^verbatim>\<open>hexdump\<close>: two digits per byte, a space after every second byte, 32 bytes in a line.\<close>

fun hexdump_loop :: "memory \<Rightarrow> addr \<Rightarrow> nat \<Rightarrow> nat \<Rightarrow> string" where
  "hexdump_loop m p n 0 = []"
| "hexdump_loop m p n (Suc k) =
     hex_pad 2 (unat (m (p + of_nat n))) @ (if (n + 1) mod 2 = 0 then '' '' else []) @
     (if (n + 1) mod 32 = 0 then [CHR 0x0A] else []) @ hexdump_loop m p (Suc n) k"

definition hexdump :: "memory \<Rightarrow> addr \<Rightarrow> int \<Rightarrow> string" where
  "hexdump m buf len = println ''Hex dump'' @ hexdump_loop m buf 0 (nat len) @ [CHR 0x0A, CHR 0x0A]"

text \<open>The digits of a dump, read two by two, are the bytes of the memory.\<close>

fun hex_pairs :: "string \<Rightarrow> u8 list" where
  "hex_pairs (a # b # cs) = of_nat (16 * xdigit_val a + xdigit_val b) # hex_pairs cs"
| "hex_pairs _ = []"

lemma hex_pad_byte:
  assumes "n < 256"
  shows "hex_pad 2 n = [xdigit (n div 16), xdigit (n mod 16)]"
proof -
  have "n div 16 < 16" using assms by simp
  then show ?thesis
    by (cases "n < 16") (simp_all add: hex_pad_def to_hex.simps [of n] to_hex.simps [of "n div 16"])
qed

lemma hexdump_reads_back:
  "hex_pairs (filter is_xdigit (hexdump_loop m p n k)) = load m (p + of_nat n) k"
proof (induction k arbitrary: n)
  case (Suc k)
  let ?b = "m (p + of_nat n)"
  have "hex_pad 2 (unat ?b) = [xdigit (unat ?b div 16), xdigit (unat ?b mod 16)]"
    by (rule hex_pad_byte [OF unat_u8_less])
  moreover have "unat ?b div 16 < 16" using unat_u8_less [of ?b] by simp
  moreover have "\<not> is_xdigit CHR '' ''" "\<not> is_xdigit CHR 0x0A" by (simp_all add: is_xdigit_def is_digit_def)
  ultimately show ?case
    using Suc [of "Suc n"] by (simp add: add.commute add.left_commute)
qed simp

text \<open>
  One turn of the loop of \<^verbatim>\<open>count_thread\<close>: the totals, and with \<^verbatim>\<open>-v\<close> the numbers of every thread.
  \<open>show2 v d\<close> is what \<^verbatim>\<open>%.2f\<close> prints for the quotient of two \<^verbatim>\<open>double\<close>s.
\<close>

definition cpu_lines :: "generator \<Rightarrow> (nat \<Rightarrow> string) \<Rightarrow> string" where
  "cpu_lines gen f = (if ge_verbose gen \<ge> 1 then concat (map (\<lambda>n. println (f n)) [0..<nat (ge_ncpus gen)]) else [])"

definition gen_count_report :: "(u64 \<Rightarrow> nat \<Rightarrow> string) \<Rightarrow> generator \<Rightarrow> nat \<Rightarrow> gen_thread list \<Rightarrow> gen_thread list
    \<Rightarrow> string outcome" where
  "gen_count_report show2 gen ts b a =
     obind (gen_count_totals gen b a) (\<lambda>(pps, bps, bpsn, iops, ns).
       let lu = (\<lambda>w :: u64. to_dec (unat w)); diff = (\<lambda>f n. f (a ! n) - f (b ! n) :: u64) in
       Inr (println (''UNIXTIME: '' @ to_dec ts) @
            println (''SUM-PPS: '' @ lu pps @ '' pps ('' @ show2 pps 1000000 @ '' Mpps)'') @
            cpu_lines gen (\<lambda>n. ''    CPU-PPS '' @ print_02d n @ '': '' @ lu (diff gt_npkts n) @ '' pps'') @
            println (''SUM-BPS: '' @ lu bps @ '' bps ('' @ show2 bps 1000000 @ '' Mbps)'') @
            cpu_lines gen (\<lambda>n. ''    CPU-BPS '' @ print_02d n @ '': '' @ lu (diff gt_nbytes n * 8) @ '' bps'') @
            println (''SUM-BPS-NVME: '' @ lu bpsn @ '' Bps ('' @ show2 bpsn 1000000 @ '' MBps)'') @
            cpu_lines gen (\<lambda>n. ''    BPS-NVME '' @ print_02d n @ '': '' @ lu (diff gt_nbytes_nvme n) @ '' Bps ('' @
              show2 (diff gt_nbytes_nvme n) 1000000 @ '' MBps)'') @
            println (''SUM-IOPS-NVME: '' @ lu iops @ '' iops ('' @ show2 iops 1000 @ '' kiops)'') @
            cpu_lines gen (\<lambda>n. ''    CPU-IOPS: '' @ lu (diff gt_ncmds n) @ '' iops ('' @
              show2 (diff gt_ncmds n) 1000 @ '' kiops)'') @
            println (''NO-SLOT: '' @ lu ns) @
            cpu_lines gen (\<lambda>n. ''    CPU-NO-SLOT '' @ print_02d n @ '': '' @ lu (diff gt_no_slot n) @ '' no-slot'') @
            println []))"

text \<open>The loop; an element of the list is what one turn sees, and the list ends with the signal.\<close>

fun gen_count_thread :: "(u64 \<Rightarrow> nat \<Rightarrow> string) \<Rightarrow> generator \<Rightarrow> (nat \<times> gen_thread list \<times> gen_thread list) list
    \<Rightarrow> string outcome" where
  "gen_count_thread show2 gen [] = Inr []"
| "gen_count_thread show2 gen ((ts, b, a) # obs) =
     obind (gen_count_report show2 gen ts b a) (\<lambda>t.
     obind (gen_count_thread show2 gen obs) (\<lambda>ts'. Inr (t @ ts')))"

lemma gen_count_thread_returns:
  assumes "gen_ok gen" "\<forall>(ts, b, a) \<in> set obs. length b = 32 \<and> length a = 32"
  shows "\<exists>t. gen_count_thread show2 gen obs = Inr t"
  using assms(2)
proof (induction obs)
  case (Cons x obs)
  obtain ts b a where x: "x = (ts, b, a)" by (cases x)
  have "nat (ge_ncpus gen) \<le> 32" using assms(1) unfolding gen_ok_def by linarith
  with Cons.prems x have "\<exists>t. gen_count_report show2 gen ts b a = Inr t"
    by (simp add: gen_count_report_def gen_count_totals_def MAX_CPUS_def Let_def)
  with Cons x show ?case by auto
qed simp

section \<open>The program\<close>

text \<open>
  The label \<^verbatim>\<open>close\<close>: the threads below \<open>n\<close> are joined and their ports closed. It is reached after the
  report thread has ended, and from the loop that opens the ports when port \<open>n\<close> cannot be opened.
\<close>

definition gen_close :: "nat \<Rightarrow> op list" where
  "gen_close n = concat (map (\<lambda>i. [Join (Ths i), Close_port i, Pause]) [0..<n]) @ [Close_nvme, Exit_region, Return]"

definition gen_ops :: "generator \<Rightarrow> op list" where
  "gen_ops gen =
     map (\<lambda>n. Create (Ths n) (Thread_body n)) [0..<nat (ge_ncpus gen)] @
     [Pause, Create Ctid Gen_count_thread] @
     (if ge_timeout gen \<noteq> 0 then [Pause, Raise] else []) @
     [Join Ctid] @ gen_close (nat (ge_ncpus gen))"

text \<open>When the handler cannot be installed the program goes on as if the signal had arrived.\<close>

definition gen_main :: "'s sysif \<Rightarrow> (addr \<times> pop_mem, 'u) unvme_api
    \<Rightarrow> (string \<Rightarrow> nat \<Rightarrow> 'd list \<Rightarrow> 'n \<Rightarrow> ((int + 'd) \<times> 'n) outcome) \<Rightarrow> nat option \<Rightarrow> bool \<Rightarrow> string list \<Rightarrow> 's \<Rightarrow> 'u \<Rightarrow> 'n
    \<Rightarrow> ((int + (generator, (addr \<times> pop_mem) \<times> nvme_ns option, gen_thread, 'd) launch) \<times> 's \<times> 'u \<times> 'n) outcome" where
  "gen_main S U opener aff sig argv s us ns =
     (case gen_args (count_online_cpus aff) argv of
        Inl r \<Rightarrow> Inr (Inl r, s, us, ns)
      | Inr gen \<Rightarrow>
          obind (pop_mem_init S (ge_pci gen) 0 s) (\<lambda>(m, s1).
            case m of
              Inl e \<Rightarrow> Inr (Inl (- 1), s1, us, ns)
            | Inr mem \<Rightarrow>
                let (unvme, us1) = unvme_open U (ge_nvme gen) us;
                    us2 = unvme_register_pop_mem U mem us1
                in obind (print_gen_info gen unvme) (\<lambda>_.
                   obind (open_ports (opener (case ge_port gen of Some p \<Rightarrow> p | None \<Rightarrow> ''''))
                            (nat (ge_ncpus gen)) [] ns) (\<lambda>(q, ns1).
                     let la = \<lparr>la_gen = gen, la_mem = (mem, unvme),
                               la_ths = map (gen_thread_init gen) [0..<nat (ge_ncpus gen)], la_ports = [],
                               la_caught = \<not> sig, la_ops = gen_ops gen, la_ret = 0\<rparr> in
                     case q of
                       Inl (ret, ds) \<Rightarrow> Inr (Inr (la\<lparr>la_ths := map (gen_thread_init gen) [0..<Suc (length ds)],
                           la_ports := ds, la_caught := True, la_ops := gen_close (length ds), la_ret := ret\<rparr>), s1, us2, ns1)
                     | Inr ds \<Rightarrow> Inr (Inr (la\<lparr>la_ports := ds\<rparr>), s1, us2, ns1)))))"

section \<open>The order of the calls\<close>

lemma close_loop:
  assumes "lv_map l = worker_map Thread_body 0 N None" "lv_closed l = {}"
  shows "i \<le> N \<Longrightarrow> disciplined own_maps (concat (map (\<lambda>i. [Join (Ths i), Close_port i, Pause]) [0..<i])) l \<and>
    fold live_op (concat (map (\<lambda>i. [Join (Ths i), Close_port i, Pause]) [0..<i])) l
      = l\<lparr>lv_map := worker_map Thread_body i N None, lv_closed := {0..<i}\<rparr>"
proof (induction i)
  case 0
  then show ?case using assms by (simp flip: assms(1))
next
  case (Suc i)
  have "harmless own_maps (Close_port i) (l\<lparr>lv_map := worker_map Thread_body (Suc i) N None, lv_closed := {0..<i}\<rparr>)"
    by (auto elim: worker_map_cases)
  with Suc show ?case
    by (simp add: disciplined_append worker_map_remove will_stop_def atLeast0_lessThan_Suc del: fun_upd_apply)
qed

lemma gen_disciplined: "disciplined own_maps (gen_ops gen) live_start"
proof -
  let ?N = "nat (ge_ncpus gen)"
  let ?l = "live_start\<lparr>lv_map := worker_map Thread_body 0 ?N None\<rparr>"
  have sp: "disciplined own_maps (map (\<lambda>n. Create (Ths n) (Thread_body n)) [0..<?N]) live_start \<and>
      fold live_op (map (\<lambda>n. Create (Ths n) (Thread_body n)) [0..<?N]) live_start = ?l"
    using spawn_loop [where B = Thread_body and N = ?N and post = "[]" and E = own_maps]
    by (simp add: may_use_def live_start_def)
  have cl: "disciplined own_maps (concat (map (\<lambda>i. [Join (Ths i), Close_port i, Pause]) [0..<?N])) ?l \<and>
      fold live_op (concat (map (\<lambda>i. [Join (Ths i), Close_port i, Pause]) [0..<?N])) ?l
        = ?l\<lparr>lv_map := worker_map Thread_body ?N ?N None, lv_closed := {0..<?N}\<rparr>"
    by (rule close_loop) (simp_all add: live_start_def)
  have "harmless own_maps x (?l\<lparr>lv_map := worker_map Thread_body ?N ?N None, lv_closed := {0..<?N}, lv_nvme := b\<rparr>)"
    if "x = Close_nvme \<or> x = Exit_region" for x b
    using that by auto
  then show ?thesis
    using sp cl unfolding gen_ops_def gen_close_def
    by (auto simp: disciplined_append may_use_def will_stop_def simp del: fun_upd_apply)
qed

interpretation generator: joined_program own_maps "gen_ops gen" for gen
  by unfold_locales (simp, rule gen_disciplined)

section \<open>The outcome of main\<close>

lemma gen_close_none:
  "proc_run own_maps [Main, Main, Main] (proc_start (gen_close 0) True)
    = Some (Inr ((proc_start [] True)\<lparr>pr_nvme := False, pr_region := False\<rparr>))"
  by (simp add: gen_close_def proc_start_def)

lemma gen_close_uncreated:
  "0 < n \<Longrightarrow> proc_exec E Main (proc_start (gen_close n) c) = Some (Inl NullDeref)"
  by (simp add: gen_close_def proc_start_def upt_conv_Cons)

lemma gen_main_launch:
  assumes "gen_main S U opener aff sig argv s us ns = Inr (Inr la, s', us', ns')"
  shows "\<exists>port. ge_port (la_gen la) = Some port \<and>
    (open_ports (opener port) (nat (ge_ncpus (la_gen la))) [] ns = Inr (Inr (la_ports la), ns') \<and>
       la_ops la = gen_ops (la_gen la) \<or>
     open_ports (opener port) (nat (ge_ncpus (la_gen la))) [] ns = Inr (Inl (la_ret la, la_ports la), ns') \<and>
       la_ops la = gen_close (length (la_ports la)) \<and> la_caught la)"
proof -
  from assms obtain gen where gen: "gen_args (count_online_cpus aff) argv = Inr gen"
    by (auto simp: gen_main_def split: sum.splits)
  then obtain port where port: "ge_port gen = Some port"
    by (auto simp: gen_args_def Let_def split: sum.splits if_splits)
  from assms gen obtain x s1 where x: "pop_mem_init S (ge_pci gen) 0 s = Inr (x, s1)"
    by (cases "pop_mem_init S (ge_pci gen) 0 s") (auto simp: gen_main_def)
  with assms gen obtain mem where mem: "pop_mem_init S (ge_pci gen) 0 s = Inr (Inr mem, s1)"
    by (cases x) (auto simp: gen_main_def)
  obtain unvme us1 where u: "unvme_open U (ge_nvme gen) us = (unvme, us1)"
    by (cases "unvme_open U (ge_nvme gen) us")
  note main = assms [unfolded gen_main_def gen, simplified, unfolded mem port, simplified u, simplified]
  from main obtain t where t: "print_gen_info gen unvme = Inr t"
    by (cases "print_gen_info gen unvme") (auto simp: Let_def)
  let ?o = "open_ports (opener port) (nat (ge_ncpus gen)) [] ns"
  from main t obtain q ns1 where q: "?o = Inr (q, ns1)"
    by (cases ?o) (auto simp: Let_def)
  with main t have "ns1 = ns'" by (cases q) (auto simp: Let_def)
  with main t q port show ?thesis by (cases q) (auto simp: Let_def)
qed


definition lab_unvme :: "('m, unit) unvme_api" where
  "lab_unvme = \<lparr>unvme_open = (\<lambda>name u. (Some \<lparr>ns_blocksize = 512, ns_blockshift = 9\<rparr>, u)),
     unvme_register_pop_mem = (\<lambda>m u. u)\<rparr>"

definition lab_gen_argv :: "string list" where
  "lab_gen_argv = [''-p'', ''17:00.0'', ''-u'', ''0000:5e:00.0'', ''-i'', ''eth0'', ''-n'', ''2'']"


end
