(* ===== verification/Mb.thy ===== *)
theory Mb
  imports Bytes Pop_Buf Pop_Mem C_Print "HOL-Library.Multiset" "HOL-Library.Signed_Division" Complex_Main
begin

text \<open>
  \<^verbatim>\<open>apps/mb.c\<close>, a memory benchmark: it copies blocks between the heap and pop memory, sorts the
  times of the loops and prints their extremes, means and deviations.

  Modelled are the command line, the copies, the addresses that are flushed, the sort, the statistics
  and \<^verbatim>\<open>main\<close>. Times are rational numbers here and \<^verbatim>\<open>double\<close>s in the code; the deviation is left as its square.
  Flushing the cache does not change the contents of memory, and the time stamps are arguments.
\<close>

section \<open>The command line\<close>

record mb_param =
  mb_nwrite :: int
  mb_nloop :: int
  mb_size :: int
  mb_mem :: "string option"
  mb_dir :: int

definition DIR_WRITE :: int where "DIR_WRITE = 1"
definition DIR_READ :: int where "DIR_READ = 0"

definition mb_defaults :: mb_param where
  "mb_defaults = \<lparr>mb_nwrite = 100, mb_nloop = 100, mb_size = 64, mb_mem = None, mb_dir = DIR_WRITE\<rparr>"

definition mb_opt :: "mb_param \<Rightarrow> char \<times> string \<Rightarrow> int + mb_param" where
  "mb_opt p x = (let (ch, optarg) = x in
     if ch = CHR ''n'' then Inr (p\<lparr>mb_nwrite := atoi optarg\<rparr>)
     else if ch = CHR ''l'' then Inr (p\<lparr>mb_nloop := atoi optarg\<rparr>)
     else if ch = CHR ''s'' then Inr (p\<lparr>mb_size := atoi optarg\<rparr>)
     else if ch = CHR ''p'' then
       Inr (p\<lparr>mb_mem := (if strncmp_eq optarg ''hugepage'' 8 then None else Some optarg)\<rparr>)
     else if ch = CHR ''d'' then
       (if strncmp_eq optarg ''write'' 5 then Inr (p\<lparr>mb_dir := DIR_WRITE\<rparr>)
        else if strncmp_eq optarg ''read'' 4 then Inr (p\<lparr>mb_dir := DIR_READ\<rparr>)
        else Inl (- 1))
     else Inl (- 1))"

definition mb_args :: "string list \<Rightarrow> int + mb_param" where
  "mb_args argv = opt_loop mb_opt (getopts ''n:l:s:p:d:'' argv) mb_defaults"

interpretation mb_options: option_parser mb_opt mb_defaults "\<lambda>p. mb_dir p \<in> {DIR_READ, DIR_WRITE}" "- 1"
proof
  show "mb_dir mb_defaults \<in> {DIR_READ, DIR_WRITE}" by (simp add: mb_defaults_def)
  show "mb_dir p' \<in> {DIR_READ, DIR_WRITE}" if "mb_dir p \<in> {DIR_READ, DIR_WRITE}" "mb_opt p x = Inr p'" for p x p'
    using that by (auto simp: mb_opt_def Let_def split: prod.splits if_splits)
  show "r = - 1" if "mb_opt p x = Inl r" for p x r
    using that by (simp add: mb_opt_def Let_def split: prod.splits if_splits)
qed

text \<open>The lines of the cache that a block covers.\<close>

definition LINE_SIZE :: int where "LINE_SIZE = 64"

definition mb_nline :: "int \<Rightarrow> int" where
  "mb_nline sz = (if sz smod LINE_SIZE \<noteq> 0 then sz sdiv LINE_SIZE + 1 else sz sdiv LINE_SIZE)"

text \<open>
  \<^verbatim>\<open>clflush_opt\<close>: the addresses it hands to the flush instruction. The index is an \<^verbatim>\<open>int\<close> that is compared
  with a \<^verbatim>\<open>size_t\<close> and multiplied by the size of a line. An instruction flushes the line of its address.
\<close>

definition clflush_opt :: "addr \<Rightarrow> u64 \<Rightarrow> addr list outcome" where
  "clflush_opt addr nline =
     (if unat nline \<le> 2 ^ 25 then Inr (map (\<lambda>li. addr + of_nat (li * 64)) [0..<unat nline]) else Inl SignedOverflow)"

definition flushed :: "addr list \<Rightarrow> nat set" where
  "flushed as = {x. \<exists>a \<in> set as. x div 64 = unat a div 64}"

definition fits_int :: "int \<Rightarrow> bool" where
  "fits_int i \<longleftrightarrow> - (2 ^ 31) \<le> i \<and> i < 2 ^ 31"

section \<open>The copies\<close>

text \<open>
  One operation of the inner loop. The target is computed from \<^verbatim>\<open>nwrite\<close> and not from the index of
  the loop, as a product of two \<^verbatim>\<open>int\<close>s. The source has \<^verbatim>\<open>nwrite\<close> bytes on the heap at \<open>src\<close>; pop memory is the region \<open>m\<close>. An
  access outside either is a fault.
\<close>

definition mb_op :: "mb_param \<Rightarrow> pop_mem \<Rightarrow> addr \<Rightarrow> addr \<Rightarrow> memory \<Rightarrow> memory outcome" where
  "mb_op p m addr src bytes =
     (let target = addr + word_of_int (mb_nwrite p * mb_size p); n = nat (mb_size p) in
      if \<not> fits_int (mb_nwrite p * mb_size p) then Inl SignedOverflow
      else if mb_size p < 0 \<or> mb_nwrite p < mb_size p then Inl OutOfBounds
      else if unat (pm_mem m) \<le> unat target \<and> unat target + n \<le> unat (pm_mem m) + unat (pm_size m)
      then Inr (if mb_dir p \<noteq> 0 then store bytes target (load bytes src n) else store bytes src (load bytes target n))
      else Inl OutOfBounds)"

fun mb_ops :: "mb_param \<Rightarrow> pop_mem \<Rightarrow> addr \<Rightarrow> addr \<Rightarrow> nat \<Rightarrow> memory \<Rightarrow> memory outcome" where
  "mb_ops p m addr src 0 bytes = Inr bytes"
| "mb_ops p m addr src (Suc k) bytes = obind (mb_op p m addr src bytes) (mb_ops p m addr src k)"

text \<open>The timed loops; \<open>ts\<close> are the time stamps before and after each of them.\<close>

fun mb_loops :: "mb_param \<Rightarrow> pop_mem \<Rightarrow> addr \<Rightarrow> addr \<Rightarrow> (u64 \<times> u64) list \<Rightarrow> memory \<Rightarrow> (rat list \<times> memory) outcome" where
  "mb_loops p m addr src [] bytes = Inr ([], bytes)"
| "mb_loops p m addr src ((start, end) # ts) bytes =
     obind (mb_ops p m addr src (nat (mb_nwrite p)) bytes) (\<lambda>bytes1.
     obind (mb_loops p m addr src ts bytes1) (\<lambda>(es, bytes2).
     Inr (of_int (uint (end - start)) / of_int (mb_nloop p) # es, bytes2)))"

text \<open>
  The part of \<^verbatim>\<open>main\<close> that uses the region: a buffer, the source filled with ones and the loops.
  The left result is the return value when the buffer is refused; both \<^verbatim>\<open>calloc\<close>s succeed.
\<close>

definition mb_measure :: "mb_param \<Rightarrow> bool \<Rightarrow> addr \<Rightarrow> addr \<Rightarrow> (nat \<Rightarrow> u64 \<times> u64) \<Rightarrow> memory \<Rightarrow> pop_mem
    \<Rightarrow> ((int + (rat list \<times> memory) outcome) \<times> pop_mem) option" where
  "mb_measure p mo mp src ticks bytes m =
     (let sz = word_of_int (mb_size p * mb_nwrite p) :: u64 in
      if \<not> fits_int (mb_size p * mb_nwrite p) then Some (Inr (Inl SignedOverflow), m)
      else case pop_buf_alloc mo mp m sz of
        None \<Rightarrow> None
      | Some (Inl e, m1) \<Rightarrow> Some (Inl (- 1), m1)
      | Some (Inr b, m1) \<Rightarrow>
          (let addr = pop_buf_data (snd (pop_buf_put b sz)) in
           Some (Inr (mb_loops p m1 addr src (map ticks [0..<nat (mb_nloop p)])
                        (store bytes src (replicate (nat (mb_nwrite p)) 1))), m1)))"

text \<open>
  Every operation goes to the same place, behind the bytes that were put into the buffer: a write
  benchmark never touches its buffer.
\<close>

lemma mb_op_misses_buffer:
  assumes "mb_op p m addr src bytes = Inr bytes'" "mb_dir p = DIR_WRITE"
    and "0 \<le> mb_size p" "0 \<le> mb_nwrite p" "mb_nwrite p * mb_size p + mb_size p \<le> 2 ^ 63"
    and "x \<in> range_of addr (nat (mb_nwrite p * mb_size p))"
  shows "bytes' x = bytes x"
proof -
  define w where "w = nat (mb_nwrite p * mb_size p)"
  have wz: "mb_nwrite p * mb_size p = int w" using assms(3,4) by (simp add: w_def)
  then have "addr + word_of_int (mb_nwrite p * mb_size p) = addr + of_nat w" by simp
  with assms(1,2) have b: "bytes' = store bytes (addr + of_nat w) (load bytes src (nat (mb_size p)))"
    by (auto simp: mb_op_def DIR_WRITE_def Let_def split: if_splits)
  have "int w + mb_size p \<le> 9223372036854775808" using assms(5) wz by simp
  then have "w + nat (mb_size p) \<le> 18446744073709551616" using assms(3) by linarith
  then have "range_of (addr + of_nat 0) w \<inter> range_of (addr + of_nat w) (nat (mb_size p)) = {}"
    by (intro range_of_disjoint) simp
  with assms(6) have "x \<notin> range_of (addr + of_nat w) (nat (mb_size p))" by (auto simp: w_def)
  then show ?thesis unfolding b by (intro store_outside) simp
qed

section \<open>Sorting\<close>

text \<open>The exchange of two neighbours in the sort, and the two loops, which run down and up.\<close>

definition mb_swap :: "nat \<Rightarrow> 'a::linorder list \<Rightarrow> 'a list" where
  "mb_swap i xs = (if xs ! (i - 1) > xs ! i then xs[i := xs ! (i - 1), i - 1 := xs ! i] else xs)"

fun mb_bubble :: "nat \<Rightarrow> nat \<Rightarrow> 'a::linorder list \<Rightarrow> 'a list" where
  "mb_bubble n 0 xs = xs"
| "mb_bubble n (Suc i) xs = (if Suc i > n then mb_bubble n i (mb_swap (Suc i) xs) else xs)"

fun mb_sort_from :: "nat \<Rightarrow> nat \<Rightarrow> 'a::linorder list \<Rightarrow> 'a list" where
  "mb_sort_from n 0 xs = xs"
| "mb_sort_from n (Suc k) xs = mb_sort_from (Suc n) k (mb_bubble n (length xs - 1) xs)"

definition mb_sort :: "'a::linorder list \<Rightarrow> 'a list" where
  "mb_sort xs = mb_sort_from 0 (length xs) xs"

section \<open>Statistics\<close>

text \<open>The loop over all samples: least and greatest element and sum.\<close>

fun mb_scan :: "rat list \<Rightarrow> rat \<Rightarrow> rat \<Rightarrow> rat \<Rightarrow> rat \<times> rat \<times> rat" where
  "mb_scan [] mn mx sm = (mn, mx, sm)"
| "mb_scan (e # es) mn mx sm =
     mb_scan es (if e < mn then e else mn) (if e > mx then e else mx) (sm + e)"

text \<open>
  The loop over the first 99 percent compares with the extremes of all samples and sets its own.
\<close>

fun mb_scan9 :: "rat \<Rightarrow> rat \<Rightarrow> rat list \<Rightarrow> rat \<Rightarrow> rat \<Rightarrow> rat \<Rightarrow> rat \<times> rat \<times> rat" where
  "mb_scan9 mn mx [] mn9 mx9 sm = (mn9, mx9, sm)"
| "mb_scan9 mn mx (e # es) mn9 mx9 sm =
     mb_scan9 mn mx es (if e < mn then e else mn9) (if e > mx then e else mx9) (sm + e)"

definition mb_variance :: "rat list \<Rightarrow> rat \<Rightarrow> rat" where
  "mb_variance es avg = sum_list (map (\<lambda>e. (e - avg) * (e - avg)) es) / of_nat (length es)"

record mb_stat =
  st_min :: rat
  st_max :: rat
  st_avg :: rat
  st_var :: rat

text \<open>
  The report on all samples and on the first 99 percent; \<^verbatim>\<open>elapsed[0]\<close> is read without a check.
\<close>

definition mb_report :: "rat list \<Rightarrow> (mb_stat \<times> mb_stat) outcome" where
  "mb_report samples =
     (let elapsed = mb_sort samples; nloop = length elapsed; nloop9 = nat \<lfloor>of_nat nloop * (99 / 100 :: rat)\<rfloor> in
      case elapsed of
        [] \<Rightarrow> Inl OutOfBounds
      | e0 # _ \<Rightarrow>
          (let (mn, mx, sm) = mb_scan elapsed e0 e0 0; avg = sm / of_nat nloop;
               es9 = take nloop9 elapsed; (mn9, mx9, sm9) = mb_scan9 mn mx es9 e0 e0 0; avg9 = sm9 / of_nat nloop9
           in Inr (\<lparr>st_min = mn, st_max = mx, st_avg = avg, st_var = mb_variance elapsed avg\<rparr>,
                   \<lparr>st_min = mn9, st_max = mx9, st_avg = avg9, st_var = mb_variance es9 avg9\<rparr>)))"

text \<open>
  The lines that \<^verbatim>\<open>main\<close> prints first, and the whole of \<^verbatim>\<open>main\<close>: the result is the value returned and the
  statistics printed; the result of \<^verbatim>\<open>pop_mem_exit\<close> is dropped.
\<close>

definition mb_config :: "mb_param \<Rightarrow> string" where
  "mb_config p = print_rows
     [(''nwrite     '', show_int (mb_nwrite p)), (''nloop      '', show_int (mb_nloop p)),
      (''size       '', show_int (mb_size p)), (''mem        '', show_pci (mb_mem p)),
      (''direction  '', if mb_dir p \<noteq> 0 then ''write'' else ''read'')]"

definition mb_main :: "'s sysif \<Rightarrow> bool \<Rightarrow> addr \<Rightarrow> addr \<Rightarrow> (nat \<Rightarrow> u64 \<times> u64) \<Rightarrow> string list \<Rightarrow> memory \<Rightarrow> 's
    \<Rightarrow> (int \<times> (mb_stat \<times> mb_stat) option \<times> 's) outcome option" where
  "mb_main S mo mp src ticks argv bytes s =
     (case mb_args argv of
        Inl r \<Rightarrow> Some (Inr (r, None, s))
      | Inr p \<Rightarrow>
          (case pop_mem_init S (mb_mem p) 0 s of
             Inl f \<Rightarrow> Some (Inl f)
           | Inr (Inl e, s1) \<Rightarrow> Some (Inr (- 1, None, s1))
           | Inr (Inr (q, m), s1) \<Rightarrow>
               (case mb_measure p mo mp src ticks bytes m of
                  None \<Rightarrow> None
                | Some (Inl r, m1) \<Rightarrow>
                    Some (obind (pop_mem_exit S q m1 s1) (\<lambda>(_, s2). Inr (r, None, s2)))
                | Some (Inr x, m1) \<Rightarrow>
                    Some (obind x (\<lambda>(elapsed, bytes1).
                          obind (mb_report elapsed) (\<lambda>st.
                          obind (pop_mem_exit S q m1 s1) (\<lambda>(_, s2). Inr (0, Some st, s2))))))))"

section \<open>The flush\<close>

lemma mb_nline_nat:
  assumes "0 < sz" "sz < 2 ^ 31"
  shows "unat (word_of_int (mb_nline (int sz)) :: u64) = (sz + 63) div 64"
proof -
  have "int sz sdiv 64 = int (sz div 64)" "int sz smod 64 = int (sz mod 64)"
    using assms(1) by (simp_all add: signed_divide_int_def signed_modulo_int_def zdiv_int zmod_int)
  moreover have "(sz + 63) div 64 = (if sz mod 64 = 0 then sz div 64 else sz div 64 + 1)"
  proof -
    have "(sz mod 64 + 63 + 64 * (sz div 64)) div 64 = sz div 64 + (sz mod 64 + 63) div 64" by (rule div_mult_self2) simp
    moreover have "sz mod 64 + 63 + 64 * (sz div 64) = sz + 63" by simp
    moreover have "(sz mod 64 + 63) div 64 = 1" if "sz mod 64 \<noteq> 0"
    proof (rule div_nat_eqI)
      have "sz mod 64 < 64" by simp
      with that show "64 * 1 \<le> sz mod 64 + 63" "sz mod 64 + 63 < 64 * Suc 1" by simp_all
    qed
    ultimately show ?thesis by simp
  qed
  ultimately have "mb_nline (int sz) = int ((sz + 63) div 64)"
    by (simp add: mb_nline_def LINE_SIZE_def)
  moreover have "(sz + 63) div 64 < 2 ^ 64" using assms(2) by simp
  ultimately show ?thesis by (simp add: unat_of_nat_nowrap)
qed

text \<open>
  (C32) The flush of a block in \<^verbatim>\<open>mb\<close>: the lines flushed are as many as an aligned block of that size
  has, from the line of its first byte on; so they cover the block exactly if the offset of the block in
  its first line leaves room for it. An unaligned block may keep its last line in the cache.
\<close>

theorem clflush_covers_iff:
  assumes "0 < sz" "sz < 2 ^ 31" "unat target + sz + 64 \<le> 2 ^ 64"
  shows "\<exists>as. clflush_opt target (word_of_int (mb_nline (int sz))) = Inr as \<and>
    flushed as = {unat target div 64 * 64 ..< unat target div 64 * 64 + (sz + 63) div 64 * 64} \<and>
    ({unat target ..< unat target + sz} \<subseteq> flushed as \<longleftrightarrow> unat target mod 64 + sz \<le> (sz + 63) div 64 * 64)"
proof -
  let ?n = "(sz + 63) div 64" and ?t = "unat target"
  let ?as = "map (\<lambda>li. target + of_nat (li * 64)) [0..<?n]"
  have "?n \<le> 2 ^ 25" using assms(2) by simp
  then have c: "clflush_opt target (word_of_int (mb_nline (int sz))) = Inr ?as"
    unfolding clflush_opt_def mb_nline_nat [OF assms(1,2)] by simp
  have u: "unat (target + of_nat (li * 64)) = ?t + li * 64" if "li < ?n" for li
  proof -
    have "Suc li * 64 \<le> ?n * 64" using that by (intro mult_le_mono1) simp
    then have "li * 64 < sz + 64" by simp
    then have "?t + li * 64 < 2 ^ 64" using assms(3) by simp
    moreover from this have "unat (of_nat (li * 64) :: u64) = li * 64" by (intro unat_of_nat_nowrap) simp
    ultimately show ?thesis by (subst unat_add_nowrap) simp_all
  qed
  have "x \<in> flushed ?as \<longleftrightarrow> ?t div 64 * 64 \<le> x \<and> x < ?t div 64 * 64 + ?n * 64" for x
  proof -
    have "x \<in> flushed ?as \<longleftrightarrow> (\<exists>li < ?n. x div 64 = ?t div 64 + li)" using u by (auto simp: flushed_def)
    also have "\<dots> \<longleftrightarrow> ?t div 64 \<le> x div 64 \<and> x div 64 < ?t div 64 + ?n"
      by (auto intro: exI [of _ "x div 64 - ?t div 64"])
    also have "\<dots> \<longleftrightarrow> ?t div 64 * 64 \<le> x \<and> x < ?t div 64 * 64 + ?n * 64"
      using less_eq_div_iff_mult_less_eq [of 64 "?t div 64" x] div_less_iff_less_mult [of 64 x "?t div 64 + ?n"]
      by (simp add: add_mult_distrib)
    finally show ?thesis .
  qed
  then have f: "flushed ?as = {?t div 64 * 64 ..< ?t div 64 * 64 + ?n * 64}"
    by (intro set_eqI) (simp only: atLeastLessThan_iff)
  have "{q + r ..< q + r + sz} \<subseteq> {q ..< q + k} \<longleftrightarrow> r + sz \<le> k" for q r k
    using assms(1) by (subst ivl_subset) linarith
  from this [of "?t div 64 * 64" "?t mod 64" "?n * 64"]
  have "{?t ..< ?t + sz} \<subseteq> flushed ?as \<longleftrightarrow> ?t mod 64 + sz \<le> ?n * 64"
    unfolding f div_mult_mod_eq .
  with c f show ?thesis by blast
qed

theorem clflush_covers_iff_witness:
  "\<exists>as bs. clflush_opt 0x1000 (word_of_int (mb_nline 100)) = Inr as \<and> {0x1000 ..< 0x1000 + 100} \<subseteq> flushed as \<and>
     clflush_opt 0x1020 (word_of_int (mb_nline 100)) = Inr bs \<and> \<not> {0x1020 ..< 0x1020 + 100} \<subseteq> flushed bs"
  using clflush_covers_iff [of 100 "0x1000"] clflush_covers_iff [of 100 "0x1020"] by auto

section \<open>Correctness of the sort\<close>

lemma length_mb_swap [simp]: "length (mb_swap i xs) = length xs"
  by (simp add: mb_swap_def)

lemma mset_mb_swap: "0 < i \<Longrightarrow> i < length xs \<Longrightarrow> mset (mb_swap i xs) = mset xs"
  by (simp add: mb_swap_def mset_swap)

lemma mb_swap_at:
  assumes "0 < i" "i < length xs"
  shows "mb_swap i xs ! (i - 1) = min (xs ! (i - 1)) (xs ! i)" "mb_swap i xs ! i = max (xs ! (i - 1)) (xs ! i)"
    "j \<noteq> i \<Longrightarrow> j \<noteq> i - 1 \<Longrightarrow> mb_swap i xs ! j = xs ! j"
  using assms by (auto simp: mb_swap_def nth_list_update)

text \<open>One pass moves a least element of the rest to its front and leaves the elements before it alone.\<close>

lemma mb_bubble_pass:
  assumes "i < length xs" "n \<le> i"
  shows "length (mb_bubble n i xs) = length xs \<and> mset (mb_bubble n i xs) = mset xs \<and>
    take n (mb_bubble n i xs) = take n xs \<and>
    (\<forall>j. n \<le> j \<and> j \<le> i \<longrightarrow> mb_bubble n i xs ! n \<le> xs ! j) \<and>
    (\<forall>j. i < j \<longrightarrow> mb_bubble n i xs ! j = xs ! j)"
  using assms
proof (induction i arbitrary: xs)
  case (Suc i)
  show ?case
  proof (cases "n = Suc i")
    case False
    let ?ys = "mb_swap (Suc i) xs"
    note sw = mb_swap_at [of "Suc i" xs, simplified]
    have n: "n \<le> i" using False Suc.prems by simp
    have ys: "take n ?ys = take n xs"
      using n Suc.prems by (auto simp: list_eq_iff_nth_eq sw(3))
    from Suc.IH [of ?ys] n Suc.prems have ih: "length (mb_bubble n i ?ys) = length xs"
      "mset (mb_bubble n i ?ys) = mset xs" "take n (mb_bubble n i ?ys) = take n xs"
      "\<forall>j. n \<le> j \<and> j \<le> i \<longrightarrow> mb_bubble n i ?ys ! n \<le> ?ys ! j" "\<forall>j. i < j \<longrightarrow> mb_bubble n i ?ys ! j = ?ys ! j"
      by (simp_all add: mset_mb_swap ys)
    have "mb_bubble n i ?ys ! n \<le> xs ! j" if nj: "n \<le> j" "j \<le> Suc i" for j
    proof -
      consider "j < i" | "j = i" | "j = Suc i" using nj(2) by linarith
      then show ?thesis
        using ih(4) [rule_format, of i] ih(4) [rule_format, of j] n nj Suc.prems
        by cases (auto simp: sw)
    qed
    with ih n Suc.prems show ?thesis by (auto simp: sw)
  qed (use Suc.prems in auto)
qed auto

lemma mb_sort_from_sorted:
  assumes "n + k = length xs" "sorted (take n xs)" "\<forall>a b. a < n \<and> n \<le> b \<and> b < length xs \<longrightarrow> xs ! a \<le> xs ! b"
  shows "sorted (mb_sort_from n k xs) \<and> mset (mb_sort_from n k xs) = mset xs"
  using assms
proof (induction k arbitrary: n xs)
  case (Suc k)
  let ?ys = "mb_bubble n (length xs - 1) xs"
  have i: "length xs - 1 < length xs" "n \<le> length xs - 1" "n < length xs" using Suc.prems(1) by auto
  note p = mb_bubble_pass [OF i(1,2)]
  have len: "length ?ys = length xs" and ms: "mset ?ys = mset xs" and tk: "take n ?ys = take n xs" using p by simp_all
  have pre: "?ys ! a = xs ! a" if "a < n" for a using tk that by (metis nth_take)
  have rest: "set (drop n ?ys) = set (drop n xs)"
  proof -
    have "mset (take n ?ys) + mset (drop n ?ys) = mset (take n xs) + mset (drop n xs)"
      using ms by (metis append_take_drop_id mset_append)
    then show ?thesis using tk by (metis add_left_cancel set_mset_mset)
  qed
  have in_rest: "?ys ! b \<in> set (drop n xs)" if "n \<le> b" "b < length xs" for b
    unfolding rest [symmetric] using that len by (auto simp: in_set_conv_nth intro!: exI [of _ "b - n"])
  have least: "?ys ! n \<le> x" if "x \<in> set (drop n xs)" for x
    using that p by (auto simp: in_set_conv_nth)
  have below: "xs ! a \<le> x" if "a < n" "x \<in> set (drop n xs)" for a x
    using that Suc.prems(3) by (auto simp: in_set_conv_nth)
  have "x \<le> ?ys ! n" if "x \<in> set (take n xs)" for x
    using that below [OF _ in_rest [of n]] i(3) by (auto simp: in_set_conv_nth)
  then have "sorted (take (Suc n) ?ys)"
    using Suc.prems(2) i(3) len tk by (simp add: take_Suc_conv_app_nth sorted_append)
  moreover have "?ys ! a \<le> ?ys ! b" if "a < Suc n" "Suc n \<le> b" "b < length ?ys" for a b
    using that len in_rest [of b] least below pre by (cases "a = n") auto
  ultimately show ?case
    using Suc.IH [of "Suc n" ?ys] Suc.prems(1) len ms by simp
qed simp

lemma mb_sort_sort: "mb_sort xs = sort xs"
proof -
  have "sorted (mb_sort xs) \<and> mset (mb_sort xs) = mset xs"
    unfolding mb_sort_def by (rule mb_sort_from_sorted) simp_all
  then show ?thesis using properties_for_sort [of "mb_sort xs" xs] by simp
qed

section \<open>The report\<close>

lemma mb_scan_eq: "mb_scan es mn mx sm = (Min (insert mn (set es)), Max (insert mx (set es)), sm + sum_list es)"
proof (induction es arbitrary: mn mx sm)
  case (Cons e es)
  have "Min (insert mn (insert e (set es))) = Min (insert (min mn e) (set es))"
    "Max (insert mx (insert e (set es))) = Max (insert (max mx e) (set es))"
    by (cases "set es = {}", simp_all add: min.assoc max.assoc)+
  moreover have "(if e < mn then e else mn) = min mn e" "(if e > mx then e else mx) = max mx e"
    by (auto simp: min_def max_def)
  ultimately show ?case using Cons by (simp only: mb_scan.simps list.simps sum_list.Cons add.assoc)
qed simp

lemma mb_scan9_eq:
  "(\<forall>e \<in> set es. mn \<le> e \<and> e \<le> mx) \<Longrightarrow> mb_scan9 mn mx es mn9 mx9 sm = (mn9, mx9, sm + sum_list es)"
  by (induction es arbitrary: sm) (auto simp: add.assoc)

lemma percentile_floor: "nat \<lfloor>of_nat n * (99 / 100 :: rat)\<rfloor> = n * 99 div 100"
proof -
  have "of_nat n * (99 / 100 :: rat) = of_nat (n * 99) / of_nat 100" by simp
  then have "\<lfloor>of_nat n * (99 / 100 :: rat)\<rfloor> = int (n * 99 div 100)"
    by (simp only: floor_divide_of_nat_eq)
  then show ?thesis by (simp only: nat_int)
qed

text \<open>
  (C35) The report of the benchmark on a non-empty list of times: the sort of the program sorts, the
  extremes and the mean of all samples are the right ones, the mean of the 99 percent is that of the
  smallest samples, but the extremes of the 99 percent are both the least of all samples, whatever
  the times are.
\<close>

theorem mb_report_extremes:
  assumes "samples \<noteq> []"
  shows "\<exists>s s9. mb_report samples = Inr (s, s9) \<and> mb_sort samples = sort samples \<and>
    st_min s = Min (set samples) \<and> st_max s = Max (set samples) \<and>
    st_avg s = sum_list samples / of_nat (length samples) \<and>
    st_min s9 = Min (set samples) \<and> st_max s9 = Min (set samples) \<and>
    st_avg s9 = sum_list (take (length samples * 99 div 100) (sort samples)) / of_nat (length samples * 99 div 100)"
proof -
  let ?k = "length samples * 99 div 100"
  obtain e0 es where e: "sort samples = e0 # es" using assms by (cases "sort samples") (auto dest: arg_cong [of _ _ length])
  have st: "set (sort samples) = set samples" "sum_list (sort samples) = sum_list samples"
    by (simp_all add: sum_mset_sum_list [symmetric])
  have "\<forall>x \<in> set (sort samples). e0 \<le> x" using sorted_sort [of samples] unfolding e by auto
  moreover have e0: "e0 \<in> set samples" unfolding st(1) [symmetric] e by simp
  ultimately have mn: "Min (set samples) = e0" by (intro Min_eqI) simp_all
  have all: "mb_scan (sort samples) e0 e0 0 = (Min (set samples), Max (set samples), sum_list samples)"
    unfolding mb_scan_eq st using e0 by (simp add: insert_absorb)
  have "e \<in> set samples" if "e \<in> set (take ?k (sort samples))" for e
    using set_take_subset [of ?k "sort samples"] that st(1) by auto
  then have "mb_scan9 (Min (set samples)) (Max (set samples)) (take ?k (sort samples)) e0 e0 0
      = (e0, e0, sum_list (take ?k (sort samples)))"
    by (subst mb_scan9_eq) (auto simp del: sort_key_simps)
  with all show ?thesis
    unfolding mb_report_def Let_def mb_sort_sort percentile_floor length_sort
    using e mn by (auto simp: split_beta)
qed

theorem mb_report_extremes_witness:
  "\<exists>s s9. mb_report [30, 10, 50] = Inr (s, s9) \<and> st_min s = 10 \<and> st_max s = 50 \<and> st_avg s = 30 \<and>
     st_min s9 = 10 \<and> st_max s9 = 10 \<and> st_avg s9 = 20"
  using mb_report_extremes [of "[30, 10, 50]"] by auto

end
