(* ===== verification/Put_Packet.thy ===== *)
theory Put_Packet
  imports Pop_Mem Packets C_Getopt Nvme_Io
begin

text \<open>
  \<^verbatim>\<open>apps/put_packet.c\<close>: it puts packets into pop memory for another device to find them.
  Modelled are the command line, the word-wise \<^verbatim>\<open>copy\<close>, the second translation of addresses
  \<^verbatim>\<open>phy_addr\<close>, and \<^verbatim>\<open>main\<close> over the system calls of \<open>Pop_Mem\<close>.
\<close>

section \<open>The command line\<close>

record put_param =
  pp_pktlen :: int
  pp_pktnum :: int
  pp_pci :: "string option"

definition put_defaults :: put_param where
  "put_defaults = \<lparr>pp_pktlen = 64, pp_pktnum = 1, pp_pci = None\<rparr>"

definition put_opt :: "put_param \<Rightarrow> char \<times> string \<Rightarrow> int + put_param" where
  "put_opt p x = (let (ch, optarg) = x; v = atoi optarg in
     if ch = CHR ''p'' then Inr (p\<lparr>pp_pci := Some optarg\<rparr>)
     else if ch = CHR ''s'' then
       (if v < 60 \<or> v > 2048 then Inl (- 1) else Inr (p\<lparr>pp_pktlen := v\<rparr>))
     else if ch = CHR ''n'' then
       (if v < 1 then Inl (- 1) else Inr (p\<lparr>pp_pktnum := v\<rparr>))
     else Inl (- 1))"

definition put_args :: "string list \<Rightarrow> int + put_param" where
  "put_args argv = opt_loop put_opt (getopts ''p:s:n:h'' argv) put_defaults"

definition put_ok :: "put_param \<Rightarrow> bool" where
  "put_ok p \<longleftrightarrow> 60 \<le> pp_pktlen p \<and> pp_pktlen p \<le> 2048 \<and> 1 \<le> pp_pktnum p"

interpretation put_options: option_parser put_opt put_defaults put_ok "- 1"
proof
  show "put_ok put_defaults" by (simp add: put_ok_def put_defaults_def)
  show "put_ok p'" if "put_ok p" "put_opt p x = Inr p'" for p x p'
    using that by (auto simp: put_opt_def put_ok_def Let_def split: prod.splits if_splits)
  show "r = - 1" if "put_opt p x = Inl r" for p x r
    using that by (simp add: put_opt_def Let_def split: prod.splits if_splits)
qed

section \<open>Copying\<close>

text \<open>Words of eight bytes; the loop also copies the word at \<^verbatim>\<open>len >> 3\<close>.\<close>

fun copy_words :: "addr \<Rightarrow> addr \<Rightarrow> nat \<Rightarrow> nat \<Rightarrow> memory \<Rightarrow> memory" where
  "copy_words dst src n 0 m = m"
| "copy_words dst src n (Suc k) m =
     copy_words dst src (Suc n) k (store m (dst + of_nat (8 * n)) (load m (src + of_nat (8 * n)) 8))"

definition copy :: "addr \<Rightarrow> addr \<Rightarrow> u32 \<Rightarrow> memory \<Rightarrow> memory" where
  "copy dst src len m = copy_words dst src 0 (unat (drop_bit 3 len) + 1) m"

section \<open>Physical addresses\<close>

text \<open>
  \<^verbatim>\<open>phy_addr\<close>: as \<^verbatim>\<open>virt_to_phys\<close> of the library, but a failure ends the process with code 1 (the
  left result), without closing the file.
\<close>

definition phy_addr :: "'s sysif \<Rightarrow> addr \<Rightarrow> 's \<Rightarrow> ((int + addr) \<times> 's) outcome" where
  "phy_addr S virt s =
     obind (sys_open S ''/proc/self/pagemap'' s) (\<lambda>(fd, s1).
       if fd < 0 then Inr (Inl 1, s1)
       else let pagesize = sys_pagesize S;
                (ret, s2) = sys_lseek S fd (virt div pagesize * 8) s1
            in if ret < 0 then Inr (Inl 1, s2)
               else let (rc, bs, s3) = sys_read S fd 8 s2;
                        entry = of_nat (le_nat bs) :: u64
                    in if rc < 1 \<or> entry = 0 then Inr (Inl 1, s3)
                       else obind (sys_close S fd s3) (\<lambda>(_, s4).
                         Inr (Inr ((entry AND 0x7FFFFFFFFFFFFF) * pagesize + virt mod pagesize), s4)))"

section \<open>The program\<close>

fun put_loop :: "'s sysif \<Rightarrow> put_param \<Rightarrow> addr \<Rightarrow> nat \<Rightarrow> nat \<Rightarrow> memory \<Rightarrow> 's \<Rightarrow> (int \<times> memory \<times> 's) outcome" where
  "put_loop S p data n 0 bytes s = Inr (0, bytes, s)"
| "put_loop S p data n (Suc k) bytes s =
     (let a = data + of_nat (2048 * n) in
      obind (phy_addr S a s) (\<lambda>(r, s1).
        case r of
          Inl c \<Rightarrow> Inr (c, bytes, s1)
        | Inr _ \<Rightarrow> put_loop S p data (Suc n) k (put_build_pkt a (pp_pktlen p) (of_nat n) bytes) s1))"

text \<open>
  \<^verbatim>\<open>main\<close> after the command line. The result of \<^verbatim>\<open>pop_buf_alloc\<close> is not checked; \<^const>\<open>None\<close> means
  that the allocation does not return.
\<close>

definition put_main :: "'s sysif \<Rightarrow> put_param \<Rightarrow> bool \<Rightarrow> memory \<Rightarrow> 's \<Rightarrow> (int \<times> memory \<times> 's) outcome option" where
  "put_main S p mo bytes s =
     (let sz = word_of_int (2048 * pp_pktnum p) :: u64 in
      case pop_mem_init S (pp_pci p) sz s of
        Inl f \<Rightarrow> Some (Inl f)
      | Inr (Inl e, s1) \<Rightarrow> Some (Inr (- 1, bytes, s1))
      | Inr (Inr (mp, m), s1) \<Rightarrow>
          (case pop_buf_alloc mo mp m sz of
             None \<Rightarrow> None
           | Some (Inl e, m1) \<Rightarrow> Some (Inl NullDeref)
           | Some (Inr b, m1) \<Rightarrow>
               Some (put_loop S p (pop_buf_data (snd (pop_buf_put b sz))) 0 (nat (pp_pktnum p)) bytes s1)))"

section \<open>Lemmas\<close>

lemma copy_words_copies:
  assumes "range_of (dst + of_nat (8 * n)) (8 * k) \<inter> range_of (src + of_nat (8 * n)) (8 * k) = {}" "8 * (n + k) \<le> 2 ^ 64"
  shows "load (copy_words dst src n k m) (dst + of_nat (8 * n)) (8 * k) = load m (src + of_nat (8 * n)) (8 * k) \<and>
    (\<forall>x. x \<notin> range_of (dst + of_nat (8 * n)) (8 * k) \<longrightarrow> copy_words dst src n k m x = m x)"
  using assms
proof (induction k arbitrary: n m)
  case (Suc k)
  let ?d = "\<lambda>i. dst + of_nat (8 * i) :: addr" and ?s = "\<lambda>i. src + of_nat (8 * i) :: addr"
  let ?m = "store m (?d n) (load m (?s n) 8)"
  have e: "8 * Suc k = 8 + 8 * k" "?d (Suc n) = ?d n + of_nat 8" "?s (Suc n) = ?s n + of_nat 8"
    by (simp_all add: algebra_simps)
  have rd: "range_of (?d n) (8 * Suc k) = range_of (?d n) 8 \<union> range_of (?d (Suc n)) (8 * k)"
    and rs: "range_of (?s n) (8 * Suc k) = range_of (?s n) 8 \<union> range_of (?s (Suc n)) (8 * k)"
    unfolding e(1) range_of_append e(2,3) by simp_all
  have dis: "range_of (?d (Suc n)) (8 * k) \<inter> range_of (?s (Suc n)) (8 * k) = {}"
    "range_of (?d n) 8 \<inter> range_of (?s (Suc n)) (8 * k) = {}"
    using Suc.prems(1) unfolding rd rs by blast+
  have dd: "range_of (?d n) 8 \<inter> range_of (?d (Suc n)) (8 * k) = {}"
    by (rule range_of_disjoint) (use Suc.prems(2) in auto)
  have "8 * (Suc n + k) \<le> 2 ^ 64" using Suc.prems(2) by simp
  note ih = Suc.IH [OF dis(1) this, of ?m]
  have "load (copy_words dst src (Suc n) k ?m) (?d n) 8 = load ?m (?d n) 8"
    by (rule load_cong) (use ih dd in blast)
  also have "\<dots> = load m (?s n) 8" using load_store [of "load m (?s n) 8" m "?d n"] by simp
  finally have first: "load (copy_words dst src (Suc n) k ?m) (?d n) 8 = load m (?s n) 8" .
  have "load ?m (?s (Suc n)) (8 * k) = load m (?s (Suc n)) (8 * k)"
    by (rule load_store_disjoint) (use dis(2) in simp)
  with ih have rest: "load (copy_words dst src (Suc n) k ?m) (?d (Suc n)) (8 * k) = load m (?s (Suc n)) (8 * k)" by simp
  have "copy_words dst src (Suc n) k ?m x = m x" if "x \<notin> range_of (?d n) (8 * Suc k)" for x
    using that ih store_outside [of x "?d n" "load m (?s n) 8" m] unfolding rd by auto
  moreover have "load x (?d n) (8 * Suc k) = load x (?d n) 8 @ load x (?d (Suc n)) (8 * k)"
    "load x (?s n) (8 * Suc k) = load x (?s n) 8 @ load x (?s (Suc n)) (8 * k)" for x
    by (simp_all only: e load_append)
  ultimately show ?case using first rest by (simp only: copy_words.simps) blast
qed simp

text \<open>
  \<^verbatim>\<open>copy\<close> moves the bytes it was asked for, and between one and eight bytes more.
\<close>

lemma copy_copies_more:
  fixes len :: u32
  defines "n \<equiv> 8 * (unat len div 8 + 1)"
  assumes "range_of dst n \<inter> range_of src n = {}"
  shows "load (copy dst src len m) dst n = load m src n \<and> unat len < n \<and> n \<le> unat len + 8"
proof -
  have u: "unat (drop_bit 3 len) = unat len div 8" by (simp add: drop_bit_eq_div unat_div)
  have "8 * (0 + (unat len div 8 + 1)) \<le> 2 ^ 64" using unat_u32_less [of len] by simp
  from copy_words_copies [OF _ this, of dst src m] assms(2) u show ?thesis
    by (auto simp: copy_def n_def)
qed

text \<open>When \<^verbatim>\<open>phy_addr\<close> returns, it returns what the library's function returns.\<close>

lemma phy_addr_agrees:
  "phy_addr S a s = Inr (Inr pa, s') \<Longrightarrow> virt_to_phys S a s = Inr (pa, s')"
  by (cases "sys_open S ''/proc/self/pagemap'' s")
    (auto simp: phy_addr_def virt_to_phys_def obind_Inr_iff Let_def split: prod.splits if_splits)

end
