(* ===== verification/Store.thy ===== *)
theory Store
  imports Nvme_Io Packets C_Getopt Pop_Mem
begin

text \<open>
  \<^verbatim>\<open>apps/store.c\<close>: it fills a range of blocks of an NVMe device with packets, one batch of packets
  per write command. \<^verbatim>\<open>apps/generator.c\<close> and \<^verbatim>\<open>apps/nvgen.c\<close> read these packets back.

  The device is a parameter: an operation that writes blocks and the bytes that reads see.
  The messages are not modelled.
\<close>

section \<open>The device\<close>

record 'd nvme_dev =
  dev_write :: "'d \<Rightarrow> u64 \<Rightarrow> u8 list \<Rightarrow> int \<times> 'd"
  dev_byte :: "'d \<Rightarrow> nat \<Rightarrow> u8"

text \<open>
  The documented behaviour of \<^verbatim>\<open>unvme_write\<close>: when it returns 0 the data are on the device, from the
  first block of the command on, and nothing else has changed.
\<close>

definition dev_documented :: "'d nvme_dev \<Rightarrow> nvme_ns \<Rightarrow> bool" where
  "dev_documented D ns \<longleftrightarrow> (\<forall>d lba bs a. fst (dev_write D d lba bs) = 0 \<longrightarrow>
     dev_byte D (snd (dev_write D d lba bs)) a =
       (let s = unat lba * 2 ^ ns_blockshift ns in
        if s \<le> a \<and> a < s + length bs then bs ! (a - s) else dev_byte D d a))"

text \<open>What a read command puts into memory.\<close>

definition dev_read :: "'d nvme_dev \<Rightarrow> nvme_ns \<Rightarrow> nvme_cmd \<Rightarrow> 'd \<Rightarrow> memory \<Rightarrow> memory" where
  "dev_read D ns c d bytes =
     (let s = unat (cmd_lba c) * 2 ^ ns_blockshift ns; n = unat (cmd_nblocks c) * 2 ^ ns_blockshift ns
      in store bytes (cmd_buf c) (map (dev_byte D d) [s..<s + n]))"

section \<open>The command line\<close>

record store_param =
  sp_nvme :: "string option"
  sp_pktlen :: int
  sp_batch :: int
  sp_lba_start :: u64
  sp_lba_end :: u64

definition store_defaults :: store_param where
  "store_defaults = \<lparr>sp_nvme = None, sp_pktlen = 64, sp_batch = 512, sp_lba_start = 0, sp_lba_end = 0\<rparr>"

definition store_opt :: "store_param \<Rightarrow> char \<times> string \<Rightarrow> int + store_param" where
  "store_opt p x = (let (ch, optarg) = x; v = atoi optarg in
     if ch = CHR ''u'' then Inr (p\<lparr>sp_nvme := Some optarg\<rparr>)
     else if ch = CHR ''l'' then
       (if v < 64 \<or> v > 1500 then Inl (- 1) else Inr (p\<lparr>sp_pktlen := v\<rparr>))
     else if ch = CHR ''b'' then
       (if v < 0 then Inl (- 1) else Inr (p\<lparr>sp_batch := v\<rparr>))
     else if ch = CHR ''s'' then
       (case scan_0x optarg of None \<Rightarrow> Inl (- 1) | Some l \<Rightarrow> Inr (p\<lparr>sp_lba_start := l\<rparr>))
     else if ch = CHR ''e'' then
       (case scan_0x optarg of None \<Rightarrow> Inl (- 1) | Some l \<Rightarrow> Inr (p\<lparr>sp_lba_end := l\<rparr>))
     else Inl (- 1))"

definition store_args :: "string list \<Rightarrow> int + store_param" where
  "store_args argv = opt_loop store_opt (getopts ''u:l:b:s:e:'' argv) store_defaults"

definition store_ok :: "store_param \<Rightarrow> bool" where
  "store_ok p \<longleftrightarrow> 64 \<le> sp_pktlen p \<and> sp_pktlen p \<le> 1500 \<and> 0 \<le> sp_batch p"

interpretation store_options: option_parser store_opt store_defaults store_ok "- 1"
proof
  show "store_ok store_defaults" by (simp add: store_ok_def store_defaults_def)
  show "store_ok p'" if "store_ok p" "store_opt p x = Inr p'" for p x p'
    using that by (auto simp: store_opt_def store_ok_def Let_def split: prod.splits if_splits option.splits)
  show "r = - 1" if "store_opt p x = Inl r" for p x r
    using that by (simp add: store_opt_def Let_def split: prod.splits if_splits option.splits)
qed

section \<open>Writing the packets\<close>

text \<open>The packets \<open>b\<close>, \<open>b + 1\<close>, ... of one command.\<close>

fun store_pkts :: "store_param \<Rightarrow> addr \<Rightarrow> u64 \<Rightarrow> nat \<Rightarrow> nat \<Rightarrow> memory \<Rightarrow> memory outcome" where
  "store_pkts p data lba b 0 bytes = Inr bytes"
| "store_pkts p data lba b (Suc k) bytes =
     obind (store_build_pkt (data + of_nat (2048 * b)) (sp_pktlen p) (ucast (lba + of_nat b)) bytes)
       (store_pkts p data lba (Suc b) k)"

text \<open>
  The loop over the device. \<open>nblocks\<close> is an \<^verbatim>\<open>int\<close> that is added to an \<^verbatim>\<open>unsigned long\<close>. The result
  is the return value, the number of packets, the memory and the device; \<^const>\<open>None\<close> means that the
  loop does not end.
\<close>

partial_function (option) store_loop :: "'d nvme_dev \<Rightarrow> nvme_ns \<Rightarrow> store_param \<Rightarrow> addr \<Rightarrow> int \<Rightarrow> u64 \<Rightarrow> memory \<Rightarrow> 'd \<Rightarrow> u64
    \<Rightarrow> (int \<times> u64 \<times> memory \<times> 'd) outcome option" where
  "store_loop D ns p data nblocks lba bytes d num =
     (if lba < sp_lba_end p
      then case store_pkts p data lba 0 (nat (sp_batch p)) bytes of
             Inl f \<Rightarrow> Some (Inl f)
           | Inr bytes1 \<Rightarrow>
               let num1 = num + of_nat (nat (sp_batch p));
                   (ret, d1) = dev_write D d lba (load bytes1 data (nat nblocks * 2 ^ ns_blockshift ns))
               in if ret \<noteq> 0 then Some (Inr (- 1, num1, bytes1, d1))
                  else store_loop D ns p data nblocks (lba + word_of_int nblocks) bytes1 d1 num1
      else Some (Inr (0, num, bytes, d)))"

definition store_nblocks :: "nvme_ns \<Rightarrow> int \<Rightarrow> int" where
  "store_nblocks ns batch = drop_bit (ns_blockshift ns) (2048 * batch)"

text \<open>
  The body of \<^verbatim>\<open>main\<close> on a region. The length of the buffer is an \<^verbatim>\<open>int\<close>; the result of the allocation
  is not checked.
\<close>

definition store_body :: "'d nvme_dev \<Rightarrow> nvme_ns \<Rightarrow> store_param \<Rightarrow> bool \<Rightarrow> addr \<Rightarrow> memory \<Rightarrow> 'd \<Rightarrow> pop_mem
    \<Rightarrow> (int \<times> u64 \<times> memory \<times> 'd) outcome option" where
  "store_body D ns p mo mp bytes d m =
     (let nblocks = store_nblocks ns (sp_batch p);
          sz = word_of_int (push_bit (ns_blockshift ns) nblocks) :: u64
      in if 2 ^ 31 \<le> 2048 * sp_batch p then Some (Inl SignedOverflow)
         else case pop_buf_alloc mo mp m sz of
           None \<Rightarrow> None
         | Some (Inl e, m1) \<Rightarrow> Some (Inl NullDeref)
         | Some (Inr b, m1) \<Rightarrow>
             store_loop D ns p (pop_buf_data (snd (pop_buf_put b sz))) nblocks (sp_lba_start p) bytes d 0)"

text \<open>
  The whole of \<^verbatim>\<open>main\<close>: the device is checked, the region is not, and it is not given back. \<open>mo\<close> and \<open>mp\<close>
  are the answer of \<^verbatim>\<open>malloc\<close> in \<^verbatim>\<open>pop_buf_alloc\<close>.
\<close>

definition store_main :: "'s sysif \<Rightarrow> ((addr \<times> pop_mem) option, 'u) unvme_api \<Rightarrow> 'd nvme_dev \<Rightarrow> bool \<Rightarrow> addr \<Rightarrow> string list
    \<Rightarrow> memory \<Rightarrow> 'd \<Rightarrow> 's \<Rightarrow> 'u \<Rightarrow> (int \<times> memory \<times> 'd \<times> 's \<times> 'u) outcome option" where
  "store_main S U D mo mp argv bytes d s us =
     (case store_args argv of
        Inl r \<Rightarrow> Some (Inr (r, bytes, d, s, us))
      | Inr p \<Rightarrow>
          (case unvme_open U (sp_nvme p) us of
             (None, us1) \<Rightarrow> Some (Inr (- 1, bytes, d, s, us1))
           | (Some ns, us1) \<Rightarrow>
               (case pop_mem_init S None 0 s of
                  Inl f \<Rightarrow> Some (Inl f)
                | Inr (Inl e, s1) \<Rightarrow>
                    let us2 = unvme_register_pop_mem U None us1
                    in Some (Inl (if 2 ^ 31 \<le> 2048 * sp_batch p then SignedOverflow else NullDeref))
                | Inr (Inr mem, s1) \<Rightarrow>
                    let us2 = unvme_register_pop_mem U (Some mem) us1
                    in map_option (\<lambda>x. obind x (\<lambda>(ret, num, bytes1, d1). Inr (ret, bytes1, d1, s1, us2)))
                         (store_body D ns p mo mp bytes d (snd mem)))))"

section \<open>What is on the device\<close>

text \<open>A packet buffer as \<^verbatim>\<open>build_pkt\<close> leaves it: the headers in front and the length at the end.\<close>

definition stored_pkt :: "int \<Rightarrow> u8 list \<Rightarrow> bool" where
  "stored_pkt len bs \<longleftrightarrow> length bs = 2048 \<and> le_nat (drop 2044 bs) = nat len \<and>
     (\<exists>sport. take 42 bs = udp_frame (replicate 6 0xff) (replicate 6 0) 0 len [0, 0] [10, 0, 0, 2] [10, 0, 0, 1]
        sport (be_bytes 2 60000))"

lemma stored_pkt_built:
  assumes "64 \<le> len" "len \<le> 1500"
  shows "\<exists>b'. store_build_pkt buf len ident b = Inr b' \<and> stored_pkt len (load b' buf 2048) \<and>
    (\<forall>x. x \<notin> range_of buf 2048 \<longrightarrow> b' x = b x)"
proof -
  from store_pkt_reads_back [of len buf ident b] assms obtain b' where
    b': "store_build_pkt buf len ident b = Inr b'" "get_pktlen_from_desc b' buf 2048 = word_of_int len"
      "load b' buf 42 = udp_frame (replicate 6 0xff) (replicate 6 0) 0 len [0, 0] [10, 0, 0, 2] [10, 0, 0, 1]
        (be_bytes 2 (unat ident mod 65536)) (be_bytes 2 60000)"
      "\<forall>x. x \<notin> range_of buf 2048 \<longrightarrow> b' x = b x" by auto
  have "drop 2044 (load b' buf 2048) = load b' (buf + 2044) 4"
    using load_append [of b' buf 2044 4] by simp
  moreover have "le_nat (load b' (buf + 2044) 4) < 2 ^ 32" using le_nat_less [of "load b' (buf + 2044) 4"] by simp
  moreover from b'(2) have "unat (of_nat (le_nat (load b' (buf + 2044) 4)) :: u32) = unat (word_of_int len :: u32)"
    by (simp add: get_pktlen_from_desc_def get_pkt_desc_def)
  ultimately have "le_nat (drop 2044 (load b' buf 2048)) = nat len"
    using assms by (simp add: nowrap unat_word_of_int_nowrap)
  moreover have "take 42 (load b' buf 2048) = load b' buf 42"
    using load_append [of b' buf 42 2006] by simp
  ultimately show ?thesis using b' unfolding stored_pkt_def by (intro exI [of _ b']) auto
qed

lemma store_pkts_ok:
  assumes "64 \<le> sp_pktlen p" "sp_pktlen p \<le> 1500"
  shows "2048 * (b + k) \<le> 2 ^ 64 \<Longrightarrow> \<exists>b'. store_pkts p data lba b k bytes = Inr b' \<and>
    (\<forall>i. b \<le> i \<and> i < b + k \<longrightarrow> stored_pkt (sp_pktlen p) (load b' (data + of_nat (2048 * i)) 2048)) \<and>
    (\<forall>x. x \<notin> range_of (data + of_nat (2048 * b)) (2048 * k) \<longrightarrow> b' x = bytes x)"
proof (induction k arbitrary: b bytes)
  case (Suc k)
  let ?p = "\<lambda>i. data + of_nat (2048 * i) :: addr"
  from stored_pkt_built [OF assms, of "?p b" "ucast (lba + of_nat b)" bytes] obtain b1 where
    b1: "store_build_pkt (?p b) (sp_pktlen p) (ucast (lba + of_nat b)) bytes = Inr b1"
      "stored_pkt (sp_pktlen p) (load b1 (?p b) 2048)" "\<forall>x. x \<notin> range_of (?p b) 2048 \<longrightarrow> b1 x = bytes x" by blast
  have "2048 * (Suc b + k) \<le> 2 ^ 64" using Suc.prems by simp
  from Suc.IH [OF this, of b1] obtain b2 where
    b2: "store_pkts p data lba (Suc b) k b1 = Inr b2"
      "\<forall>i. Suc b \<le> i \<and> i < Suc b + k \<longrightarrow> stored_pkt (sp_pktlen p) (load b2 (?p i) 2048)"
      "\<forall>x. x \<notin> range_of (?p (Suc b)) (2048 * k) \<longrightarrow> b2 x = b1 x" by blast
  have dis: "range_of (?p b) 2048 \<inter> range_of (?p (Suc b)) (2048 * k) = {}"
    by (rule range_of_disjoint) (use Suc.prems in auto)
  then have "load b2 (?p b) 2048 = load b1 (?p b) 2048" by (intro load_cong) (use b2(3) in auto)
  with b1(2) b2(2) have "stored_pkt (sp_pktlen p) (load b2 (?p i) 2048)" if "b \<le> i \<and> i < b + Suc k" for i
    using that by (cases "i = b") auto
  moreover have "b2 x = bytes x" if "x \<notin> range_of (?p b) (2048 * Suc k)" for x
    using range_of_append [of "?p b" 2048 "2048 * k"] that b1(3) b2(3) by (simp add: algebra_simps)
  ultimately show ?case using b1(1) b2(1) by (intro exI [of _ b2]) simp
qed auto

text \<open>The bytes of a packet position on the device.\<close>

definition dev_pkt :: "'d nvme_dev \<Rightarrow> 'd \<Rightarrow> nat \<Rightarrow> u8 list" where
  "dev_pkt D d a = map (dev_byte D d) [a..<a + 2048]"

lemma dev_pkt_written:
  assumes "dev_documented D ns" "fst (dev_write D d lba bs) = 0"
    and "unat lba * 2 ^ ns_blockshift ns + i + 2048 \<le> unat lba * 2 ^ ns_blockshift ns + length bs"
  shows "dev_pkt D (snd (dev_write D d lba bs)) (unat lba * 2 ^ ns_blockshift ns + i) = take 2048 (drop i bs)"
  using assms by (auto simp: dev_pkt_def dev_documented_def Let_def list_eq_iff_nth_eq)

lemma store_loop_stores:
  assumes "dev_documented D ns" "store_ok p" "int n = store_nblocks ns (sp_batch p)"
    and "n * 2 ^ ns_blockshift ns = 2048 * nat (sp_batch p)" "0 < sp_batch p" "sp_batch p \<le> 2 ^ 20"
    and "unat (sp_lba_end p) + n < 2 ^ 64"
  shows "\<exists>ret num' bytes' d'. store_loop D ns p data (int n) lba bytes d num = Some (Inr (ret, num', bytes', d')) \<and>
    ((\<forall>d lba bs. fst (dev_write D d lba bs) = 0) \<longrightarrow> ret = 0) \<and>
    (ret = 0 \<longrightarrow> (\<forall>a < unat lba * 2 ^ ns_blockshift ns. dev_byte D d' a = dev_byte D d a) \<and>
      (\<forall>q. unat lba * 2 ^ ns_blockshift ns + 2048 * q < unat (sp_lba_end p) * 2 ^ ns_blockshift ns \<longrightarrow>
         stored_pkt (sp_pktlen p) (dev_pkt D d' (unat lba * 2 ^ ns_blockshift ns + 2048 * q))))"
proof (induction "unat (sp_lba_end p) - unat lba" arbitrary: lba bytes d num rule: less_induct)
  case less
  define bs where "bs = (2 :: nat) ^ ns_blockshift ns"
  define k where "k = nat (sp_batch p)"
  have k: "0 < k" "k \<le> 2 ^ 20" "n * bs = 2048 * k" using assms(4-6) by (simp_all add: k_def bs_def)
  have pl: "64 \<le> sp_pktlen p" "sp_pktlen p \<le> 1500" using assms(2) by (simp_all add: store_ok_def)
  have n: "0 < n" using k by (metis gr0I less_numeral_extra(3) mult_is_0 zero_less_numeral)
  show ?case
  proof (cases "lba < sp_lba_end p")
    case True
    have "2048 * (0 + k) \<le> 2 ^ 64" using k(2) by simp
    from store_pkts_ok [OF pl this, of data lba bytes] obtain b1 where
      b1: "store_pkts p data lba 0 k bytes = Inr b1"
        "\<forall>i < k. stored_pkt (sp_pktlen p) (load b1 (data + of_nat (2048 * i)) 2048)" by auto
    define w where "w = dev_write D d lba (load b1 data (2048 * k))"
    have step: "store_loop D ns p data (int n) lba bytes d num =
      (if fst w \<noteq> 0 then Some (Inr (- 1, num + of_nat k, b1, snd w))
       else store_loop D ns p data (int n) (lba + word_of_int (int n)) b1 (snd w) (num + of_nat k))"
      using True b1(1) k(3) by (subst store_loop.simps) (simp add: w_def k_def [symmetric] bs_def [symmetric] split_beta)
    show ?thesis
    proof (cases "fst w = 0")
      case False
      then have "\<not> (\<forall>d lba bs. fst (dev_write D d lba bs) = 0)" by (auto simp: w_def)
      with False step show ?thesis by simp
    next
      case ok: True
      let ?lba = "lba + word_of_int (int n)"
      have "unat lba < unat (sp_lba_end p)" using True by (simp add: word_nat)
      then have l: "unat ?lba = unat lba + n" using assms(7) by (simp add: nowrap)
      then have "unat (sp_lba_end p) - unat ?lba < unat (sp_lba_end p) - unat lba"
        using n \<open>unat lba < unat (sp_lba_end p)\<close> by simp
      from less.hyps [OF this, of b1 "snd w" "num + of_nat k"] obtain ret num' bytes' d' where
        r: "store_loop D ns p data (int n) ?lba b1 (snd w) (num + of_nat k) = Some (Inr (ret, num', bytes', d'))"
        and good: "(\<forall>d lba bs. fst (dev_write D d lba bs) = 0) \<longrightarrow> ret = 0"
        and keep: "ret = 0 \<Longrightarrow> \<forall>a < unat lba * bs + 2048 * k. dev_byte D d' a = dev_byte D (snd w) a"
        and pk: "ret = 0 \<Longrightarrow> \<forall>q. unat lba * bs + 2048 * k + 2048 * q < unat (sp_lba_end p) * bs \<longrightarrow>
          stored_pkt (sp_pktlen p) (dev_pkt D d' (unat lba * bs + 2048 * k + 2048 * q))"
        unfolding l bs_def [symmetric] add_mult_distrib k(3) by blast
      have old: "dev_byte D d' a = dev_byte D d a" if "ret = 0" "a < unat lba * bs" for a
        using keep [OF that(1)] that(2) assms(1) ok by (simp add: w_def dev_documented_def Let_def bs_def)
      have "stored_pkt (sp_pktlen p) (dev_pkt D d' (unat lba * bs + 2048 * q))"
        if "ret = 0" "unat lba * bs + 2048 * q < unat (sp_lba_end p) * bs" for q
      proof (cases "q < k")
        case True
        have "dev_pkt D d' (unat lba * bs + 2048 * q) = dev_pkt D (snd w) (unat lba * bs + 2048 * q)"
          using keep [OF that(1)] True by (simp add: dev_pkt_def)
        also have "\<dots> = take 2048 (drop (2048 * q) (load b1 data (2048 * k)))"
          unfolding w_def bs_def using dev_pkt_written [OF assms(1) ok [unfolded w_def], of "2048 * q"] True by simp
        also have "\<dots> = load b1 (data + of_nat (2048 * q)) 2048"
          using load_part [of "2048 * q" 2048 "2048 * k" b1 data] True by simp
        finally show ?thesis using b1(2) True by simp
      next
        case False
        then show ?thesis using pk [OF that(1), rule_format, of "q - k"] that(2) by (simp add: algebra_simps)
      qed
      with step ok r good old show ?thesis unfolding bs_def by simp
    qed
  next
    case False
    then have "unat (sp_lba_end p) * bs \<le> unat lba * bs" by (simp add: word_nat not_less)
    then have "\<not> unat lba * bs + 2048 * q < unat (sp_lba_end p) * bs" for q by linarith
    with False show ?thesis unfolding bs_def by (subst store_loop.simps) simp
  qed
qed

text \<open>
  A batch that is smaller than a block gives commands of no blocks: the loop stays at the first block
  and never ends.
\<close>

lemma store_loop_hangs:
  assumes "\<forall>d lba bs. fst (dev_write D d lba bs) = 0" "store_ok p" "sp_batch p \<le> 2 ^ 20" "lba < sp_lba_end p"
  shows "store_loop D ns p data 0 lba bytes d num = None"
proof -
  let ?P = "\<lambda>D p nb lba. nb = (0 :: int) \<and> (\<forall>d lba bs. fst (dev_write D d lba bs) = 0) \<and> store_ok p \<and>
    sp_batch p \<le> 2 ^ 20 \<and> lba < sp_lba_end p"
  have "\<not> ?P D p 0 lba" if "store_loop D ns p data 0 lba bytes d num = Some r" for r
  proof (rule store_loop.raw_induct [OF _ that, of "\<lambda>D ns p data nb lba bytes d num r. \<not> ?P D p nb lba"])
    fix f D ns p data nb lba bytes d num r
    assume ih: "\<And>D ns p data nb lba bytes d num r. f D ns p data nb lba bytes d num = Some r \<Longrightarrow> \<not> ?P D p nb lba"
      and body: "(if lba < sp_lba_end p
        then case store_pkts p data lba 0 (nat (sp_batch p)) bytes of
               Inl f \<Rightarrow> Some (Inl f)
             | Inr bytes1 \<Rightarrow>
                 let num1 = num + of_nat (nat (sp_batch p));
                     (ret, d1) = dev_write D d lba (load bytes1 data (nat nb * 2 ^ ns_blockshift ns))
                 in if ret \<noteq> 0 then Some (Inr (- 1, num1, bytes1, d1))
                    else f D ns p data nb (lba + word_of_int nb) bytes1 d1 num1
        else Some (Inr (0, num, bytes, d))) = Some r"
    show "\<not> ?P D p nb lba"
    proof
      assume P: "?P D p nb lba"
      then have "nat (sp_batch p) \<le> nat (2 ^ 20)" by (intro nat_mono) simp
      then have "2048 * (0 + nat (sp_batch p)) \<le> 2 ^ 64" by simp
      with P obtain b1 where "store_pkts p data lba 0 (nat (sp_batch p)) bytes = Inr b1"
        using store_pkts_ok [of p 0 "nat (sp_batch p)" data lba bytes] by (auto simp: store_ok_def)
      with P body obtain d1 num1 where "f D ns p data 0 lba b1 d1 num1 = Some r"
        by (auto simp: split_beta Let_def)
      with ih P show False by blast
    qed
  qed
  with assms show ?thesis by (cases "store_loop D ns p data 0 lba bytes d num") auto
qed

end
