(* ===== verification/Pipeline.thy ===== *)
theory Pipeline
  imports Store Nvgen
begin

text \<open>
  Two programs on one device: \<^verbatim>\<open>store\<close> fills a range of blocks with packets and \<^verbatim>\<open>nvgen\<close> reads
  them into its ring and sends them. They agree on the layout of a packet buffer (2048 bytes, the
  length in the last four) through \<^verbatim>\<open>apps/pkt_desc.h\<close> only.
\<close>

lemma store_nblocks_pages:
  assumes "ns_blockshift ns = 12" "0 \<le> sp_batch p" "even (sp_batch p)"
  shows "store_nblocks ns (sp_batch p) = int (nat (sp_batch p) div 2)"
    "nat (sp_batch p) div 2 * 2 ^ ns_blockshift ns = 2048 * nat (sp_batch p)"
proof -
  from assms(3) obtain k where k: "sp_batch p = 2 * k" by (elim evenE)
  show "store_nblocks ns (sp_batch p) = int (nat (sp_batch p) div 2)"
    using assms(1,2) by (simp add: k store_nblocks_def drop_bit_eq_div nat_mult_distrib)
  show "nat (sp_batch p) div 2 * 2 ^ ns_blockshift ns = 2048 * nat (sp_batch p)"
    using assms(1,2) by (simp add: k nat_mult_distrib)
qed

text \<open>The program on a region with room for its buffer.\<close>

lemma store_body_stores:
  assumes "dev_documented D ns" "ns_blockshift ns = 12" "store_ok p" "0 < sp_batch p" "even (sp_batch p)"
    and "sp_batch p < 2 ^ 20" "unat (sp_lba_end p) < 2 ^ 63"
    and "mem_ok m" "\<not> pm_mutex m" "nat (sp_batch p) \<le> free_pages m"
  shows "\<exists>ret num bytes' d'. store_body D ns p True mp bytes d m = Some (Inr (ret, num, bytes', d')) \<and>
    ((\<forall>d lba bs. fst (dev_write D d lba bs) = 0) \<longrightarrow> ret = 0) \<and>
    (ret = 0 \<longrightarrow> (\<forall>q. unat (sp_lba_start p) * 4096 + 2048 * q < unat (sp_lba_end p) * 4096 \<longrightarrow>
       stored_pkt (sp_pktlen p) (dev_pkt D d' (unat (sp_lba_start p) * 4096 + 2048 * q))))"
proof -
  define k where "k = nat (sp_batch p)"
  have k: "sp_batch p = int k" "0 < k" "k \<le> 2 ^ 20" "sp_batch p \<le> 2 ^ 20" using assms(4,6) by (simp_all add: k_def)
  have "0 \<le> sp_batch p" using assms(4) by simp
  note nb = store_nblocks_pages [OF assms(2) this assms(5)]
  let ?sz = "word_of_int (push_bit (ns_blockshift ns) (store_nblocks ns (sp_batch p))) :: u64"
  have "push_bit (ns_blockshift ns) (store_nblocks ns (sp_batch p)) = int (2048 * k)"
    unfolding nb(1) push_bit_eq_mult using arg_cong [OF nb(2), of int] by (simp only: k_def of_nat_mult of_nat_power of_nat_numeral)
  then have sz: "unat ?sz = 2048 * k"
    using k(3) unat_of_nat_nowrap [of "2048 * k", where ?'a = 64] by simp
  have "pages_needed (unat ?sz) \<le> k" "unat ?sz \<le> 2 ^ 64 - 4096" using k(2,3) by (simp_all add: sz pages_needed_def)
  then obtain b m1 where a: "pop_buf_alloc True mp m ?sz = Some (Inr b, m1)"
    using pop_buf_alloc_cases [OF assms(8,9), of ?sz True mp] assms(10) by (auto simp: Let_def k_def)
  have "unat (sp_lba_end p) + nat (sp_batch p) div 2 < 2 ^ 64" using assms(7) k(3) by (simp add: k_def)
  from store_loop_stores [OF assms(1,3) nb(1) [symmetric] nb(2) assms(4) k(4) this, of
      "pop_buf_data (snd (pop_buf_put b ?sz))" "sp_lba_start p" bytes d 0]
  show ?thesis
    unfolding store_body_def Let_def nb(1) [symmetric] using a assms(2,6) by auto
qed

text \<open>What a read command of blocks of packets puts into memory.\<close>

lemma dev_read_pkt:
  assumes "ns_blockshift ns = 12" "i < 2 * unat (cmd_nblocks c)"
  shows "load (dev_read D ns c d bytes) (cmd_buf c + of_nat (2048 * i)) 2048
    = dev_pkt D d (unat (cmd_lba c) * 4096 + 2048 * i)"
proof -
  let ?s = "unat (cmd_lba c) * 4096" and ?n = "unat (cmd_nblocks c) * 4096"
  let ?bs = "map (dev_byte D d) [?s..<?s + ?n]"
  have "length ?bs \<le> 2 ^ 64" using unat_u32_less [of "cmd_nblocks c"] by simp
  have "load (dev_read D ns c d bytes) (cmd_buf c) ?n = ?bs"
    using load_store [OF \<open>length ?bs \<le> 2 ^ 64\<close>, of bytes "cmd_buf c"] assms(1) by (simp add: dev_read_def Let_def)
  moreover have le: "2048 * i + 2048 \<le> ?n" using assms(2) by simp
  ultimately have "load (dev_read D ns c d bytes) (cmd_buf c + of_nat (2048 * i)) 2048 = take 2048 (drop (2048 * i) ?bs)"
    using load_part [OF le] by simp
  also have "\<dots> = dev_pkt D d (?s + 2048 * i)"
    using le by (simp add: dev_pkt_def drop_map take_map)
  finally show ?thesis .
qed

lemma stored_pkt_sent:
  assumes "stored_pkt len (load bytes (pkt_addr th i) 2048)" "64 \<le> len" "len \<le> 1500"
  shows "unat (ns_len (tx_slot A mem bytes th i s)) = nat len"
    "\<exists>sport. load bytes (pkt_addr th i) 42 = udp_frame (replicate 6 0xff) (replicate 6 0) 0 len [0, 0]
       [10, 0, 0, 2] [10, 0, 0, 1] sport (be_bytes 2 60000)"
proof -
  let ?a = "pkt_addr th i"
  have "drop 2044 (load bytes ?a 2048) = load bytes (?a + 2044) 4" "take 42 (load bytes ?a 2048) = load bytes ?a 42"
    using load_part [of 2044 4 2048 bytes ?a] load_part [of 0 42 2048 bytes ?a] by simp_all
  with assms(1) have l: "le_nat (load bytes (?a + 2044) 4) = nat len"
    and f: "\<exists>sport. load bytes ?a 42 = udp_frame (replicate 6 0xff) (replicate 6 0) 0 len [0, 0]
       [10, 0, 0, 2] [10, 0, 0, 1] sport (be_bytes 2 60000)" by (simp_all add: stored_pkt_def)
  have "unat (ucast (of_nat (nat len) :: u32) :: u16) = nat len"
  proof -
    have "nat len < 65536" using assms(2,3) by linarith
    then show ?thesis by (simp add: unsigned_ucast_eq take_bit_nat_eq_self unat_of_nat_nowrap del: of_nat_nat)
  qed
  then show "unat (ns_len (tx_slot A mem bytes th i s)) = nat len"
    by (simp add: tx_slot_def get_pktlen_from_desc_def get_pkt_desc_def l)
  show "\<exists>sport. load bytes ?a 42 = udp_frame (replicate 6 0xff) (replicate 6 0) 0 len [0, 0]
       [10, 0, 0, 2] [10, 0, 0, 1] sport (be_bytes 2 60000)" by (rule f)
qed


text \<open>A device that stores what is written.\<close>

definition lab_dev :: "(nat \<Rightarrow> u8) nvme_dev" where
  "lab_dev = \<lparr>dev_write = (\<lambda>d lba bs. (0, \<lambda>a. if unat lba * 4096 \<le> a \<and> a < unat lba * 4096 + length bs
     then bs ! (a - unat lba * 4096) else d a)), dev_byte = (\<lambda>d. d)\<rparr>"

definition lab_store :: store_param where
  "lab_store = store_defaults\<lparr>sp_batch := 2, sp_lba_end := 0xF0000\<rparr>"


end
