(* ===== verification/Spec2Isabelle.thy ===== *)
theory Spec2Isabelle
  imports Boogiepop_Run Alloc_Threads Tools Bench_Main Nmgen_Main Nvgen_Main Generator_Main Mb Put_Packet Pipeline
begin

text \<open>
  \<^bold>\<open>libpop: peripheral-to-peripheral memory for user space.\<close>

  The program. \<^verbatim>\<open>kmod/boogiepop.c\<close> is a kernel module that hands out the memory of PCI devices:
  through \<^verbatim>\<open>/dev/boogiepop\<close> a device is registered and unregistered, through \<^verbatim>\<open>/dev/pop/SLOT\<close> its
  memory is opened and mapped. \<^verbatim>\<open>lib/libpop.c\<close> is the library on top of it: regions
  (\<^verbatim>\<open>pop_mem_init\<close>, \<^verbatim>\<open>pop_mem_exit\<close>) and the buffers taken from them (\<^verbatim>\<open>pop_buf_alloc\<close>, the data
  window, the translation of addresses). \<^verbatim>\<open>lib/pop_netmap.c\<close> attaches netmap rings to buffers. The
  programs under \<^verbatim>\<open>apps/\<close> move packets between NVMe devices and network cards through such
  buffers, \<^verbatim>\<open>tools/\<close> are two command line tools.

  \<^bold>\<open>Theories.\<close>

  \<^item> \<open>Pop_Prelude\<close>: C types as words, faults and outcomes, pages, byte ranges; the collections
    \<open>word_nat\<close> and \<open>nowrap\<close>. \<open>C_Strings\<close>, \<open>C_Getopt\<close>, \<open>Bytes\<close>: the parts of the C library that the
    sources use (strings, \<^verbatim>\<open>sscanf\<close>, \<^verbatim>\<open>atoi\<close>, \<^verbatim>\<open>getopt\<close> with the locale \<open>option_parser\<close>, byte
    memory and byte order).
  \<^item> \<open>Pop_Api\<close>, \<open>Boogiepop\<close>: the structures shared with user space and every handler of the kernel
    module on an explicit kernel state (device list, heap, reference counts, misc devices, open
    files); the kernel services are the record \<open>kenv\<close>. \<open>Boogiepop_Run\<close>: the transition system of the
    handlers, its invariant \<open>kinv\<close>, the refinement of the calls to updates of a finite map, and the
    paths on which the module reads freed memory or loses references.
  \<^item> \<open>Pop_Buf\<close>: regions and buffers of the library; allocation, the window operations and
    \<^verbatim>\<open>pop_virt_to_phys\<close>. The locales \<open>page_pool\<close> (disjoint grants) and \<open>window_buffer\<close> (the window
    as an interval) are interpreted on the code's functions. \<open>Alloc_Threads\<close>: \<^verbatim>\<open>pop_buf_alloc\<close> as
    statements of concurrent threads under its mutex, and linearisability.
  \<^item> \<open>Pop_Mem\<close>: \<^verbatim>\<open>pop_mem_init\<close>, \<^verbatim>\<open>pop_mem_exit\<close> and \<^verbatim>\<open>virt_to_phys\<close> over the system calls
    \<open>sysif\<close>; the locales \<open>pagemap_file\<close> and \<open>pop_system\<close> state what they rely on. \<open>Pop_System\<close>
    provides these system calls with the handlers of \<open>Boogiepop\<close> and composes library and module.
    \<open>Tools\<close>: \<^verbatim>\<open>tools/pop-ioctl.c\<close> and \<^verbatim>\<open>tools/pop-mmap.c\<close> over the same system calls.
  \<^item> \<open>Ring_Index\<close>, \<open>Pop_Netmap\<close>, \<open>Netmap_Io\<close>: rings of slots; \<^verbatim>\<open>lib/pop_netmap.c\<close>; the loops over
    netmap rings that the programs share. netmap is the record \<open>nmapi\<close> with \<open>nm_documented\<close>,
    \<open>txsync_documented\<close> and \<open>rxsync_documented\<close>.
  \<^item> \<open>Packets\<close>: the packet descriptor of \<^verbatim>\<open>apps/pkt_desc.h\<close>, the checksum and the four packet
    builders. \<open>Lba_Walk\<close>, \<open>Nvme_Io\<close>: the walks over the blocks of a device (locale \<open>lba_walk\<close>) and
    NVMe commands. \<open>Counters\<close>: the report threads.
  \<^item> \<open>Bench_Nvme\<close>, \<open>Nvgen\<close>, \<open>Nmgen\<close>, \<open>Generator\<close>, \<open>Mb\<close>, \<open>Store\<close>, \<open>Put_Packet\<close>: the programs under
    \<^verbatim>\<open>apps/\<close>, each with its structures, its command line, its thread bodies as rounds and loops, and
    its totals. \<open>Pipeline\<close>: packets written by \<^verbatim>\<open>store\<close> and sent by \<^verbatim>\<open>nvgen\<close>.
  \<^item> \<open>C_Print\<close>: the conversions of \<^verbatim>\<open>printf\<close> and their inverses. \<open>Netmap_Ports\<close>: the opening of the
    netmap ports, with the locale \<open>port_opener\<close> interpreted on both ways the code has of doing it.
    \<open>Lifecycle\<close>: \<^verbatim>\<open>main\<close> as a list of calls (create, join, release), interleaved with the threads and
    the signal; the locale \<open>joined_program\<close> is the contract that every thread is joined before what it
    uses is released. \<open>Nmgen_Main\<close>, \<open>Nvgen_Main\<close>, \<open>Generator_Main\<close>, \<open>Bench_Main\<close>: \<^verbatim>\<open>main\<close> of the programs
    with threads from the command line to the first thread, the list of calls from there on with its
    interpretation of \<open>joined_program\<close>, and the reports.

  \<^bold>\<open>State and operations.\<close> A structure of the code is a record with the same fields (a prefix keeps
  them apart), a function is a definition of the same name where the name is free. Errors are left
  results, C faults (a null or freed pointer, an index outside an array, a division by zero, a
  signed overflow) are the type \<open>fault\<close>. Integers have the width of the code; \<^verbatim>\<open>int\<close> is used for the C
  type of that name, with conversions to words where the code converts. Random numbers, poll
  results, time stamps, the answers of \<^verbatim>\<open>malloc\<close> and what another thread or device does between
  two rounds are arguments.

  \<^bold>\<open>Loops.\<close> A loop that the code bounds is structural recursion. The page loop of \<^verbatim>\<open>pop_buf_alloc\<close>,
  the loops over netmap rings and the loop of \<^verbatim>\<open>store\<close> are partial functions with \<^const>\<open>None\<close> for not
  returning; that they return, and exactly when they do not, is proved. Loops that run until a
  signal take the number of their rounds, or a list with one element per round, as an argument: the
  theorems hold for every such list, so no bound is chosen. In \<open>Lifecycle\<close> runs are infinite sequences
  of states; that they end after the signal is proved for every fair run, and a finite execution that
  reaches the end of \<^verbatim>\<open>main\<close> is shown to be the beginning of one.

  \<^bold>\<open>What is proved.\<close> The allocator hands out disjoint buffers, also to concurrent threads, and
  translation and window agree with an interval of bytes; the module's calls implement a map of
  registered devices and never fault before a device is unregistered under an open file; library and
  module together register, open and map a device. Attached rings point at their own part of a
  buffer. The programs send valid packets from their own memory, read only their own blocks and
  count what they send and receive. \<^verbatim>\<open>nmgen\<close>, the receiver of \<^verbatim>\<open>nvgen\<close>, \<^verbatim>\<open>generator\<close> and \<^verbatim>\<open>bench-nvme\<close>
  never use the region, a port or the device after giving it up, are never stuck, and end after the
  signal; configurations are read as they are printed. The theorems of kind error show where the code
  breaks its promise: the lost references, the files that outlive their device, lengths that wrap
  around, rings and buffers that are overrun, the threads of the \<^verbatim>\<open>nvgen\<close> sender that outlive the region,
  the error path of \<^verbatim>\<open>generator\<close> that joins threads it never created.

  \<^bold>\<open>Not modelled.\<close> Usage texts and the progress messages of the threads, CPU affinity and the seed of
  the random numbers, which change no state of the program. Floating point: the rates in the reports
  are quotients of the modelled totals, and what \<^verbatim>\<open>printf\<close> makes of them is an argument; the times of
  \<^verbatim>\<open>apps/mb.c\<close> are rational numbers, and its two lines of statistics are modelled up to the square root.
  That a call to \<^verbatim>\<open>pthread_create\<close> can fail is in the model of \<open>Lifecycle\<close>; its theorems are about
  environments in which it succeeds, since the programs ignore its result. \<^verbatim>\<open>test/\<close> holds tests, the
  shell script and the Makefiles no program logic. Kernel services, system calls, netmap and the NVMe
  library are code outside the sources: records of functions, with what is relied on as named
  hypotheses.
\<close>

section \<open>The command lines\<close>


section \<open>The programs with threads\<close>

text \<open>The calls of \<^verbatim>\<open>main\<close> of the programs that join every thread they start.\<close>

definition joined_ops :: "penv \<Rightarrow> op list \<Rightarrow> bool" where
  "joined_ops E ops \<longleftrightarrow>
     (\<exists>owner gen. E = all_created owner \<and> ops = nmgen_ops gen \<and> 0 < nm_ncpus gen \<and>
        (nm_mode gen = NMGEN_MODE_TX \<or> nm_mode gen = NMGEN_MODE_RX)) \<or>
     (\<exists>owner gen. E = all_created owner \<and> ops = nvgen_ops gen \<and> 0 < g_ncpus gen \<and> g_mode gen = NVGEN_MODE_RX) \<or>
     (\<exists>gen. E = own_maps \<and> ops = gen_ops gen) \<or>
     (\<exists>owner p. E = all_created owner \<and> ops = bench_ops p)"

lemma joined_ops_program: "joined_ops E ops \<Longrightarrow> joined_program E ops"
  by (auto simp: joined_ops_def joined_program_def
      intro: nmgen_disciplined nvgen_rx_disciplined gen_disciplined bench_disciplined)


definition lab_events :: "event list" where
  "lab_events = [Main, Main, Main, Sigint, Turn 1, Turn 1, Main, Turn 0, Turn 0, Main, Main, Main]"

lemma lab_run:
  "\<exists>s. proc_run own_maps lab_events (proc_start (nmgen_ops nmgen_defaults) False) = Some (Inr s) \<and> pr_ops s = []"
  "pr_caught (run_state own_maps lab_events (proc_start (nmgen_ops nmgen_defaults) False) 4)"
  by (simp_all add: run_state_def lab_events_def nmgen_ops_def nmgen_spawn_def nmgen_defaults_def proc_start_def
      thread_turn_def body_accessible_def body_stops_def set_phase_def)


end
